(* ===== verification/Go_Prelude.thy ===== *)
theory Go_Prelude
  imports Complex_Main
    "HOL-Library.AList"
    "HOL-Library.Word"
    "HOL-Library.Char_ord"
    "HOL-Library.List_Lexorder"
    "HOL-Library.Sublist"
    "HOL-Library.State_Monad"
begin

text \<open>
  The part of Go that the modelled packages use, and the generic lemmas that the component
  theories share.

  \<^item> \<open>u64\<close> is Go's \<open>uint64\<close>; \<open>+\<close> wraps around. Go's \<open>int\<close> is \<open>int\<close> where a value only
    counts objects in memory.
  \<^item> \<open>gotime\<close> is \<open>time.Time\<close> as nanoseconds since the zero time, so \<open>IsZero\<close> is \<open>t = 0\<close>;
    \<open>duration\<close> is \<open>time.Duration\<close> in nanoseconds.
  \<^item> A Go \<open>string\<close> or \<open>[]byte\<close> is a list of bytes, Isabelle's \<open>string\<close>; the order on strings is
    Go's bytewise order (\<open>List_Lexorder\<close> over \<open>Char_ord\<close>).
  \<^item> A Go map is an association list with distinct keys, read by \<open>map_of\<close> and changed by
    \<open>AList.update\<close> and \<open>AList.delete\<close>. Its list order stands for Go's unspecified
    iteration order.
  \<^item> \<open>strconv.FormatUint\<close> and \<open>strconv.ParseUint\<close> in base 10, \<open>strings.LastIndexByte\<close> and
    \<open>strings.TrimSpace\<close> are written out below.
\<close>

type_synonym u64 = "64 word"
type_synonym gotime = int
type_synonym duration = int
type_synonym bytes = string

abbreviation second :: duration where
  "second \<equiv> 1000000000"

abbreviation millisecond :: duration where
  "millisecond \<equiv> 1000000"

abbreviation IsZero :: "gotime \<Rightarrow> bool" where
  "IsZero t \<equiv> t = 0"

named_theorems gomap \<open>reading and changing a Go map\<close>

subsection \<open>Go maps as association lists\<close>

type_synonym ('k, 'v) gomap = "('k \<times> 'v) list"

abbreviation wf_map :: "('k, 'v) gomap \<Rightarrow> bool" where
  "wf_map m \<equiv> distinct (map fst m)"

declare map_of_eq_Some_iff [simp del] and map_of_eq_None_iff [simp del]

definition map_count :: "('k \<Rightarrow> 'v \<Rightarrow> bool) \<Rightarrow> ('k, 'v) gomap \<Rightarrow> nat" where
  "map_count P m = length (filter (\<lambda>(k, v). P k v) m)"

lemma map_of_put [gomap]: "map_of (AList.update k v m) = (map_of m)(k \<mapsto> v)"
  by (rule update_conv')

lemma map_of_del [gomap]: "map_of (AList.delete k m) = (map_of m)(k := None)"
  by (rule delete_conv')

lemma wf_map_put [gomap, simp]: "wf_map m \<Longrightarrow> wf_map (AList.update k v m)"
  by (rule distinct_update)

lemma wf_map_del [gomap, simp]: "wf_map m \<Longrightarrow> wf_map (AList.delete k m)"
  by (rule distinct_delete)

lemma map_count_Nil [simp]: "map_count P [] = 0"
  by (simp add: map_count_def)

lemma map_count_Cons [simp]:
  "map_count P ((k, v) # m) = (if P k v then Suc (map_count P m) else map_count P m)"
  by (simp add: map_count_def)

lemma map_count_put_fresh:
  "map_of m k = None \<Longrightarrow>
   map_count P (AList.update k v m) = map_count P m + (if P k v then 1 else 0)"
  by (induction m) (auto split: if_splits)

lemma map_count_put_known:
  "wf_map m \<Longrightarrow> map_of m k = Some w \<Longrightarrow>
   map_count P (AList.update k v m) + (if P k w then 1 else 0) =
   map_count P m + (if P k v then 1 else 0)"
proof (induction m)
  case Nil
  then show ?case by simp
next
  case (Cons kv m)
  obtain a b where kv: "kv = (a, b)" by (cases kv)
  show ?case
  proof (cases "a = k")
    case True
    with Cons.prems kv show ?thesis by simp
  next
    case False
    with Cons kv show ?thesis by auto
  qed
qed

lemma map_count_del:
  "wf_map m \<Longrightarrow> map_of m k = Some w \<Longrightarrow>
   map_count P (AList.delete k m) + (if P k w then 1 else 0) = map_count P m"
proof (induction m)
  case Nil
  then show ?case by simp
next
  case (Cons kv m)
  obtain a b where kv: "kv = (a, b)" by (cases kv)
  show ?case
  proof (cases "a = k")
    case True
    with Cons.prems kv have "k \<notin> fst ` set m" and "b = w" by auto
    with kv True show ?thesis by (simp add: delete_idem)
  next
    case False
    with Cons kv show ?thesis by auto
  qed
qed

lemma map_count_cong:
  "(\<And>k v. (k, v) \<in> set m \<Longrightarrow> P k v = Q k v) \<Longrightarrow> map_count P m = map_count Q m"
  by (induction m) auto

lemma map_count_eq_0: "map_count P m = 0 \<longleftrightarrow> (\<forall>(k, v) \<in> set m. \<not> P k v)"
  by (auto simp: map_count_def filter_empty_conv)

lemma map_count_pos:
  "map_of m k = Some v \<Longrightarrow> P k v \<Longrightarrow> 0 < map_count P m"
  by (induction m) (auto split: if_splits)

lemma map_count_two:
  assumes "wf_map m" "map_of m i = Some a" "map_of m j = Some b" "i \<noteq> j" "P i a" "P j b"
  shows "2 \<le> map_count P m"
proof -
  have "map_of (AList.delete i m) j = Some b" using assms(3,4) by (simp add: gomap)
  then have "0 < map_count P (AList.delete i m)" using assms(6) by (rule map_count_pos)
  with map_count_del [OF assms(1,2), of P] assms(5) show ?thesis by simp
qed

subsection \<open>strings.LastIndexByte\<close>

fun LastIndexByte :: "string \<Rightarrow> char \<Rightarrow> nat option" where
  "LastIndexByte [] c = None"
| "LastIndexByte (x # xs) c =
     (case LastIndexByte xs c of
        Some i \<Rightarrow> Some (Suc i)
      | None \<Rightarrow> (if x = c then Some 0 else None))"

lemma LastIndexByte_None: "LastIndexByte s c = None \<longleftrightarrow> c \<notin> set s"
  by (induction s) (auto split: option.splits)

lemma LastIndexByte_append:
  "c \<notin> set t \<Longrightarrow> LastIndexByte (s @ c # t) c = Some (length s)"
  by (induction s) (auto simp: LastIndexByte_None split: option.splits)

lemma LastIndexByte_SomeD:
  "LastIndexByte s c = Some i \<Longrightarrow>
   i < length s \<and> s = take i s @ c # drop (Suc i) s \<and> c \<notin> set (drop (Suc i) s)"
  by (induction s arbitrary: i) (auto simp: LastIndexByte_None split: option.splits if_splits)

subsection \<open>strconv.FormatUint and strconv.ParseUint, base 10\<close>

definition digit_char :: "nat \<Rightarrow> char" where
  "digit_char d = char_of (48 + d)"

definition is_digit :: "char \<Rightarrow> bool" where
  "is_digit c \<longleftrightarrow> 48 \<le> (of_char c :: nat) \<and> (of_char c :: nat) \<le> 57"

definition digit_val :: "char \<Rightarrow> nat" where
  "digit_val c = of_char c - 48"

fun format_nat :: "nat \<Rightarrow> string" where
  "format_nat n =
     (if n < 10 then [digit_char n] else format_nat (n div 10) @ [digit_char (n mod 10)])"

declare format_nat.simps [simp del]

definition FormatUint :: "u64 \<Rightarrow> string" where
  "FormatUint v = format_nat (unat v)"

datatype num_error = ErrSyntax | ErrRange

definition max_uint64 :: nat where
  "max_uint64 = 18446744073709551615"

definition parse_cutoff :: nat where
  "parse_cutoff = max_uint64 div 10 + 1"

fun parse_uint_loop :: "nat \<Rightarrow> string \<Rightarrow> num_error + nat" where
  "parse_uint_loop n [] = Inr n"
| "parse_uint_loop n (c # cs) =
     (if \<not> is_digit c then Inl ErrSyntax
      else if n \<ge> parse_cutoff then Inl ErrRange
      else if n * 10 + digit_val c > max_uint64 then Inl ErrRange
      else parse_uint_loop (n * 10 + digit_val c) cs)"

definition ParseUint :: "string \<Rightarrow> num_error + u64" where
  "ParseUint s =
     (if s = [] then Inl ErrSyntax
      else case parse_uint_loop 0 s of Inl e \<Rightarrow> Inl e | Inr n \<Rightarrow> Inr (of_nat n))"

lemma digit_char_digit [simp]: "d < 10 \<Longrightarrow> is_digit (digit_char d)"
  by (simp add: digit_char_def is_digit_def)

lemma digit_val_char [simp]: "d < 10 \<Longrightarrow> digit_val (digit_char d) = d"
  by (simp add: digit_char_def digit_val_def)

lemma format_nat_digits: "list_all is_digit (format_nat n)"
proof (induction n rule: format_nat.induct)
  case (1 n)
  then show ?case
    by (cases "n < 10") (simp_all add: format_nat.simps [of n])
qed

lemma format_nat_nonempty [simp]: "format_nat n \<noteq> []"
  by (subst format_nat.simps) simp

lemma slash_not_digit: "\<not> is_digit (CHR ''/'')"
  by (simp add: is_digit_def)

lemma format_nat_no_slash [simp]: "CHR ''/'' \<notin> set (format_nat n)"
  using format_nat_digits [of n] slash_not_digit by (auto simp: list_all_iff)

lemma parse_uint_loop_append:
  "parse_uint_loop n (xs @ ys) =
     (case parse_uint_loop n xs of Inl e \<Rightarrow> Inl e | Inr m \<Rightarrow> parse_uint_loop m ys)"
  by (induction xs arbitrary: n) auto

lemma parse_format_nat: "n \<le> max_uint64 \<Longrightarrow> parse_uint_loop 0 (format_nat n) = Inr n"
proof (induction n rule: format_nat.induct)
  case (1 n)
  show ?case
  proof (cases "n < 10")
    case True
    with 1 show ?thesis
      by (simp add: format_nat.simps [of n] parse_cutoff_def max_uint64_def)
  next
    case False
    with 1 have "parse_uint_loop 0 (format_nat (n div 10)) = Inr (n div 10)" by simp
    moreover have "n div 10 < parse_cutoff"
      using "1.prems" unfolding parse_cutoff_def by (simp add: div_le_mono less_Suc_eq_le)
    moreover have "n div 10 * 10 + n mod 10 = n" by simp
    ultimately show ?thesis
      using False "1.prems" by (simp add: format_nat.simps [of n] parse_uint_loop_append)
  qed
qed

lemma unat_le_max_uint64: "unat (v :: u64) \<le> max_uint64"
  using unsigned_less [of v, where ?'a = nat] by (simp add: max_uint64_def)

lemma ParseUint_FormatUint [simp]: "ParseUint (FormatUint v) = Inr v"
  by (simp add: ParseUint_def FormatUint_def parse_format_nat unat_le_max_uint64)

lemma FormatUint_inject [simp]: "FormatUint v = FormatUint w \<longleftrightarrow> v = w"
  by (metis ParseUint_FormatUint sum.inject(2))

lemma FormatUint_no_slash [simp]: "CHR ''/'' \<notin> set (FormatUint v)"
  by (simp add: FormatUint_def)

lemma FormatUint_digits: "list_all is_digit (FormatUint v)"
  by (simp add: FormatUint_def format_nat_digits)

lemma FormatUint_nonempty [simp]: "FormatUint v \<noteq> []"
  by (simp add: FormatUint_def)

subsection \<open>unicode.IsSpace and strings.TrimSpace\<close>

text \<open>
  The UTF-8 encodings of the runes with the White\_Space property. No continuation byte of a
  longer encoding starts one of them, so looking for them byte by byte finds what decoding
  rune by rune finds.
\<close>

definition space_encodings :: "string list" where
  "space_encodings =
     [[CHR 0x09], [CHR 0x0A], [CHR 0x0B], [CHR 0x0C], [CHR 0x0D], [CHR 0x20],
      [CHR 0xC2, CHR 0x85], [CHR 0xC2, CHR 0xA0], [CHR 0xE1, CHR 0x9A, CHR 0x80],
      [CHR 0xE2, CHR 0x80, CHR 0x80], [CHR 0xE2, CHR 0x80, CHR 0x81],
      [CHR 0xE2, CHR 0x80, CHR 0x82], [CHR 0xE2, CHR 0x80, CHR 0x83],
      [CHR 0xE2, CHR 0x80, CHR 0x84], [CHR 0xE2, CHR 0x80, CHR 0x85],
      [CHR 0xE2, CHR 0x80, CHR 0x86], [CHR 0xE2, CHR 0x80, CHR 0x87],
      [CHR 0xE2, CHR 0x80, CHR 0x88], [CHR 0xE2, CHR 0x80, CHR 0x89],
      [CHR 0xE2, CHR 0x80, CHR 0x8A], [CHR 0xE2, CHR 0x80, CHR 0xA8],
      [CHR 0xE2, CHR 0x80, CHR 0xA9], [CHR 0xE2, CHR 0x80, CHR 0xAF],
      [CHR 0xE2, CHR 0x81, CHR 0x9F], [CHR 0xE3, CHR 0x80, CHR 0x80]]"

lemma space_encodings_nonempty: "e \<in> set space_encodings \<Longrightarrow> e \<noteq> []"
  by (auto simp: space_encodings_def)

function trim_prefixes :: "string list \<Rightarrow> string \<Rightarrow> string" where
  "trim_prefixes ps s =
     (case find (\<lambda>p. p \<noteq> [] \<and> prefix p s) ps of
        None \<Rightarrow> s
      | Some p \<Rightarrow> trim_prefixes ps (drop (length p) s))"
  by pat_completeness auto
termination
  by (relation "measure (\<lambda>(ps, s). length s)") (auto simp: find_Some_iff prefix_def)

declare trim_prefixes.simps [simp del]

definition TrimSpace :: "string \<Rightarrow> string" where
  "TrimSpace s =
     rev (trim_prefixes (map rev space_encodings) (rev (trim_prefixes space_encodings s)))"

lemma find_NoneI: "(\<And>x. x \<in> set xs \<Longrightarrow> \<not> P x) \<Longrightarrow> find P xs = None"
  by (simp add: find_None_iff)

lemma trim_prefixes_idle:
  "(\<And>p. p \<in> set ps \<Longrightarrow> p \<noteq> [] \<Longrightarrow> \<not> prefix p s) \<Longrightarrow> trim_prefixes ps s = s"
  by (subst trim_prefixes.simps, subst find_NoneI) auto

lemma space_encodings_no_digit:
  "p \<in> set space_encodings \<Longrightarrow> \<not> is_digit (hd p) \<and> \<not> is_digit (last p)"
  by (auto simp: space_encodings_def is_digit_def)

lemma prefix_hd: "prefix p s \<Longrightarrow> p \<noteq> [] \<Longrightarrow> hd p = hd s \<and> s \<noteq> []"
  by (cases p) (auto simp: prefix_def)

lemma TrimSpace_digits:
  assumes "list_all is_digit s"
  shows "TrimSpace s = s"
proof -
  have 1: "trim_prefixes space_encodings s = s"
  proof (rule trim_prefixes_idle, rule notI)
    fix p assume "p \<in> set space_encodings" "p \<noteq> []" "prefix p s"
    moreover from this have "hd p = hd s" and "s \<noteq> []" by (auto dest: prefix_hd)
    ultimately show False
      using assms space_encodings_no_digit [of p] by (cases s) auto
  qed
  have 2: "trim_prefixes (map rev space_encodings) (rev s) = rev s"
  proof (rule trim_prefixes_idle, rule notI)
    fix p assume "p \<in> set (map rev space_encodings)" "p \<noteq> []" "prefix p (rev s)"
    moreover from this obtain q where q: "q \<in> set space_encodings" "p = rev q" by auto
    ultimately have "hd (rev q) = hd (rev s)" "s \<noteq> []" "q \<noteq> []"
      using prefix_hd [of p "rev s"] by auto
    then have "last q = last s" "last s \<in> set s" by (simp_all add: hd_rev)
    then show False
      using assms space_encodings_no_digit [OF q(1)] by (simp add: list_all_iff)
  qed
  from 1 2 show ?thesis by (simp add: TrimSpace_def)
qed

end
