(* ===== verification/Core_Errors.thy ===== *)
theory Core_Errors
  imports Go_Prelude
begin

text \<open>
  The error values of \<open>pkg/core\<close>: the sentinels of \<open>errors.go\<close> (with the few declared beside
  their users and the two of package \<open>context\<close>), errors built by \<open>fmt.Errorf\<close> around them, and
  the walk that \<open>errors.Is\<close> and \<open>errors.As\<close> make over what an error wraps. \<open>EFmt\<close> keeps the
  pieces of the format in order; a \<open>PErr\<close> piece is a \<open>%w\<close> verb and is the only piece the walk
  enters. \<open>%q\<close> is \<open>go_quote\<close>, which leaves bytes from 0x80 on as they are, as strconv does for
  printable UTF-8.
\<close>

datatype sentinel =
    ErrPayloadTooLarge
  | ErrDeadline
  | ErrWrongAudience
  | ErrNotReady
  | ErrDraining
  | ErrVerifyUnavailable
  | ErrDeltaTooLarge
  | ErrIncompatible
  | ErrNeedsDevice
  | ErrDeviceMismatch
  | ErrNeedsIsolation
  | ErrNeedsHandoff
  | ErrNeedsWorkspace
  | ErrNoWorkspace
  | ErrDeltaQuota
  | ErrCallerMismatch
  | ErrUnboundGrant
  | ErrHandoffUnbound
  | ErrNoTenant
  | ErrAnonymousPark
  | ErrSessionRunning
  | ErrSessionUnknown
  | ErrNoPool
  | ErrYielded
  | ErrAudit
  | ErrAuditChain
  | ErrGrantUnknown
  | ErrGrantExpired
  | ErrGrantRevoked
  | ErrGrantChanged
  | ErrNeedsTier
  | ErrGrantFull
  | ErrFiberUnknown
  | ErrPressure
  | ErrRateLimit
  | ErrSessionHeld
  | ErrNoSession
  | ErrSpoolClosed
  | DeadlineExceeded
  | Canceled

primrec sentinel_text :: "sentinel \<Rightarrow> string" where
  "sentinel_text ErrPayloadTooLarge = ''fiberd: payload exceeds 4096 bytes''"
| "sentinel_text ErrDeadline = ''fiberd: clone missed deadline''"
| "sentinel_text ErrWrongAudience = ''fiberd: grant audience is not this home''"
| "sentinel_text ErrNotReady = ''fiberd: template not ready on this home''"
| "sentinel_text ErrDraining = ''fiberd: home is draining before it stops''"
| "sentinel_text ErrVerifyUnavailable = ''fiberd: cannot verify offline; key material unavailable''"
| "sentinel_text ErrDeltaTooLarge = ''fiberd: parked state exceeds w_budget_bytes; not moving it''"
| "sentinel_text ErrIncompatible = ''fiberd: parked state was made on an incompatible platform; not moving it''"
| "sentinel_text ErrNeedsDevice = ''fiberd: grant needs a device class this home does not offer''"
| "sentinel_text ErrDeviceMismatch = ''fiberd: parked device state needs an engine of another class or layout; not moving it''"
| "sentinel_text ErrNeedsIsolation = ''fiberd: untrusted grant needs a runtime that isolates tenants''"
| "sentinel_text ErrNeedsHandoff = ''fiberd: handoff grant needs a home that hands connections to fibers''"
| "sentinel_text ErrNeedsWorkspace = ''fiberd: grant with a disk budget needs a runtime that gives fibers a workspace''"
| "sentinel_text ErrNoWorkspace = ''fiberd: the fiber's grant has no workspace (disk_budget_bytes is zero)''"
| "sentinel_text ErrDeltaQuota = ''fiberd: grant's parked deltas would exceed its quota on this home''"
| "sentinel_text ErrCallerMismatch = ''fiberd: grant is bound to another caller's key''"
| "sentinel_text ErrUnboundGrant = ''fiberd: grant is not bound to a caller key''"
| "sentinel_text ErrHandoffUnbound = ''fiberd: handoff grant is not bound to a caller key''"
| "sentinel_text ErrNoTenant = ''fiberd: named session needs a grant with a tenant''"
| "sentinel_text ErrAnonymousPark = ''fiberd: a fiber without a session cannot be resumed, release it instead''"
| "sentinel_text ErrSessionRunning = ''fiberd: the session is running, release its fiber with discard instead''"
| "sentinel_text ErrSessionUnknown = ''fiberd: no parked session by that name''"
| "sentinel_text ErrNoPool = ''pool: the grant's template cannot pool''"
| "sentinel_text ErrYielded = ''pool: the fill yielded to a clone''"
| "sentinel_text ErrAudit = ''audit: record not durable''"
| "sentinel_text ErrAuditChain = ''audit: spool does not verify''"
| "sentinel_text ErrGrantUnknown = ''ledger: grant not held by this home''"
| "sentinel_text ErrGrantExpired = ''ledger: grant lease expired''"
| "sentinel_text ErrGrantRevoked = ''ledger: grant revoked on this home''"
| "sentinel_text ErrGrantChanged = ''ledger: a grant uid may change only its lease and its caller''"
| "sentinel_text ErrNeedsTier = ''ledger: runtime tier below what the grant or session requires''"
| "sentinel_text ErrGrantFull = ''ledger: grant at fibers.max, no capacity for a new fiber''"
| "sentinel_text ErrFiberUnknown = ''ledger: fiber unknown in this epoch''"
| "sentinel_text ErrPressure = ''pressure: grant is shedding new clones''"
| "sentinel_text ErrRateLimit = ''rate limit: clone rate over f(W), retry later''"
| "sentinel_text ErrSessionHeld = ''ledger: session already held by this home''"
| "sentinel_text ErrNoSession = ''fiberd: discard names no session''"
| "sentinel_text ErrSpoolClosed = ''audit: spool closed''"
| "sentinel_text DeadlineExceeded = ''context deadline exceeded''"
| "sentinel_text Canceled = ''context canceled''"

datatype goerr =
    ESentinel sentinel
  | ENew string
  | EFmt "piece list"
  | ERemoteMiss goerr string
and piece =
    PStr string
  | PErr goerr

text \<open>\<open>ERemoteMiss e home\<close> is \<open>*RemoteMiss\<close>: its text and what it unwraps to are those of \<open>e\<close>.\<close>

fun errors_Is :: "goerr \<Rightarrow> sentinel \<Rightarrow> bool"
  and errors_Is_any :: "piece list \<Rightarrow> sentinel \<Rightarrow> bool"
where
  "errors_Is (ESentinel s) t = (s = t)"
| "errors_Is (ENew m) t = False"
| "errors_Is (EFmt ps) t = errors_Is_any ps t"
| "errors_Is (ERemoteMiss e h) t = errors_Is e t"
| "errors_Is_any [] t = False"
| "errors_Is_any (PStr m # ps) t = errors_Is_any ps t"
| "errors_Is_any (PErr e # ps) t = (errors_Is e t \<or> errors_Is_any ps t)"

text \<open>\<open>errors.As(err, &rm)\<close> for \<open>rm *RemoteMiss\<close>: the home the first one in the walk names.\<close>

fun as_RemoteMiss :: "goerr \<Rightarrow> string option"
  and as_RemoteMiss_any :: "piece list \<Rightarrow> string option"
where
  "as_RemoteMiss (ESentinel s) = None"
| "as_RemoteMiss (ENew m) = None"
| "as_RemoteMiss (EFmt ps) = as_RemoteMiss_any ps"
| "as_RemoteMiss (ERemoteMiss e h) = Some h"
| "as_RemoteMiss_any [] = None"
| "as_RemoteMiss_any (PStr m # ps) = as_RemoteMiss_any ps"
| "as_RemoteMiss_any (PErr e # ps) =
     (case as_RemoteMiss e of Some h \<Rightarrow> Some h | None \<Rightarrow> as_RemoteMiss_any ps)"

fun Error_text :: "goerr \<Rightarrow> string"
  and Error_texts :: "piece list \<Rightarrow> string"
where
  "Error_text (ESentinel s) = sentinel_text s"
| "Error_text (ENew m) = m"
| "Error_text (EFmt ps) = Error_texts ps"
| "Error_text (ERemoteMiss e h) = Error_text e"
| "Error_texts [] = []"
| "Error_texts (PStr m # ps) = m @ Error_texts ps"
| "Error_texts (PErr e # ps) = Error_text e @ Error_texts ps"

definition hex_char :: "nat \<Rightarrow> char" where
  "hex_char d = (if d < 10 then char_of (48 + d) else char_of (87 + d))"

definition quote_char :: "char \<Rightarrow> string" where
  "quote_char c =
     (let n = (of_char c :: nat); bs = CHR 0x5C in
      if n = 0x22 \<or> n = 0x5C then [bs, c]
      else if n = 0x07 then [bs, CHR ''a''] else if n = 0x08 then [bs, CHR ''b'']
      else if n = 0x09 then [bs, CHR ''t''] else if n = 0x0A then [bs, CHR ''n'']
      else if n = 0x0B then [bs, CHR ''v''] else if n = 0x0C then [bs, CHR ''f'']
      else if n = 0x0D then [bs, CHR ''r'']
      else if n < 0x20 \<or> n = 0x7F then [bs, CHR ''x'', hex_char (n div 16), hex_char (n mod 16)]
      else [c])"

definition go_quote :: "string \<Rightarrow> string" where
  "go_quote s = CHR 0x22 # concat (map quote_char s) @ [CHR 0x22]"

text \<open>\<open>fmt.Errorf("%w: ...", s, ...)\<close>, the shape most refusals have.\<close>

definition wrapped :: "sentinel \<Rightarrow> string \<Rightarrow> goerr" where
  "wrapped s detail = EFmt [PErr (ESentinel s), PStr ('': '' @ detail)]"

definition wrapped2 :: "sentinel \<Rightarrow> goerr \<Rightarrow> goerr" where
  "wrapped2 s e = EFmt [PErr (ESentinel s), PStr '': '', PErr e]"

lemma errors_Is_wrapped [simp]: "errors_Is (wrapped s d) t \<longleftrightarrow> s = t"
  by (simp add: wrapped_def)

lemma errors_Is_wrapped2 [simp]: "errors_Is (wrapped2 s e) t \<longleftrightarrow> s = t \<or> errors_Is e t"
  by (simp add: wrapped2_def)

lemma as_RemoteMiss_wrapped [simp]: "as_RemoteMiss (wrapped s d) = None"
  by (simp add: wrapped_def)

lemma as_RemoteMiss_wrapped2 [simp]: "as_RemoteMiss (wrapped2 s e) = as_RemoteMiss e"
  by (simp add: wrapped2_def split: option.splits)

end
