(* ===== verification/Writefile.thy ===== *)
theory Writefile
  imports Core_Errors
begin

text \<open>
  \<open>pkg/core/writefile.go\<close>: \<open>writeFileAtomic\<close> and \<open>syncDir\<close> over a small file system. A
  directory maps names to inodes. It has the entries a reader sees now (\<open>dir\<close>) and the entries
  known to be on disk (\<open>ddir\<close>); an inode has the data a reader sees (\<open>idata\<close>) and, once the
  file was fsynced, the data on disk (\<open>iddata\<close>). A crash leaves each name with either its
  current or its on-disk entry, and an inode that was never fsynced may hold anything. This is
  POSIX's view: \<open>fsync\<close> of a file makes its data durable, \<open>fsync\<close> of its directory makes
  renames in it durable.

  Every system call may fail. \<open>faults\<close> says which do, and how many bytes a failed write left. The
  model also returns every file system state it passes through, so that a crash at any point and
  a reader at any point can be stated.
\<close>

record fs =
  dir :: "(string, nat) gomap"
  ddir :: "(string, nat) gomap"
  idata :: "(nat, bytes) gomap"
  iddata :: "(nat, bytes) gomap"

record faults =
  fl_create :: bool
  fl_chmod :: bool
  fl_write :: "nat option"
  fl_sync :: bool
  fl_close :: bool
  fl_rename :: bool
  fl_opendir :: bool
  fl_syncdir :: bool
  fl_closedir :: bool

definition read_file :: "fs \<Rightarrow> string \<Rightarrow> bytes option" where
  "read_file f p = Option.bind (map_of (dir f) p) (map_of (idata f))"

definition fs_create :: "fs \<Rightarrow> string \<Rightarrow> nat \<Rightarrow> fs" where
  "fs_create f p i = f\<lparr>dir := AList.update p i (dir f), idata := AList.update i [] (idata f)\<rparr>"

definition fs_write :: "fs \<Rightarrow> nat \<Rightarrow> bytes \<Rightarrow> fs" where
  "fs_write f i b = f\<lparr>idata := AList.update i b (idata f)\<rparr>"

definition fs_sync :: "fs \<Rightarrow> nat \<Rightarrow> fs" where
  "fs_sync f i =
     (case map_of (idata f) i of
        None \<Rightarrow> f
      | Some b \<Rightarrow> f\<lparr>iddata := AList.update i b (iddata f)\<rparr>)"

definition fs_rename :: "fs \<Rightarrow> string \<Rightarrow> string \<Rightarrow> fs" where
  "fs_rename f old new =
     (case map_of (dir f) old of
        None \<Rightarrow> f
      | Some i \<Rightarrow> f\<lparr>dir := AList.update new i (AList.delete old (dir f))\<rparr>)"

definition fs_remove :: "fs \<Rightarrow> string \<Rightarrow> fs" where
  "fs_remove f p = f\<lparr>dir := AList.delete p (dir f)\<rparr>"

definition fs_syncdir :: "fs \<Rightarrow> fs" where
  "fs_syncdir f = f\<lparr>ddir := dir f\<rparr>"

text \<open>\<open>syncDir\<close>: open, sync and close the directory, keeping the first error.\<close>

definition syncDir :: "faults \<Rightarrow> fs \<Rightarrow> bool \<times> fs" where
  "syncDir fl f =
     (if fl_opendir fl then (False, f)
      else if fl_syncdir fl then (False, f)
      else (\<not> fl_closedir fl, fs_syncdir f))"

text \<open>
  \<open>tmp\<close> and \<open>i\<close> are the fresh name and inode \<open>os.CreateTemp\<close> picks. The result is whether the
  call returned nil, the final state and the states passed through, the first one included.
\<close>

definition writeFileAtomic ::
  "faults \<Rightarrow> fs \<Rightarrow> string \<Rightarrow> bytes \<Rightarrow> string \<Rightarrow> nat \<Rightarrow> bool \<times> fs \<times> fs list" where
  "writeFileAtomic fl f0 path data tmp i =
     (if fl_create fl then (False, f0, [f0])
      else
        let f1 = fs_create f0 tmp i;
            chmod_ok = (\<not> fl_chmod fl);
            f2 = (if \<not> chmod_ok then f1
                  else case fl_write fl of
                         None \<Rightarrow> fs_write f1 i data
                       | Some n \<Rightarrow> fs_write f1 i (take n data));
            write_ok = (chmod_ok \<and> fl_write fl = None);
            sync_ok = (write_ok \<and> \<not> fl_sync fl);
            f3 = (if sync_ok then fs_sync f2 i else f2);
            close_ok = (sync_ok \<and> \<not> fl_close fl);
            rename_ok = (close_ok \<and> \<not> fl_rename fl);
            f4 = (if rename_ok then fs_rename f3 tmp path else f3)
        in if \<not> rename_ok then
             (let f5 = fs_remove f4 tmp in (False, f5, [f0, f1, f2, f3, f5]))
           else
             (let (ok, f5) = syncDir fl f4 in (ok, f5, [f0, f1, f2, f3, f4, f5])))"

text \<open>What a name may hold after a crash: its current or its on-disk entry, with the fsynced
  data, or any data when the inode was never fsynced (\<open>None\<close> in the outer option stands for
  an unsynced inode).\<close>

datatype crash_content = NoFile | Holds bytes | Garbage

definition inode_after_crash :: "fs \<Rightarrow> nat option \<Rightarrow> crash_content" where
  "inode_after_crash f io =
     (case io of
        None \<Rightarrow> NoFile
      | Some i \<Rightarrow> (case map_of (iddata f) i of Some b \<Rightarrow> Holds b | None \<Rightarrow> Garbage))"

definition crash_contents :: "fs \<Rightarrow> string \<Rightarrow> crash_content set" where
  "crash_contents f p =
     {inode_after_crash f (map_of (dir f) p), inode_after_crash f (map_of (ddir f) p)}"

text \<open>A file system at rest: the file is on disk as a reader sees it.\<close>

definition settled :: "fs \<Rightarrow> string \<Rightarrow> bool" where
  "settled f p \<longleftrightarrow>
     map_of (ddir f) p = map_of (dir f) p \<and>
     (\<forall>i. map_of (dir f) p = Some i \<longrightarrow> map_of (iddata f) i = map_of (idata f) i \<and> map_of (idata f) i \<noteq> None)"

definition rest_content :: "fs \<Rightarrow> string \<Rightarrow> crash_content" where
  "rest_content f p = (case read_file f p of None \<Rightarrow> NoFile | Some b \<Rightarrow> Holds b)"

text \<open>What \<open>os.CreateTemp\<close> promises: a name and an inode nothing else uses.\<close>

definition fresh_temp :: "fs \<Rightarrow> string \<Rightarrow> string \<Rightarrow> nat \<Rightarrow> bool" where
  "fresh_temp f path tmp i \<longleftrightarrow>
     tmp \<noteq> path \<and> map_of (dir f) tmp = None \<and>
     map_of (dir f) path \<noteq> Some i \<and> map_of (ddir f) path \<noteq> Some i"

lemmas fs_op_defs =
  fs_create_def fs_write_def fs_sync_def fs_rename_def fs_remove_def fs_syncdir_def

lemmas wfa_defs =
  writeFileAtomic_def fs_op_defs syncDir_def Let_def

lemma settled_crash:
  "settled f p \<Longrightarrow> crash_contents f p = {rest_content f p}"
  by (auto simp: settled_def crash_contents_def inode_after_crash_def rest_content_def
      read_file_def split: option.splits)

text \<open>A state in which \<open>path\<close> is untouched: same entries, same data under them.\<close>

definition untouched :: "fs \<Rightarrow> fs \<Rightarrow> string \<Rightarrow> bool" where
  "untouched f0 f p \<longleftrightarrow>
     map_of (dir f) p = map_of (dir f0) p \<and> map_of (ddir f) p = map_of (ddir f0) p \<and>
     (\<forall>i. map_of (dir f0) p = Some i \<or> map_of (ddir f0) p = Some i \<longrightarrow>
        map_of (idata f) i = map_of (idata f0) i \<and> map_of (iddata f) i = map_of (iddata f0) i)"

lemma untouched_refl [simp]: "untouched f f p"
  by (simp add: untouched_def)

lemma untouched_crash: "untouched f0 f p \<Longrightarrow> crash_contents f p = crash_contents f0 p"
  by (auto simp: untouched_def crash_contents_def inode_after_crash_def split: option.splits)

lemma untouched_read: "untouched f0 f p \<Longrightarrow> read_file f p = read_file f0 p"
  by (cases "map_of (dir f0) p") (auto simp: untouched_def read_file_def)

text \<open>The state in which the rename took effect: \<open>path\<close> is inode \<open>i\<close>, fsynced with \<open>data\<close>.\<close>

definition replaced :: "fs \<Rightarrow> fs \<Rightarrow> string \<Rightarrow> nat \<Rightarrow> bytes \<Rightarrow> bool" where
  "replaced f0 f p i b \<longleftrightarrow>
     map_of (dir f) p = Some i \<and> map_of (idata f) i = Some b \<and> map_of (iddata f) i = Some b \<and>
     (map_of (ddir f) p = Some i \<or>
      map_of (ddir f) p = map_of (ddir f0) p \<and>
      (\<forall>j. map_of (ddir f0) p = Some j \<longrightarrow> map_of (iddata f) j = map_of (iddata f0) j))"

lemma replaced_read: "replaced f0 f p i b \<Longrightarrow> read_file f p = Some b"
  by (simp add: replaced_def read_file_def)

lemma replaced_crash:
  "replaced f0 f p i b \<Longrightarrow> crash_contents f p \<subseteq> crash_contents f0 p \<union> {Holds b}"
  by (auto simp: replaced_def crash_contents_def inode_after_crash_def split: option.splits)

lemma untouched_create:
  "fresh_temp f0 path tmp i \<Longrightarrow> untouched f0 (fs_create f0 tmp i) path"
  by (auto simp: untouched_def fresh_temp_def fs_create_def gomap)

lemma untouched_inode:
  "fresh_temp f0 path tmp i \<Longrightarrow> untouched f0 f path \<Longrightarrow> untouched f0 (fs_write f i b) path"
  "fresh_temp f0 path tmp i \<Longrightarrow> untouched f0 f path \<Longrightarrow> untouched f0 (fs_sync f i) path"
  "fresh_temp f0 path tmp i \<Longrightarrow> untouched f0 f path \<Longrightarrow> untouched f0 (fs_remove f tmp) path"
  by (auto simp: untouched_def fresh_temp_def fs_op_defs gomap split: option.splits)

lemma replaced_rename:
  assumes "fresh_temp f0 path tmp i" "untouched f0 f path"
    and "map_of (dir f) tmp = Some i" "map_of (idata f) i = Some b" "map_of (iddata f) i = Some b"
  shows "replaced f0 (fs_rename f tmp path) path i b"
  using assms by (auto simp: replaced_def untouched_def fresh_temp_def fs_rename_def gomap)

lemma replaced_syncDir:
  "replaced f0 f p i b \<Longrightarrow> syncDir fl f = (ok, f') \<Longrightarrow>
   replaced f0 f' p i b \<and> (ok \<longrightarrow> map_of (ddir f') p = Some i)"
  by (auto simp: replaced_def syncDir_def fs_syncdir_def split: if_splits)

text \<open>
  Every state the call passes through has \<open>path\<close> untouched or replaced, in one proof for both
  the reader's and the crash's view.
\<close>

lemma writeFileAtomic_states:
  assumes "fresh_temp f0 path tmp i"
    and "writeFileAtomic fl f0 path data tmp i = (ok, f, fs)"
  shows "(\<forall>g \<in> set fs. untouched f0 g path \<or> replaced f0 g path i data) \<and> f \<in> set fs \<and>
    (ok \<longrightarrow> replaced f0 f path i data \<and> map_of (ddir f) path = Some i)"
proof -
  define f1 where "f1 = fs_create f0 tmp i"
  define f2 where "f2 = (if fl_chmod fl then f1 else case fl_write fl of
    None \<Rightarrow> fs_write f1 i data | Some n \<Rightarrow> fs_write f1 i (take n data))"
  define ok3 where "ok3 \<longleftrightarrow> \<not> fl_chmod fl \<and> fl_write fl = None \<and> \<not> fl_sync fl"
  define f3 where "f3 = (if ok3 then fs_sync f2 i else f2)"
  define ok4 where "ok4 \<longleftrightarrow> ok3 \<and> \<not> fl_close fl \<and> \<not> fl_rename fl"
  have u1: "untouched f0 f1 path" using assms(1) by (simp add: f1_def untouched_create)
  have u2: "untouched f0 f2 path"
    using u1 untouched_inode [OF assms(1)] by (simp add: f2_def split: option.splits)
  have u3: "untouched f0 f3 path"
    using u2 untouched_inode [OF assms(1)] by (simp add: f3_def)
  have u5: "untouched f0 (fs_remove f3 tmp) path"
    using u3 untouched_inode [OF assms(1)] by simp
  show ?thesis
  proof (cases "fl_create fl")
    case True
    with assms(2) show ?thesis by (auto simp: writeFileAtomic_def)
  next
    case False
    show ?thesis
    proof (cases ok4)
      case True
      then have "map_of (dir f3) tmp = Some i" "map_of (idata f3) i = Some data"
        "map_of (iddata f3) i = Some data"
        by (simp_all add: ok4_def ok3_def f3_def f2_def f1_def fs_op_defs gomap)
      with assms(1) u3 have r4: "replaced f0 (fs_rename f3 tmp path) path i data"
        by (rule replaced_rename)
      have "syncDir fl (fs_rename f3 tmp path) = (ok, f) \<and>
          fs = [f0, f1, f2, f3, fs_rename f3 tmp path, f]"
        using assms(2) False True
        by (auto simp: writeFileAtomic_def Let_def f1_def f2_def f3_def ok3_def ok4_def
            split: prod.splits option.splits)
      with r4 replaced_syncDir [OF r4] u1 u2 u3 show ?thesis by auto
    next
      case no: False
      have "ok = False \<and> f = fs_remove f3 tmp \<and> fs = [f0, f1, f2, f3, f]"
        using assms(2) False no
        by (auto simp: writeFileAtomic_def Let_def f1_def f2_def f3_def ok3_def ok4_def split: option.splits)
      with u1 u2 u3 u5 show ?thesis by auto
    qed
  qed
qed

text \<open>
  What a caller of \<open>writeFileAtomic\<close> can observe, for the components that keep a file: the call
  returned nil with the new content in place, or it failed before the rename (the old content
  stays), or it failed after it (the new content is there, not yet known to be durable).
\<close>

datatype write_outcome = Wrote | FailedOld | FailedNew

definition after_write :: "write_outcome \<Rightarrow> 'a \<Rightarrow> 'a \<Rightarrow> 'a" where
  "after_write w old new = (if w = FailedOld then old else new)"

lemma after_write_simps [simp]:
  "after_write Wrote old new = new"
  "after_write FailedOld old new = old"
  "after_write FailedNew old new = new"
  by (simp_all add: after_write_def)

lemma writeFileAtomic_outcome:
  assumes "fresh_temp f0 path tmp i"
    and "writeFileAtomic fl f0 path data tmp i = (ok, f, fs)"
  shows "\<exists>w. ok = (w = Wrote) \<and> read_file f path = after_write w (read_file f0 path) (Some data)"
proof -
  from writeFileAtomic_states [OF assms]
  consider "untouched f0 f path" "\<not> ok" | "replaced f0 f path i data" by blast
  then show ?thesis
  proof cases
    case 1
    then show ?thesis
      by (intro exI [of _ FailedOld]) (simp add: untouched_read)
  next
    case 2
    then show ?thesis
      by (intro exI [of _ "if ok then Wrote else FailedNew"]) (simp add: replaced_read)
  qed
qed

lemma writeFileAtomic_no_temp:
  assumes "fresh_temp f0 path tmp i"
    and "writeFileAtomic fl f0 path data tmp i = (ok, f, fs)"
  shows "map_of (dir f) tmp = None"
proof (cases "map_of (dir f) tmp")
  case (Some j)
  with assms show ?thesis
    by (auto simp: wfa_defs fresh_temp_def gomap split: if_splits option.splits)
qed


definition sample_fs :: fs where
  "sample_fs = \<lparr>dir = [(''epoch'', 1)], ddir = [(''epoch'', 1)], idata = [(1, ''7'')], iddata = [(1, ''7'')]\<rparr>"

definition no_faults :: faults where
  "no_faults = \<lparr>fl_create = False, fl_chmod = False, fl_write = None, fl_sync = False,
     fl_close = False, fl_rename = False, fl_opendir = False, fl_syncdir = False, fl_closedir = False\<rparr>"


end
