(* ===== verification/Fence.thy ===== *)
theory Fence
  imports Writefile
begin

text \<open>
  \<open>pkg/core/fence.go\<close>: the fence that names one incarnation of a fiber, its text form and its
  order, and the epoch store that makes the epoch half of it grow across restarts.
\<close>

record Fence =
  fGrantUID :: string
  fEpoch :: u64
  fSeq :: u64

definition Fence_String :: "Fence \<Rightarrow> string" where
  "Fence_String f =
     fGrantUID f @ CHR ''/'' # FormatUint (fEpoch f) @ CHR ''/'' # FormatUint (fSeq f)"

definition ParseFence :: "string \<Rightarrow> goerr + Fence" where
  "ParseFence s =
     (let bad = (\<lambda>why. EFmt [PStr (''fence '' @ go_quote s @ '': '' @ why)]) in
      case LastIndexByte s (CHR ''/'') of
        None \<Rightarrow> Inl (bad ''want grant/epoch/seq'')
      | Some i \<Rightarrow>
          (case LastIndexByte (take i s) (CHR ''/'') of
             None \<Rightarrow> Inl (bad ''want grant/epoch/seq'')
           | Some j \<Rightarrow>
               (case ParseUint (drop (Suc j) (take i s)) of
                  Inl _ \<Rightarrow> Inl (bad ''epoch'')
                | Inr epoch \<Rightarrow>
                    (case ParseUint (drop (Suc i) s) of
                       Inl _ \<Rightarrow> Inl (bad ''seq'')
                     | Inr sq \<Rightarrow>
                         if take j s = [] then Inl (bad ''empty grant'')
                         else Inr \<lparr>fGrantUID = take j s, fEpoch = epoch, fSeq = sq\<rparr>))))"

definition Newer :: "Fence \<Rightarrow> Fence \<Rightarrow> bool" where
  "Newer f g =
     (if fGrantUID f \<noteq> fGrantUID g then False
      else if fEpoch f \<noteq> fEpoch g then fEpoch f > fEpoch g
      else fSeq f > fSeq g)"

subsection \<open>The text form\<close>

lemma ParseFence_split:
  assumes "CHR ''/'' \<notin> set e" "CHR ''/'' \<notin> set q"
  shows "ParseFence (uid @ CHR ''/'' # e @ CHR ''/'' # q) =
    (case ParseUint e of
       Inl _ \<Rightarrow> Inl (EFmt [PStr (''fence '' @ go_quote (uid @ CHR ''/'' # e @ CHR ''/'' # q) @ '': epoch'')])
     | Inr ep \<Rightarrow>
         (case ParseUint q of
            Inl _ \<Rightarrow> Inl (EFmt [PStr (''fence '' @ go_quote (uid @ CHR ''/'' # e @ CHR ''/'' # q) @ '': seq'')])
          | Inr sq \<Rightarrow>
              if uid = [] then
                Inl (EFmt [PStr (''fence '' @ go_quote (uid @ CHR ''/'' # e @ CHR ''/'' # q) @ '': empty grant'')])
              else Inr \<lparr>fGrantUID = uid, fEpoch = ep, fSeq = sq\<rparr>))"
proof -
  let ?s = "uid @ CHR ''/'' # e @ CHR ''/'' # q"
  have s: "?s = (uid @ CHR ''/'' # e) @ CHR ''/'' # q" by simp
  have i: "LastIndexByte ?s (CHR ''/'') = Some (length (uid @ CHR ''/'' # e))"
    unfolding s by (rule LastIndexByte_append [OF assms(2)])
  have ti: "take (length (uid @ CHR ''/'' # e)) ?s = uid @ CHR ''/'' # e"
    and di: "drop (Suc (length (uid @ CHR ''/'' # e))) ?s = q"
    by simp_all
  have j: "LastIndexByte (uid @ CHR ''/'' # e) (CHR ''/'') = Some (length uid)"
    by (rule LastIndexByte_append [OF assms(1)])
  show ?thesis
    unfolding ParseFence_def Let_def i option.case ti di j
    by (simp split: sum.splits)
qed

lemma ParseFence_InrD:
  assumes "ParseFence s = Inr f"
  shows "\<exists>e q. s = fGrantUID f @ CHR ''/'' # e @ CHR ''/'' # q \<and>
    CHR ''/'' \<notin> set e \<and> CHR ''/'' \<notin> set q \<and>
    ParseUint e = Inr (fEpoch f) \<and> ParseUint q = Inr (fSeq f) \<and> fGrantUID f \<noteq> []"
proof -
  from assms obtain i where i: "LastIndexByte s (CHR ''/'') = Some i"
    by (auto simp: ParseFence_def Let_def split: option.splits)
  with assms obtain j where j: "LastIndexByte (take i s) (CHR ''/'') = Some j"
    by (auto simp: ParseFence_def Let_def split: option.splits)
  let ?uid = "take j s" and ?e = "drop (Suc j) (take i s)" and ?q = "drop (Suc i) s"
  from LastIndexByte_SomeD [OF i] have si: "s = take i s @ CHR ''/'' # ?q" "CHR ''/'' \<notin> set ?q" "i < length s"
    by auto
  from LastIndexByte_SomeD [OF j] have tj: "take i s = take j (take i s) @ CHR ''/'' # ?e"
    "CHR ''/'' \<notin> set ?e" "j < i"
    using si(3) by auto
  have uid: "take j (take i s) = ?uid" using tj(3) by (simp add: min_def)
  have s: "s = ?uid @ CHR ''/'' # ?e @ CHR ''/'' # ?q"
    using si(1) tj(1) uid by (metis append_Cons append_assoc)
  have "ParseFence s = ParseFence (?uid @ CHR ''/'' # ?e @ CHR ''/'' # ?q)"
    using s by metis
  with assms ParseFence_split [OF tj(2) si(2), of ?uid]
  have "ParseUint ?e = Inr (fEpoch f) \<and> ParseUint ?q = Inr (fSeq f) \<and> fGrantUID f = ?uid \<and> ?uid \<noteq> []"
    by (auto split: sum.splits if_splits)
  with s tj(2) si(2) show ?thesis by metis
qed

lemma ParseFence_String:
  "ParseFence (Fence_String f) =
     (if fGrantUID f = []
      then Inl (EFmt [PStr (''fence '' @ go_quote (Fence_String f) @ '': empty grant'')])
      else Inr f)"
  by (simp add: Fence_String_def ParseFence_split)

text \<open>C15. \<open>ParseFence\<close> is the inverse of \<open>String\<close>: it accepts exactly the strings
  grant/epoch/seq with a non-empty grant whose last two parts are decimal uint64s, and it
  returns their triple; the text of a fence with a grant reads back as that fence.\<close>

theorem ParseFence_exact:
  "(ParseFence s = Inr f \<longleftrightarrow>
      (\<exists>e q. s = fGrantUID f @ CHR ''/'' # e @ CHR ''/'' # q \<and>
         CHR ''/'' \<notin> set e \<and> CHR ''/'' \<notin> set q \<and>
         ParseUint e = Inr (fEpoch f) \<and> ParseUint q = Inr (fSeq f) \<and> fGrantUID f \<noteq> []))
   \<and> (fGrantUID f \<noteq> [] \<longrightarrow> ParseFence (Fence_String f) = Inr f)"
  by (auto simp: ParseFence_split ParseFence_String dest: ParseFence_InrD)

theorem ParseFence_exact_witness:
  "ParseFence ''a/b/3/14'' = Inr \<lparr>fGrantUID = ''a/b'', fEpoch = 3, fSeq = 14\<rparr> \<and>
   ParseFence (Fence_String \<lparr>fGrantUID = ''a/b'', fEpoch = 3, fSeq = 14\<rparr>) =
     Inr \<lparr>fGrantUID = ''a/b'', fEpoch = 3, fSeq = 14\<rparr>"
proof -
  have p: "ParseUint ''3'' = Inr 3" "ParseUint ''14'' = Inr 14"
    by (simp_all add: ParseUint_def is_digit_def digit_val_def parse_cutoff_def max_uint64_def)
  show ?thesis
    using ParseFence_exact [of "''a/b/3/14''" "\<lparr>fGrantUID = ''a/b'', fEpoch = 3, fSeq = 14\<rparr>"]
      ParseFence_exact [of _ "\<lparr>fGrantUID = ''a/b'', fEpoch = 3, fSeq = 14\<rparr>"] p
    by (auto intro: exI [of _ "''3''"] exI [of _ "''14''"])
qed

lemma Fence_String_inject:
  "fGrantUID f \<noteq> [] \<Longrightarrow> Fence_String f = Fence_String g \<Longrightarrow> f = g"
  by (metis ParseFence_String sum.inject(2) sum.distinct(1))

lemma Fence_String_inj: "Fence_String f = Fence_String g \<Longrightarrow> f = g"
proof -
  assume eq: "Fence_String f = Fence_String g"
  have a: "Fence_String (h\<lparr>fGrantUID := CHR ''a'' # fGrantUID h\<rparr>) = CHR ''a'' # Fence_String h" for h
    by (simp add: Fence_String_def)
  have "f\<lparr>fGrantUID := CHR ''a'' # fGrantUID f\<rparr> = g\<lparr>fGrantUID := CHR ''a'' # fGrantUID g\<rparr>"
    by (rule Fence_String_inject) (simp_all add: a eq)
  from arg_cong [OF this, of fGrantUID] arg_cong [OF this, of fEpoch] arg_cong [OF this, of fSeq]
  show "f = g" by simp
qed

subsection \<open>The order\<close>

lemma Newer_irrefl: "\<not> Newer f f"
  by (simp add: Newer_def)

lemma Newer_trans: "Newer f g \<Longrightarrow> Newer g h \<Longrightarrow> Newer f h"
  by (auto simp: Newer_def split: if_splits)

lemma Newer_total:
  "fGrantUID f = fGrantUID g \<Longrightarrow> f \<noteq> g \<Longrightarrow> Newer f g \<or> Newer g f"
  by (cases f; cases g) (auto simp: Newer_def)

lemma Newer_same_grant: "Newer f g \<Longrightarrow> fGrantUID f = fGrantUID g"
  by (auto simp: Newer_def split: if_splits)

lemma Newer_later_epoch:
  "fGrantUID f = fGrantUID g \<Longrightarrow> fEpoch f > fEpoch g \<Longrightarrow> Newer f g"
  by (auto simp: Newer_def)

subsection \<open>The epoch store\<close>

text \<open>
  What \<open>os.ReadFile\<close> answers for the epoch file: it does not exist, it cannot be read, or its
  bytes.
\<close>

datatype file_state = FileAbsent | FileUnreadable | FileData bytes

definition EpochStore_read :: "file_state \<Rightarrow> u64 option" where
  "EpochStore_read f =
     (case f of
        FileAbsent \<Rightarrow> Some 0
      | FileUnreadable \<Rightarrow> None
      | FileData b \<Rightarrow> (case ParseUint (TrimSpace b) of Inl _ \<Rightarrow> None | Inr v \<Rightarrow> Some v))"

definition EpochStore_write :: "write_outcome \<Rightarrow> file_state \<Rightarrow> u64 \<Rightarrow> file_state" where
  "EpochStore_write w f v = after_write w f (FileData (FormatUint v))"

text \<open>
  \<open>OpenEpochStore\<close>: the file afterwards and the store's epoch, \<open>None\<close> when it returned an error.
  \<open>unix_now\<close> is \<open>time.Now().Unix()\<close>.
\<close>

definition OpenEpochStore :: "int \<Rightarrow> write_outcome \<Rightarrow> file_state \<Rightarrow> file_state \<times> u64 option" where
  "OpenEpochStore unix_now w f =
     (let nxt = (case EpochStore_read f of Some prev \<Rightarrow> prev + 1 | None \<Rightarrow> of_int unix_now)
      in (EpochStore_write w f nxt, if w = Wrote then Some nxt else None))"

text \<open>\<open>Bump\<close>: the file, the store's epoch and the epoch returned, \<open>None\<close> on an error.\<close>

definition EpochStore_Bump :: "write_outcome \<Rightarrow> file_state \<Rightarrow> u64 \<Rightarrow> file_state \<times> u64 \<times> u64 option" where
  "EpochStore_Bump w f cur =
     (let nxt = cur + 1 in
      (EpochStore_write w f nxt, if w = Wrote then nxt else cur, if w = Wrote then Some nxt else None))"

text \<open>
  A home's life as the epoch store sees it: it starts (again), or bumps in place. The issued
  epochs, newest first, are those a process ran under.
\<close>

datatype epoch_event = Restart int write_outcome | Bump write_outcome

record epoch_sys =
  es_file :: file_state
  es_cur :: "u64 option"
  es_issued :: "u64 list"

definition epoch_init :: epoch_sys where
  "epoch_init = \<lparr>es_file = FileAbsent, es_cur = None, es_issued = []\<rparr>"

fun epoch_step :: "epoch_sys \<Rightarrow> epoch_event \<Rightarrow> epoch_sys" where
  "epoch_step s (Restart now w) =
     (let (f, r) = OpenEpochStore now w (es_file s) in
      (case r of
         None \<Rightarrow> s\<lparr>es_file := f, es_cur := None\<rparr>
       | Some e \<Rightarrow> \<lparr>es_file = f, es_cur = Some e, es_issued = e # es_issued s\<rparr>))"
| "epoch_step s (Bump w) =
     (case es_cur s of
        None \<Rightarrow> s
      | Some cur \<Rightarrow>
          (let (f, cur', r) = EpochStore_Bump w (es_file s) cur in
           (case r of
              None \<Rightarrow> s\<lparr>es_file := f\<rparr>
            | Some e \<Rightarrow> \<lparr>es_file = f, es_cur = Some cur', es_issued = e # es_issued s\<rparr>)))"

definition epoch_run :: "epoch_event list \<Rightarrow> epoch_sys" where
  "epoch_run evs = fold (\<lambda>e s. epoch_step s e) evs epoch_init"

text \<open>
  The file always holds a number at least as large as every epoch issued, and at most one
  larger than the running one. After \<open>n\<close> events it is at most \<open>n\<close>, so nothing wrapped around.
\<close>

definition epoch_inv :: "nat \<Rightarrow> epoch_sys \<Rightarrow> bool" where
  "epoch_inv n s \<longleftrightarrow>
     (\<exists>v. EpochStore_read (es_file s) = Some v \<and> unat v \<le> n \<and>
        (\<forall>e \<in> set (es_issued s). e \<le> v) \<and> sorted_wrt (>) (es_issued s) \<and>
        (\<forall>c. es_cur s = Some c \<longrightarrow>
           c \<le> v \<and> unat v \<le> unat c + 1 \<and> (\<exists>es. es_issued s = c # es)))"

lemma EpochStore_read_own [simp]: "EpochStore_read (FileData (FormatUint v)) = Some v"
  by (simp add: EpochStore_read_def TrimSpace_digits FormatUint_digits)

lemma epoch_inv_init: "epoch_inv 0 epoch_init"
  by (simp add: epoch_inv_def epoch_init_def EpochStore_read_def)

lemma u64_succ: "unat (v :: u64) < 2 ^ 64 - 1 \<Longrightarrow> unat (v + 1) = unat v + 1"
  by (simp add: unat_word_ariths)

lemma u64_less_succ: "unat (v :: u64) < 2 ^ 64 - 1 \<Longrightarrow> e \<le> v \<Longrightarrow> e < v + 1"
  by (simp add: word_less_nat_alt word_le_nat_alt u64_succ)

lemma epoch_inv_restart:
  assumes "epoch_inv n s" and "n < 2 ^ 64 - 1"
  shows "epoch_inv (Suc n) (epoch_step s (Restart now w))"
proof -
  from assms(1) obtain v where v: "EpochStore_read (es_file s) = Some v" "unat v \<le> n"
    "\<forall>e \<in> set (es_issued s). e \<le> v" "sorted_wrt (>) (es_issued s)"
    by (auto simp: epoch_inv_def)
  then have "unat v < 2 ^ 64 - 1" using assms(2) by linarith
  then have up: "unat (v + 1) = unat v + 1" "\<And>e. e \<le> v \<Longrightarrow> e < v + 1"
    by (rule u64_succ, rule u64_less_succ)
  have le: "e \<le> v + 1" if "e \<le> v" for e using up(2) [OF that] by simp
  show ?thesis
    using v up le
    by (cases w) (auto simp: epoch_inv_def OpenEpochStore_def EpochStore_write_def Let_def)
qed

lemma epoch_inv_bump:
  assumes "epoch_inv n s" and "n < 2 ^ 64 - 1"
  shows "epoch_inv (Suc n) (epoch_step s (Bump w))"
proof (cases "es_cur s")
  case None
  with assms(1) show ?thesis by (auto simp: epoch_inv_def)
next
  case (Some c)
  with assms(1) obtain v es where v: "EpochStore_read (es_file s) = Some v" "unat v \<le> n"
    "\<forall>e \<in> set (es_issued s). e \<le> v" "sorted_wrt (>) (es_issued s)"
    "c \<le> v" "unat v \<le> unat c + 1" "es_issued s = c # es"
    by (auto simp: epoch_inv_def)
  then have "unat c < 2 ^ 64 - 1" using assms(2) by (simp add: word_le_nat_alt)
  then have up: "unat (c + 1) = unat c + 1" "\<And>e. e \<le> c \<Longrightarrow> e < c + 1"
    by (rule u64_succ, rule u64_less_succ)
  from v have es: "e < c" if "e \<in> set es" for e using that by auto
  have gt: "e < c + 1" if "e \<in> set (es_issued s)" for e
    using that es up(2) v(7) by (auto simp: less_imp_le)
  have cn: "unat (c + 1) \<le> Suc n" using up(1) v(2,5) by (simp add: word_le_nat_alt)
  show ?thesis
    using Some v up gt cn
    by (cases w) (auto simp: epoch_inv_def EpochStore_Bump_def EpochStore_write_def Let_def less_imp_le)
qed

lemma epoch_inv_run:
  "length evs < 2 ^ 64 \<Longrightarrow> epoch_inv (length evs) (epoch_run evs)"
proof (induction evs rule: rev_induct)
  case Nil
  then show ?case by (simp add: epoch_run_def epoch_inv_init)
next
  case (snoc e evs)
  then have inv: "epoch_inv (length evs) (epoch_run evs)" and n: "length evs < 2 ^ 64 - 1" by auto
  show ?case
    using epoch_inv_restart [OF inv n] epoch_inv_bump [OF inv n]
    by (cases e) (simp_all add: epoch_run_def)
qed

text \<open>C14. Whatever the writes of the epoch file do (succeed, fail before or after the rename), each
  epoch a home runs under, at a start or after a bump, is larger than every epoch it ran under
  before, in every life of fewer than 2^64 starts and bumps that begins without an epoch
  file.\<close>

theorem epochs_strictly_increase:
  assumes "length evs < 2 ^ 64"
  shows "sorted_wrt (>) (es_issued (epoch_run evs))"
  using epoch_inv_run [OF assms] by (auto simp: epoch_inv_def)

theorem epochs_strictly_increase_witness:
  "es_issued (epoch_run [Restart 0 Wrote, Bump FailedNew, Bump Wrote, Restart 0 Wrote]) = [3, 2, 1]
   \<and> sorted_wrt (>) (es_issued (epoch_run [Restart 0 Wrote, Bump FailedNew, Bump Wrote, Restart 0 Wrote]))"
proof
  show "sorted_wrt (>) (es_issued (epoch_run [Restart 0 Wrote, Bump FailedNew, Bump Wrote, Restart 0 Wrote]))"
    by (rule epochs_strictly_increase) simp
  have r0: "EpochStore_read FileAbsent = Some 0" by (simp add: EpochStore_read_def)
  show "es_issued (epoch_run [Restart 0 Wrote, Bump FailedNew, Bump Wrote, Restart 0 Wrote]) = [3, 2, 1]"
    by (simp add: epoch_run_def epoch_init_def OpenEpochStore_def EpochStore_Bump_def
        EpochStore_write_def r0)
qed



end
