(* ===== verification/Grants.thy ===== *)
theory Grants
  imports Fence
begin

text \<open>
  \<open>pkg/core/grant.go\<close>, \<open>pkg/core/tier_parse.go\<close> and the parts of \<open>pkg/core/runtime.go\<close> and
  \<open>pkg/core/core.go\<close> that are functions of a grant: the grant record and its enums, their names,
  the lease, the session domain, the device rule, and what a re-delivery may change.

  The PSI watermarks are Go \<open>float64\<close>s that the code only compares, so they are \<open>real\<close>s here; NaN
  and the infinities are not modelled.
\<close>

datatype Durability = DurabilityUnspecified | BestEffort | Sync

datatype Isolation = IsolationUnspecified | Untrusted | Trusted

datatype EndpointMode = EndpointDirect | EndpointHandoff

datatype Tier = TierUnspecified | TierBasic | TierWarm | TierCheckpoint | TierSnapshot

primrec tier_rank :: "Tier \<Rightarrow> nat" where
  "tier_rank TierUnspecified = 0"
| "tier_rank TierBasic = 1"
| "tier_rank TierWarm = 2"
| "tier_rank TierCheckpoint = 3"
| "tier_rank TierSnapshot = 4"

instantiation Tier :: linorder
begin

definition less_eq_Tier :: "Tier \<Rightarrow> Tier \<Rightarrow> bool" where
  "less_eq_Tier a b \<longleftrightarrow> tier_rank a \<le> tier_rank b"

definition less_Tier :: "Tier \<Rightarrow> Tier \<Rightarrow> bool" where
  "less_Tier a b \<longleftrightarrow> tier_rank a < tier_rank b"

instance
proof
  fix a b c :: Tier
  show "a < b \<longleftrightarrow> a \<le> b \<and> \<not> b \<le> a" by (auto simp: less_eq_Tier_def less_Tier_def)
  show "a \<le> a" by (simp add: less_eq_Tier_def)
  show "a \<le> b \<Longrightarrow> b \<le> c \<Longrightarrow> a \<le> c" by (simp add: less_eq_Tier_def)
  show "a \<le> b \<Longrightarrow> b \<le> a \<Longrightarrow> a = b" by (cases a; cases b) (simp_all add: less_eq_Tier_def)
  show "a \<le> b \<or> b \<le> a" by (auto simp: less_eq_Tier_def)
qed

end

lemmas tier_order = less_eq_Tier_def less_Tier_def

definition Isolation_Untrusted :: "Isolation \<Rightarrow> bool" where
  "Isolation_Untrusted i \<longleftrightarrow> i \<noteq> Trusted"

fun Isolation_String :: "Isolation \<Rightarrow> string" where
  "Isolation_String Untrusted = ''UNTRUSTED''"
| "Isolation_String Trusted = ''TRUSTED''"
| "Isolation_String IsolationUnspecified = ''ISOLATION_UNSPECIFIED''"

fun EndpointMode_String :: "EndpointMode \<Rightarrow> string" where
  "EndpointMode_String EndpointHandoff = ''HANDOFF''"
| "EndpointMode_String EndpointDirect = ''DIRECT''"

fun Tier_String :: "Tier \<Rightarrow> string" where
  "Tier_String TierBasic = ''FIBER_BASIC''"
| "Tier_String TierWarm = ''FIBER_WARM''"
| "Tier_String TierCheckpoint = ''FIBER_CHECKPOINT''"
| "Tier_String TierSnapshot = ''FIBER_SNAPSHOT''"
| "Tier_String TierUnspecified = ''TIER_UNSPECIFIED''"

text \<open>
  \<open>strings.ToUpper\<close> as far as a comparison with an ASCII name can see it: ASCII letters are
  raised, the two other runes whose upper case is ASCII (dotless i and long s) become I and S,
  and every other byte stays.
\<close>

fun ToUpper :: "string \<Rightarrow> string" where
  "ToUpper [] = []"
| "ToUpper [c] =
     (if 97 \<le> (of_char c :: nat) \<and> (of_char c :: nat) \<le> 122 then [char_of (of_char c - 32 :: nat)] else [c])"
| "ToUpper (c # d # s) =
     (if c = CHR 0xC4 \<and> d = CHR 0xB1 then CHR ''I'' # ToUpper s
      else if c = CHR 0xC5 \<and> d = CHR 0xBF then CHR ''S'' # ToUpper s
      else (if 97 \<le> (of_char c :: nat) \<and> (of_char c :: nat) \<le> 122
            then char_of (of_char c - 32 :: nat) else c) # ToUpper (d # s))"

definition TrimPrefix :: "string \<Rightarrow> string \<Rightarrow> string" where
  "TrimPrefix s p = (if prefix p s then drop (length p) s else s)"

definition ParseIsolation :: "string \<Rightarrow> goerr + Isolation" where
  "ParseIsolation s =
     (let u = ToUpper s in
      if u = ''UNTRUSTED'' then Inr Untrusted
      else if u = ''TRUSTED'' then Inr Trusted
      else if u = [] \<or> u = ''ISOLATION_UNSPECIFIED'' \<or> u = ''UNSPECIFIED'' then Inr IsolationUnspecified
      else Inl (EFmt [PStr (''unknown isolation '' @ go_quote s)]))"

definition ParseEndpointMode :: "string \<Rightarrow> goerr + EndpointMode" where
  "ParseEndpointMode s =
     (let u = ToUpper s in
      if u = [] \<or> u = ''DIRECT'' then Inr EndpointDirect
      else if u = ''HANDOFF'' then Inr EndpointHandoff
      else Inl (EFmt [PStr (''unknown endpoint mode '' @ go_quote s)]))"

definition ParseTier :: "string \<Rightarrow> goerr + Tier" where
  "ParseTier s =
     (let u = ToUpper (TrimPrefix (ToUpper s) ''FIBER_'') in
      if u = ''BASIC'' then Inr TierBasic
      else if u = ''WARM'' then Inr TierWarm
      else if u = ''CHECKPOINT'' then Inr TierCheckpoint
      else if u = ''SNAPSHOT'' then Inr TierSnapshot
      else if u = [] \<or> u = ''TIER_UNSPECIFIED'' \<or> u = ''UNSPECIFIED'' then Inr TierUnspecified
      else Inl (EFmt [PStr (''unknown tier '' @ go_quote s)]))"

record Policy =
  pDurability :: Durability
  pSessionClass :: string
  pAuditClass :: string
  pPSIShed :: real
  pPSIPark :: real
  pIsolation :: Isolation
  pEndpointMode :: EndpointMode

record DeviceBudget =
  dbBytes :: u64
  dbClass :: string

record Grant =
  gUID :: string
  gIssuer :: string
  gAudience :: string
  gTemplateDigest :: string
  gTenant :: string
  gFiberMax :: int
  gFiberWarm :: int
  gWBudgetBytes :: u64
  gMinTier :: Tier
  gLeaseExpiry :: gotime
  gPolicy :: Policy
  gDeviceBudget :: DeviceBudget
  gDiskBudgetBytes :: u64
  gCallerThumbprint :: string
  gToken :: string

definition Expired :: "Grant \<Rightarrow> gotime \<Rightarrow> bool" where
  "Expired g now \<longleftrightarrow> \<not> IsZero (gLeaseExpiry g) \<and> \<not> now < gLeaseExpiry g"

definition SessionDomain :: "Grant \<Rightarrow> goerr + string" where
  "SessionDomain g =
     (if gTenant g = [] then Inl (wrapped ErrNoTenant (''grant '' @ gUID g))
      else if pSessionClass (gPolicy g) \<noteq> [] then
        Inr (gTenant g @ CHR ''/'' # pSessionClass (gPolicy g))
      else Inr (gTenant g @ CHR ''/'' # gTemplateDigest g))"

definition DeviceFits :: "string \<Rightarrow> string \<Rightarrow> u64 \<Rightarrow> goerr option" where
  "DeviceFits asked cls capacity =
     (if capacity = 0 then
        Some (wrapped ErrNeedsDevice (''grant asks class '' @ go_quote asked
          @ '', the engine declares class '' @ go_quote cls @ '' with no capacity''))
      else if asked \<noteq> [] \<and> asked \<noteq> cls then
        Some (wrapped ErrNeedsDevice (''grant asks class '' @ go_quote asked
          @ '', the engine declares class '' @ go_quote cls))
      else None)"

definition renewsLease :: "Grant \<Rightarrow> Grant \<Rightarrow> bool" where
  "renewsLease held g =
     (if IsZero (gLeaseExpiry held) then False
      else IsZero (gLeaseExpiry g) \<or> gLeaseExpiry held < gLeaseExpiry g)"

definition changesFixedFields :: "Grant \<Rightarrow> Grant \<Rightarrow> bool" where
  "changesFixedFields held g \<longleftrightarrow>
     g\<lparr>gLeaseExpiry := gLeaseExpiry held, gCallerThumbprint := gCallerThumbprint held,
       gToken := gToken held\<rparr> \<noteq> held"

subsection \<open>Properties\<close>

text \<open>C19. The name of every tier, isolation class and endpoint mode parses back to it.\<close>

theorem enum_names_round_trip:
  "ParseTier (Tier_String t) = Inr t \<and> ParseIsolation (Isolation_String i) = Inr i \<and>
   ParseEndpointMode (EndpointMode_String m) = Inr m"
proof (intro conjI)
  show "ParseTier (Tier_String t) = Inr t"
    by (cases t) (simp_all add: ParseTier_def TrimPrefix_def prefix_def)
  show "ParseIsolation (Isolation_String i) = Inr i"
    by (cases i) (simp_all add: ParseIsolation_def)
  show "ParseEndpointMode (EndpointMode_String m) = Inr m"
    by (cases m) (simp_all add: ParseEndpointMode_def)
qed

lemma first_slash_split:
  "CHR ''/'' \<notin> set a \<Longrightarrow> CHR ''/'' \<notin> set b \<Longrightarrow>
   a @ CHR ''/'' # x = b @ CHR ''/'' # y \<longleftrightarrow> a = b \<and> x = y"
proof (induction a arbitrary: b)
  case Nil
  then show ?case by (cases b) auto
next
  case (Cons c a)
  then show ?case by (cases b) auto
qed

lemma changesFixedFields_self [simp]: "\<not> changesFixedFields g g"
  by (simp add: changesFixedFields_def)

lemma fixed_fields_kept:
  assumes "\<not> changesFixedFields held g"
  shows "gUID g = gUID held" "gTenant g = gTenant held" "gFiberMax g = gFiberMax held"
    "gFiberWarm g = gFiberWarm held" "gTemplateDigest g = gTemplateDigest held"
    "gWBudgetBytes g = gWBudgetBytes held" "gMinTier g = gMinTier held"
    "gPolicy g = gPolicy held" "gDiskBudgetBytes g = gDiskBudgetBytes held"
  using assms by (cases held; cases g; simp add: changesFixedFields_def)+

end
