(* ===== verification/Audit_Spool.thy ===== *)
theory Audit_Spool
  imports Grants
begin

text \<open>
  \<open>pkg/core/audit.go\<close>: the hash-chained spool, its writer and \<open>VerifySpool\<close>.

  A file is the list of its lines as the JSON decoder sees them (\<open>Blank\<close> for one that trims to
  nothing, \<open>Bad\<close> for one that does not parse, \<open>Rec\<close> for a record) and whether it is empty or ends
  in a newline. A write that fails may leave part of its bytes behind; \<open>tear\<close> says which: nothing,
  the newline that a write after a failure starts with, that and a proper part of the record
  (never a whole JSON object, so a \<open>Bad\<close> line), or all of it but the final newline.

  SHA-256 over the record's JSON is the parameter \<open>H\<close>, an Ed25519 signature in base64 the
  function \<open>cpSign\<close> of a \<open>Checkpoints\<close>, and a trusted public key the check it makes of a payload
  and a signature.
\<close>

section \<open>Data\<close>

record SeqRange =
  srFrom :: u64
  srTo :: u64

record AuditRecord =
  arSeq :: u64
  arTime :: gotime
  arEvent :: string
  arFence :: Fence
  arSession :: string
  arFiberID :: string
  arDetail :: string
  arScope :: "(string, string) gomap"
  arLost :: "SeqRange option"
  arSigner :: string
  arSignature :: string
  arPrevHash :: string
  arHash :: string

definition no_fence :: Fence where
  "no_fence = \<lparr>fGrantUID = [], fEpoch = 0, fSeq = 0\<rparr>"

text \<open>The record literal \<open>AuditRecord{Event: e, Detail: d}\<close>.\<close>

definition audit_record :: "string \<Rightarrow> string \<Rightarrow> AuditRecord" where
  "audit_record e d =
     \<lparr>arSeq = 0, arTime = 0, arEvent = e, arFence = no_fence, arSession = [], arFiberID = [], arDetail = d,
      arScope = [], arLost = None, arSigner = [], arSignature = [], arPrevHash = [], arHash = []\<rparr>"

definition EventGap :: string where
  "EventGap = ''gap''"

definition EventCheckpoint :: string where
  "EventCheckpoint = ''checkpoint''"

definition DefaultCheckpointEvery :: int where
  "DefaultCheckpointEvery = 256"

record Checkpoints =
  cpKeyID :: string
  cpSign :: "bytes \<Rightarrow> string"
  cpEvery :: int

datatype line = Blank | Bad | Rec AuditRecord

record spool_file =
  sfLines :: "line list"
  sfNewline :: bool

definition empty_file :: spool_file where
  "empty_file = \<lparr>sfLines = [], sfNewline = True\<rparr>"

record Spool =
  spFile :: spool_file
  spSeq :: u64
  spPrev :: string
  spNewline :: bool
  spLost :: "SeqRange option"
  spLostErr :: goerr
  spCp :: "Checkpoints option"
  spSince :: int
  spWritten :: u64
  spClosed :: bool

section \<open>Writing\<close>

definition recordHash :: "(AuditRecord \<Rightarrow> string) \<Rightarrow> AuditRecord \<Rightarrow> string" where
  "recordHash H rec = H (rec\<lparr>arHash := []\<rparr>)"

definition checkpointPayload :: "u64 \<Rightarrow> string \<Rightarrow> bytes" where
  "checkpointPayload sq hash = ''fiberd-audit-v1'' @ [CHR 0x0A] @ FormatUint sq @ '' '' @ hash"

datatype tear = TearNone | TearNewline | TearPart | TearAll

datatype disk = DiskOk | DiskErr goerr tear

text \<open>What a write leaves in the file. \<open>start\<close> is whether it starts with a newline of its own.\<close>

definition file_newline :: "spool_file \<Rightarrow> spool_file" where
  "file_newline f =
     (if sfNewline f then f\<lparr>sfLines := sfLines f @ [Blank]\<rparr> else f\<lparr>sfNewline := True\<rparr>)"

definition file_put :: "spool_file \<Rightarrow> line \<Rightarrow> bool \<Rightarrow> spool_file" where
  "file_put f x ends =
     (if sfNewline f then \<lparr>sfLines = sfLines f @ [x], sfNewline = ends\<rparr>
      else \<lparr>sfLines = butlast (sfLines f) @ [Bad], sfNewline = ends\<rparr>)"

definition file_write :: "spool_file \<Rightarrow> bool \<Rightarrow> AuditRecord \<Rightarrow> disk \<Rightarrow> spool_file" where
  "file_write f start rec d =
     (let g = (if start then file_newline f else f) in
      case d of
        DiskOk \<Rightarrow> file_put g (Rec rec) True
      | DiskErr e t \<Rightarrow>
          (case t of
             TearNone \<Rightarrow> f
           | TearNewline \<Rightarrow> g
           | TearPart \<Rightarrow> file_put g Bad False
           | TearAll \<Rightarrow> file_put g (Rec rec) False))"

text \<open>The record as \<open>write\<close> numbers, stamps and chains it.\<close>

definition sealed :: "(AuditRecord \<Rightarrow> string) \<Rightarrow> gotime \<Rightarrow> Spool \<Rightarrow> AuditRecord \<Rightarrow> AuditRecord" where
  "sealed H now s rec =
     (let r1 = rec\<lparr>arSeq := spSeq s + 1, arTime := (if IsZero (arTime rec) then now else arTime rec),
                   arPrevHash := spPrev s, arHash := []\<rparr>
      in r1\<lparr>arHash := recordHash H r1\<rparr>)"

definition Spool_write ::
  "(AuditRecord \<Rightarrow> string) \<Rightarrow> gotime \<Rightarrow> Spool \<Rightarrow> AuditRecord \<Rightarrow> disk \<Rightarrow> Spool \<times> goerr option" where
  "Spool_write H now s rec d =
     (let sq = spSeq s + 1;
          r2 = sealed H now s rec;
          s1 = s\<lparr>spSeq := sq, spFile := file_write (spFile s) (spNewline s) r2 d\<rparr>
      in case d of
           DiskErr e t \<Rightarrow>
             (s1\<lparr>spNewline := True,
                 spLost := Some \<lparr>srFrom = (case spLost s of None \<Rightarrow> sq | Some l \<Rightarrow> srFrom l), srTo = sq\<rparr>,
                 spLostErr := (case spLost s of None \<Rightarrow> e | Some l \<Rightarrow> spLostErr s)\<rparr>,
              Some e)
         | DiskOk \<Rightarrow>
             (s1\<lparr>spNewline := False, spPrev := arHash r2, spSince := spSince s + 1,
                 spWritten := spWritten s + 1\<rparr>,
              None))"

definition Spool_writeGap :: "(AuditRecord \<Rightarrow> string) \<Rightarrow> gotime \<Rightarrow> Spool \<Rightarrow> disk \<Rightarrow> Spool" where
  "Spool_writeGap H now s d =
     (case spLost s of
        None \<Rightarrow> s
      | Some lost \<Rightarrow>
          (let gap = (audit_record EventGap (Error_text (spLostErr s)))\<lparr>arLost := Some lost\<rparr>;
               (s1, e) = Spool_write H now (s\<lparr>spLost := None\<rparr>) gap d
           in case e of
                None \<Rightarrow> s1
              | Some err \<Rightarrow>
                  s1\<lparr>spLost := map_option (\<lambda>l. l\<lparr>srFrom := srFrom lost\<rparr>) (spLost s1)\<rparr>))"

definition Spool_checkpoint :: "(AuditRecord \<Rightarrow> string) \<Rightarrow> gotime \<Rightarrow> Checkpoints \<Rightarrow> Spool \<Rightarrow> disk \<Rightarrow> Spool" where
  "Spool_checkpoint H now cp s d =
     (let rec = (audit_record EventCheckpoint [])\<lparr>arSigner := cpKeyID cp,
                  arSignature := cpSign cp (checkpointPayload (spSeq s) (spPrev s))\<rparr>;
          (s1, e) = Spool_write H now s rec d
      in case e of None \<Rightarrow> s1\<lparr>spSince := 0\<rparr> | Some err \<Rightarrow> s1)"

text \<open>
  \<open>Append\<close> up to the point where it releases \<open>s.mu\<close>: the spool and the error, or the number of
  writes a \<open>Sync\<close> record then waits for (\<open>syncThrough\<close> below). The three disk outcomes are those
  of the gap, the record and the checkpoint.
\<close>

definition Spool_Append ::
  "(AuditRecord \<Rightarrow> string) \<Rightarrow> gotime \<Rightarrow> Spool \<Rightarrow> AuditRecord \<Rightarrow> disk \<Rightarrow> disk \<Rightarrow> disk \<Rightarrow> Spool \<times> (goerr + u64)" where
  "Spool_Append H now s rec dg dr dc =
     (if spClosed s then (s, Inl (wrapped2 ErrAudit (ESentinel ErrSpoolClosed)))
      else
        let s1 = Spool_writeGap H now s dg;
            (s2, e) = Spool_write H now s1 rec dr
        in case e of
             Some err \<Rightarrow> (s2, Inl (wrapped2 ErrAudit err))
           | None \<Rightarrow>
               (let s3 = (case spCp s2 of
                            Some cp \<Rightarrow> if spSince s2 \<ge> cpEvery cp then Spool_checkpoint H now cp s2 dc else s2
                          | None \<Rightarrow> s2)
                in (s3, Inr (spWritten s3))))"

text \<open>\<open>Close\<close> up to its \<open>syncThrough\<close>.\<close>

definition Spool_Close :: "(AuditRecord \<Rightarrow> string) \<Rightarrow> gotime \<Rightarrow> Spool \<Rightarrow> disk \<Rightarrow> disk \<Rightarrow> Spool \<times> (goerr + u64)" where
  "Spool_Close H now s dg dc =
     (if spClosed s then (s, Inl (ESentinel ErrSpoolClosed))
      else
        let s1 = Spool_writeGap H now (s\<lparr>spClosed := True\<rparr>) dg;
            s2 = (case spCp s1 of
                    Some cp \<Rightarrow> if spSince s1 > 0 then Spool_checkpoint H now cp s1 dc else s1
                  | None \<Rightarrow> s1)
        in (s2, Inr (spWritten s2)))"

section \<open>Opening\<close>

record spoolEnd =
  seSeq :: u64
  seHash :: string
  seTorn :: "nat option"
  seNewline :: bool

text \<open>\<open>seTorn\<close> is the index of the unreadable line; its byte offset only enters the gap's text.\<close>

fun scan_lines :: "nat \<Rightarrow> line list \<Rightarrow> spoolEnd \<Rightarrow> spoolEnd" where
  "scan_lines n [] e = e"
| "scan_lines n (Blank # xs) e = scan_lines (Suc n) xs e"
| "scan_lines n (Bad # xs) e = scan_lines (Suc n) xs (e\<lparr>seTorn := Some n\<rparr>)"
| "scan_lines n (Rec r # xs) e =
     scan_lines (Suc n) xs (e\<lparr>seTorn := None, seSeq := max (seSeq e) (arSeq r), seHash := arHash r\<rparr>)"

definition scanSpool :: "spool_file \<Rightarrow> spoolEnd" where
  "scanSpool f = scan_lines 0 (sfLines f) \<lparr>seSeq = 0, seHash = [], seTorn = None, seNewline = sfNewline f\<rparr>"

definition opened :: "Checkpoints option \<Rightarrow> spool_file \<Rightarrow> Spool" where
  "opened cp f =
     (let e = scanSpool f;
          cp' = map_option (\<lambda>c. if cpEvery c \<le> 0 then c\<lparr>cpEvery := DefaultCheckpointEvery\<rparr> else c) cp
      in \<lparr>spFile = f, spSeq = seSeq e, spPrev = seHash e, spNewline = \<not> seNewline e, spLost = None,
          spLostErr = ENew [], spCp = cp', spSince = 0, spWritten = 0, spClosed = False\<rparr>)"

definition torn_gap :: "(nat \<Rightarrow> string) \<Rightarrow> nat \<Rightarrow> AuditRecord" where
  "torn_gap offset i = audit_record EventGap (''unreadable line at offset '' @ offset i)"

text \<open>\<open>fails\<close> is a failure to open the file or to read it.\<close>

datatype open_fail = OpenFails goerr | ScanFails goerr

definition OpenSpool ::
  "(AuditRecord \<Rightarrow> string) \<Rightarrow> string \<Rightarrow> gotime \<Rightarrow> (nat \<Rightarrow> string) \<Rightarrow> Checkpoints option \<Rightarrow> open_fail option \<Rightarrow>
   disk \<Rightarrow> spool_file \<Rightarrow> spool_file \<times> (goerr + Spool)" where
  "OpenSpool H path now offset cp fails d f =
     (case fails of
        Some (OpenFails e) \<Rightarrow> (f, Inl e)
      | Some (ScanFails e) \<Rightarrow> (f, Inl (EFmt [PStr (''audit: scan '' @ path @ '': ''), PErr e]))
      | None \<Rightarrow>
          (case seTorn (scanSpool f) of
             None \<Rightarrow> (f, Inr (opened cp f))
           | Some i \<Rightarrow>
               (let (s1, err) = Spool_write H now (opened cp f) (torn_gap offset i) d
                in (spFile s1,
                    case err of Some x \<Rightarrow> Inl (EFmt [PStr (''audit: '' @ path @ '': ''), PErr x])
                              | None \<Rightarrow> Inr s1))))"

section \<open>Verifying\<close>

record SpoolReport =
  repRecords :: nat
  repUnchained :: nat
  repGaps :: "AuditRecord list"
  repCheckpoints :: nat
  repSignedSeq :: u64
  repUnsigned :: nat
  repTornTail :: bool

record verify_state =
  vsPrev :: "AuditRecord option"
  vsTorn :: nat
  vsRep :: SpoolReport

definition verify_init :: verify_state where
  "verify_init = \<lparr>vsPrev = None, vsTorn = 0,
     vsRep = \<lparr>repRecords = 0, repUnchained = 0, repGaps = [], repCheckpoints = 0, repSignedSeq = 0,
              repUnsigned = 0, repTornTail = False\<rparr>\<rparr>"

definition chain_fail :: "nat \<Rightarrow> string \<Rightarrow> goerr" where
  "chain_fail n msg = EFmt [PErr (ESentinel ErrAuditChain), PStr ('': line '' @ format_nat n @ '': '' @ msg)]"

text \<open>The sequence number a record must have after \<open>prev\<close>, or the complaint about its gap.\<close>

definition verify_want :: "AuditRecord \<Rightarrow> AuditRecord \<Rightarrow> string + u64" where
  "verify_want prev rec =
     (let want = arSeq prev + 1 in
      if arEvent rec = EventGap
      then (case arLost rec of
              None \<Rightarrow> Inr want
            | Some l \<Rightarrow>
                if srFrom l \<noteq> want \<or> srTo l < srFrom l
                then Inl (''gap seq '' @ FormatUint (arSeq rec) @ '' names '' @ FormatUint (srFrom l) @ ''-'' @
                          FormatUint (srTo l) @ '', after seq '' @ FormatUint (arSeq prev))
                else Inr (srTo l + 1))
      else Inr want)"

definition verify_chain :: "AuditRecord option \<Rightarrow> AuditRecord \<Rightarrow> string option" where
  "verify_chain prev rec =
     (case prev of
        None \<Rightarrow>
          if arPrevHash rec \<noteq> []
          then Some (''the chain starts at seq '' @ FormatUint (arSeq rec) @ '', which follows a record that is not here'')
          else None
      | Some p \<Rightarrow>
          if arPrevHash rec \<noteq> arHash p
          then Some (''seq '' @ FormatUint (arSeq rec) @ '' does not follow seq '' @ FormatUint (arSeq p))
          else (case verify_want p rec of
                  Inl msg \<Rightarrow> Some msg
                | Inr want \<Rightarrow>
                    if arSeq rec \<noteq> want
                    then Some (''seq '' @ FormatUint (arSeq rec) @ '' follows seq '' @ FormatUint (arSeq p)) else None))"

definition verify_checkpoint ::
  "(string, bytes \<Rightarrow> string \<Rightarrow> bool) gomap \<Rightarrow> AuditRecord option \<Rightarrow> AuditRecord \<Rightarrow> string option" where
  "verify_checkpoint trust prev rec =
     (case prev of
        None \<Rightarrow> Some (''checkpoint seq '' @ FormatUint (arSeq rec) @ '' signs nothing'')
      | Some p \<Rightarrow>
          (case map_of trust (arSigner rec) of
             None \<Rightarrow> Some (''checkpoint seq '' @ FormatUint (arSeq rec) @ '': signer '' @ go_quote (arSigner rec) @
                           '' is not trusted'')
           | Some pub \<Rightarrow>
               if \<not> pub (checkpointPayload (arSeq p) (arHash p)) (arSignature rec)
               then Some (''checkpoint seq '' @ FormatUint (arSeq rec) @ '': the signature does not hold'') else None))"

definition count_record :: "verify_state \<Rightarrow> AuditRecord \<Rightarrow> verify_state" where
  "count_record v rec =
     (let rep = vsRep v;
          rep1 = (if arEvent rec = EventGap
                  then rep\<lparr>repGaps := repGaps rep @ [rec], repUnsigned := repUnsigned rep + 1\<rparr>
                  else if arEvent rec = EventCheckpoint
                  then rep\<lparr>repCheckpoints := repCheckpoints rep + 1, repSignedSeq := arSeq rec, repUnsigned := 0\<rparr>
                  else rep\<lparr>repUnsigned := repUnsigned rep + 1\<rparr>)
      in v\<lparr>vsRep := rep1\<lparr>repRecords := repRecords rep1 + 1\<rparr>, vsPrev := Some rec, vsTorn := 0\<rparr>)"

definition verify_record ::
  "(AuditRecord \<Rightarrow> string) \<Rightarrow> (string, bytes \<Rightarrow> string \<Rightarrow> bool) gomap \<Rightarrow> nat \<Rightarrow> AuditRecord \<Rightarrow> verify_state \<Rightarrow>
   goerr + verify_state" where
  "verify_record H trust n rec v =
     (if arHash rec = [] then
        (if vsPrev v \<noteq> None then Inl (chain_fail n (''seq '' @ FormatUint (arSeq rec) @ '' is not chained''))
         else Inr (v\<lparr>vsRep := (vsRep v)\<lparr>repUnchained := repUnchained (vsRep v) + 1\<rparr>\<rparr>))
      else if recordHash H rec \<noteq> arHash rec then
        Inl (chain_fail n (''seq '' @ FormatUint (arSeq rec) @ '': the hash does not match the record''))
      else case verify_chain (vsPrev v) rec of
             Some msg \<Rightarrow> Inl (chain_fail n msg)
           | None \<Rightarrow>
               if vsTorn v \<noteq> 0 \<and> arEvent rec \<noteq> EventGap
               then Inl (chain_fail (vsTorn v) ''unreadable, and no gap follows it'')
               else if arEvent rec = EventCheckpoint then
                 (case verify_checkpoint trust (vsPrev v) rec of
                    Some msg \<Rightarrow> Inl (chain_fail n msg)
                  | None \<Rightarrow> Inr (count_record v rec))
               else Inr (count_record v rec))"

definition verify_line ::
  "(AuditRecord \<Rightarrow> string) \<Rightarrow> (string, bytes \<Rightarrow> string \<Rightarrow> bool) gomap \<Rightarrow> nat \<Rightarrow> line \<Rightarrow> verify_state \<Rightarrow>
   goerr + verify_state" where
  "verify_line H trust n x v =
     (case x of
        Blank \<Rightarrow> Inr v
      | Bad \<Rightarrow>
          Inr (if vsPrev v = None then v\<lparr>vsRep := (vsRep v)\<lparr>repUnchained := repUnchained (vsRep v) + 1\<rparr>\<rparr>
               else if vsTorn v = 0 then v\<lparr>vsTorn := n\<rparr> else v)
      | Rec rec \<Rightarrow> verify_record H trust n rec v)"

fun verify_lines ::
  "(AuditRecord \<Rightarrow> string) \<Rightarrow> (string, bytes \<Rightarrow> string \<Rightarrow> bool) gomap \<Rightarrow> nat \<Rightarrow> line list \<Rightarrow> verify_state \<Rightarrow>
   goerr + verify_state" where
  "verify_lines H trust n [] v = Inr v"
| "verify_lines H trust n (x # xs) v =
     (case verify_line H trust n x v of Inl e \<Rightarrow> Inl e | Inr v' \<Rightarrow> verify_lines H trust (Suc n) xs v')"

definition VerifySpool ::
  "(AuditRecord \<Rightarrow> string) \<Rightarrow> (string, bytes \<Rightarrow> string \<Rightarrow> bool) gomap \<Rightarrow> spool_file \<Rightarrow> goerr + SpoolReport" where
  "VerifySpool H trust f =
     (case verify_lines H trust 1 (sfLines f) verify_init of
        Inl e \<Rightarrow> Inl e
      | Inr v \<Rightarrow> Inr ((vsRep v)\<lparr>repTornTail := (vsTorn v \<noteq> 0)\<rparr>))"

section \<open>Files that verify\<close>

fun recs :: "line list \<Rightarrow> AuditRecord list" where
  "recs [] = []"
| "recs (Rec r # xs) = r # recs xs"
| "recs (x # xs) = recs xs"

definition last_rec :: "line list \<Rightarrow> AuditRecord option" where
  "last_rec xs = (if recs xs = [] then None else Some (last (recs xs)))"

lemma recs_append [simp]: "recs (xs @ ys) = recs xs @ recs ys"
  by (induction xs rule: recs.induct) auto

lemma last_rec_snoc [simp]:
  "last_rec (xs @ [Rec r]) = Some r" "last_rec (xs @ [Blank]) = last_rec xs" "last_rec (xs @ [Bad]) = last_rec xs"
  by (simp_all add: last_rec_def)

lemma verify_lines_append:
  "verify_lines H trust n (xs @ ys) v =
     (case verify_lines H trust n xs v of
        Inl e \<Rightarrow> Inl e | Inr v' \<Rightarrow> verify_lines H trust (n + length xs) ys v')"
  by (induction xs arbitrary: n v) (auto split: sum.splits)

lemma verify_lines_prefix:
  assumes "verify_lines H trust n (xs @ ys) v = Inr w"
  obtains v' where "verify_lines H trust n xs v = Inr v'"
  using assms by (auto simp: verify_lines_append split: sum.splits)

lemma count_record_simps [simp]:
  "vsPrev (count_record v rec) = Some rec" "vsTorn (count_record v rec) = 0"
  by (simp_all add: count_record_def Let_def)

lemma verify_record_Inr:
  assumes "verify_record H trust n rec v = Inr w" "arHash rec \<noteq> []"
  shows "w = count_record v rec"
  using assms by (auto simp: verify_record_def split: if_splits option.splits)

lemma verify_lines_prev:
  assumes "verify_lines H trust n xs v = Inr w" "\<forall>r \<in> set (recs xs). arHash r \<noteq> []"
  shows "vsPrev w = (if recs xs = [] then vsPrev v else last_rec xs)"
  using assms
proof (induction xs arbitrary: n v)
  case (Cons x xs)
  show ?case
  proof (cases x)
    case (Rec r)
    with Cons.prems obtain v' where v': "verify_record H trust n r v = Inr v'" "verify_lines H trust (Suc n) xs v' = Inr w"
      by (auto simp: verify_line_def split: sum.splits)
    have "v' = count_record v r" using verify_record_Inr [OF v'(1)] Cons.prems(2) Rec by simp
    with Cons.IH [OF v'(2)] Cons.prems(2) Rec show ?thesis by (auto simp: last_rec_def)
  qed (use Cons in \<open>auto simp: verify_line_def last_rec_def split: if_splits\<close>)
qed simp

lemma scan_torn:
  assumes "verify_lines H trust n xs v = Inr w" "\<forall>r \<in> set (recs xs). arHash r \<noteq> []"
    and "vsTorn v \<noteq> 0 \<longrightarrow> seTorn e \<noteq> None"
  shows "vsTorn w \<noteq> 0 \<longrightarrow> seTorn (scan_lines m xs e) \<noteq> None"
  using assms
proof (induction xs arbitrary: n v m e)
  case (Cons x xs)
  show ?case
  proof (cases x)
    case (Rec r)
    with Cons.prems obtain v' where v': "verify_record H trust n r v = Inr v'" "verify_lines H trust (Suc n) xs v' = Inr w"
      by (auto simp: verify_line_def split: sum.splits)
    have "v' = count_record v r" using verify_record_Inr [OF v'(1)] Cons.prems(2) Rec by simp
    with Cons.IH [OF v'(2)] Cons.prems(2) Rec show ?thesis by simp
  next
    case Bad
    with Cons.prems obtain v' where "verify_lines H trust (Suc n) xs v' = Inr w"
      by (auto simp: verify_line_def split: sum.splits)
    from Cons.IH [OF this] Cons.prems(2) Bad show ?thesis by simp
  next
    case Blank
    with Cons show ?thesis by (auto simp: verify_line_def)
  qed
qed simp

lemma scan_hash:
  "seHash (scan_lines m xs e) = (if recs xs = [] then seHash e else arHash (last (recs xs)))"
  by (induction xs arbitrary: m e rule: recs.induct) auto

lemma scan_newline: "seNewline (scan_lines m xs e) = seNewline e"
  by (induction xs arbitrary: m e rule: recs.induct) auto

text \<open>A spool's sequence numbers grow from record to record.\<close>

definition growing :: "line list \<Rightarrow> bool" where
  "growing xs \<longleftrightarrow> sorted_wrt (<) (map arSeq (recs xs))"

lemma scan_seq:
  assumes "growing xs" "\<forall>r \<in> set (recs xs). seSeq e \<le> arSeq r"
  shows "seSeq (scan_lines m xs e) = (if recs xs = [] then seSeq e else arSeq (last (recs xs)))"
  using assms
proof (induction xs arbitrary: m e rule: recs.induct)
  case (2 r xs)
  then have "seSeq (e\<lparr>seTorn := None, seSeq := max (seSeq e) (arSeq r), seHash := arHash r\<rparr>) = arSeq r"
    by (simp add: max_def)
  with 2 show ?case by (auto simp: growing_def less_imp_le)
qed (auto simp: growing_def)

definition file_ok ::
  "(AuditRecord \<Rightarrow> string) \<Rightarrow> (string, bytes \<Rightarrow> string \<Rightarrow> bool) gomap \<Rightarrow> nat \<Rightarrow> line list \<Rightarrow> bool" where
  "file_ok H trust N xs \<longleftrightarrow>
     (\<exists>v. verify_lines H trust 1 xs verify_init = Inr v) \<and> growing xs \<and>
     (\<forall>r \<in> set (recs xs). arHash r \<noteq> [] \<and> unat (arSeq r) \<le> N)"

lemma file_okE:
  assumes "file_ok H trust N xs"
  obtains v where "verify_lines H trust 1 xs verify_init = Inr v" "vsPrev v = last_rec xs"
    "growing xs" "\<forall>r \<in> set (recs xs). arHash r \<noteq> [] \<and> unat (arSeq r) \<le> N"
  using assms verify_lines_prev [of H trust 1 xs verify_init]
  by (auto simp: file_ok_def verify_init_def last_rec_def split: if_splits)

lemma file_ok_prefix: "file_ok H trust N (xs @ ys) \<Longrightarrow> file_ok H trust N xs"
  by (auto simp: file_ok_def growing_def sorted_wrt_append elim: verify_lines_prefix)

lemma file_ok_take: "file_ok H trust N xs \<Longrightarrow> file_ok H trust N (take k xs)"
  using file_ok_prefix [of H trust N "take k xs" "drop k xs"] by simp

lemma file_ok_noise:
  assumes "file_ok H trust N xs" "x = Blank \<or> x = Bad"
  shows "file_ok H trust N (xs @ [x])"
  using assms by (auto simp: file_ok_def growing_def verify_lines_append verify_line_def)

lemma file_ok_more: "file_ok H trust N xs \<Longrightarrow> N \<le> M \<Longrightarrow> file_ok H trust M xs"
  by (fastforce simp: file_ok_def)

lemma sorted_le_last: "sorted xs \<Longrightarrow> x \<in> set xs \<Longrightarrow> x \<le> last (xs :: 'a :: linorder list)"
  by (induction xs) auto

lemma growing_last:
  assumes "growing xs" "r \<in> set (recs xs)"
  shows "\<exists>p. last_rec xs = Some p \<and> arSeq r \<le> arSeq p"
proof -
  have "sorted (map arSeq (recs xs))" using assms(1) by (simp add: growing_def strict_sorted_imp_sorted)
  moreover have ne: "recs xs \<noteq> []" using assms(2) by auto
  ultimately have "arSeq r \<le> arSeq (last (recs xs))"
    using assms(2) sorted_le_last [of "map arSeq (recs xs)" "arSeq r"] by (simp add: last_map)
  with ne show ?thesis by (simp add: last_rec_def)
qed

text \<open>Adding a record the verifier accepts.\<close>

lemma file_ok_record:
  assumes ok: "file_ok H trust N xs" and v: "verify_lines H trust 1 xs verify_init = Inr v"
    and h: "arHash r \<noteq> []" "recordHash H r = arHash r" "verify_chain (last_rec xs) r = None"
    and torn: "vsTorn v = 0 \<or> arEvent r = EventGap"
    and cp: "arEvent r = EventCheckpoint \<longrightarrow> verify_checkpoint trust (last_rec xs) r = None"
    and sq: "unat (arSeq r) \<le> M" "N \<le> M" "\<forall>p. last_rec xs = Some p \<longrightarrow> arSeq p < arSeq r"
  shows "file_ok H trust M (xs @ [Rec r])"
    "verify_lines H trust 1 (xs @ [Rec r]) verify_init = Inr (count_record v r)"
proof -
  have prev: "vsPrev v = last_rec xs" using file_okE [OF ok] v by auto
  show ver: "verify_lines H trust 1 (xs @ [Rec r]) verify_init = Inr (count_record v r)"
    using v h torn cp prev by (auto simp: verify_lines_append verify_line_def verify_record_def)
  have "growing xs" using ok by (simp add: file_ok_def)
  then have "arSeq q < arSeq r" if "q \<in> set (recs xs)" for q
    using growing_last [of xs q] that sq(3) by fastforce
  with ok ver h(1) sq(1,2) show "file_ok H trust M (xs @ [Rec r])"
    by (auto simp: file_ok_def growing_def sorted_wrt_append)
qed

section \<open>The writer's invariant\<close>

lemma sealed_simps [simp]:
  "arSeq (sealed H now s rec) = spSeq s + 1" "arPrevHash (sealed H now s rec) = spPrev s"
  "arEvent (sealed H now s rec) = arEvent rec" "arLost (sealed H now s rec) = arLost rec"
  "arSigner (sealed H now s rec) = arSigner rec" "arSignature (sealed H now s rec) = arSignature rec"
  by (simp_all add: sealed_def Let_def)

lemma sealed_hash: "recordHash H (sealed H now s rec) = arHash (sealed H now s rec)"
  by (simp add: sealed_def recordHash_def Let_def)

lemma sealed_hash_nonempty: "\<forall>r. H r \<noteq> [] \<Longrightarrow> arHash (sealed H now s rec) \<noteq> []"
  by (simp add: sealed_def recordHash_def Let_def)

definition torn_of ::
  "(AuditRecord \<Rightarrow> string) \<Rightarrow> (string, bytes \<Rightarrow> string \<Rightarrow> bool) gomap \<Rightarrow> line list \<Rightarrow> nat" where
  "torn_of H trust xs = (case verify_lines H trust 1 xs verify_init of Inl e \<Rightarrow> 0 | Inr v \<Rightarrow> vsTorn v)"

definition cp_ok :: "(string, bytes \<Rightarrow> string \<Rightarrow> bool) gomap \<Rightarrow> Checkpoints option \<Rightarrow> bool" where
  "cp_ok trust cp =
     (case cp of None \<Rightarrow> True | Some c \<Rightarrow>
        (case map_of trust (cpKeyID c) of None \<Rightarrow> False | Some pub \<Rightarrow> \<forall>m. pub m (cpSign c m)))"

text \<open>
  \<open>base_ok\<close> is what holds through a failed write too; \<open>spool_ok\<close> adds that the numbers lost since the
  last record are exactly those between it and the spool's counter, and that an unreadable line
  waits for a gap only while numbers are lost.
\<close>

definition base_ok ::
  "(AuditRecord \<Rightarrow> string) \<Rightarrow> (string, bytes \<Rightarrow> string \<Rightarrow> bool) gomap \<Rightarrow> nat \<Rightarrow> Spool \<Rightarrow> bool" where
  "base_ok H trust N s \<longleftrightarrow>
     file_ok H trust N (sfLines (spFile s)) \<and> unat (spSeq s) \<le> N \<and>
     spPrev s = (case last_rec (sfLines (spFile s)) of None \<Rightarrow> [] | Some p \<Rightarrow> arHash p) \<and>
     (\<not> spNewline s \<longrightarrow> sfNewline (spFile s)) \<and>
     (spSince s > 0 \<longrightarrow> last_rec (sfLines (spFile s)) \<noteq> None) \<and> cp_ok trust (spCp s)"

definition lost_ok ::
  "(AuditRecord \<Rightarrow> string) \<Rightarrow> (string, bytes \<Rightarrow> string \<Rightarrow> bool) gomap \<Rightarrow> Spool \<Rightarrow> bool" where
  "lost_ok H trust s =
     (case spLost s of
        None \<Rightarrow> torn_of H trust (sfLines (spFile s)) = 0 \<and>
                (\<forall>p. last_rec (sfLines (spFile s)) = Some p \<longrightarrow> spSeq s = arSeq p)
      | Some l \<Rightarrow> srTo l = spSeq s \<and> srFrom l \<le> srTo l \<and>
                (\<forall>p. last_rec (sfLines (spFile s)) = Some p \<longrightarrow> srFrom l = arSeq p + 1 \<and> arSeq p < srFrom l))"

definition spool_ok ::
  "(AuditRecord \<Rightarrow> string) \<Rightarrow> (string, bytes \<Rightarrow> string \<Rightarrow> bool) gomap \<Rightarrow> nat \<Rightarrow> Spool \<Rightarrow> bool" where
  "spool_ok H trust N s \<longleftrightarrow> base_ok H trust N s \<and> lost_ok H trust s"

lemma spool_ok_more: "spool_ok H trust N s \<Longrightarrow> N \<le> M \<Longrightarrow> spool_ok H trust M s"
  by (auto simp: spool_ok_def base_ok_def intro: file_ok_more)

lemma spool_ok_file: "spool_ok H trust N s \<Longrightarrow> N \<le> M \<Longrightarrow> file_ok H trust M (sfLines (spFile s))"
  by (rule file_ok_more) (simp_all add: spool_ok_def base_ok_def)

definition with_newline :: "spool_file \<Rightarrow> bool \<Rightarrow> line list" where
  "with_newline f start = (if start \<and> sfNewline f then sfLines f @ [Blank] else sfLines f)"

lemma file_write_lines:
  assumes "\<not> start \<longrightarrow> sfNewline f"
  shows "file_write f start r DiskOk = \<lparr>sfLines = with_newline f start @ [Rec r], sfNewline = True\<rparr>"
    "file_write f start r (DiskErr e TearNone) = f"
    "file_write f start r (DiskErr e TearNewline) = \<lparr>sfLines = with_newline f start, sfNewline = True\<rparr>"
    "file_write f start r (DiskErr e TearPart) = \<lparr>sfLines = with_newline f start @ [Bad], sfNewline = False\<rparr>"
  using assms by (auto simp: file_write_def file_put_def file_newline_def with_newline_def)

lemma with_newline_ok:
  "file_ok H trust N (sfLines f) \<Longrightarrow> file_ok H trust N (with_newline f start)"
  "last_rec (with_newline f start) = last_rec (sfLines f)"
  by (simp_all add: with_newline_def file_ok_noise)

lemma torn_of_Blank: "file_ok H trust N xs \<Longrightarrow> torn_of H trust (xs @ [Blank]) = torn_of H trust xs"
  by (auto simp: torn_of_def file_ok_def verify_lines_append verify_line_def)

lemma torn_of_with_newline:
  "file_ok H trust N (sfLines f) \<Longrightarrow> torn_of H trust (with_newline f start) = torn_of H trust (sfLines f)"
  by (simp add: with_newline_def torn_of_Blank)

lemma u64_succ_nat: "unat (x :: u64) \<le> N \<Longrightarrow> Suc N < 2 ^ 64 \<Longrightarrow> unat (x + 1) = Suc (unat x)"
  by (simp add: unat_word_ariths)

lemma u64_less_plus1: "unat (x :: u64) \<le> N \<Longrightarrow> Suc N < 2 ^ 64 \<Longrightarrow> x < x + 1"
  by (simp add: word_less_nat_alt u64_succ_nat)

lemma file_write_fails:
  assumes "file_ok H trust N (sfLines f)" "\<not> start \<longrightarrow> sfNewline f" "t \<noteq> TearAll"
  shows "file_ok H trust N (sfLines (file_write f start r (DiskErr e t)))"
    "last_rec (sfLines (file_write f start r (DiskErr e t))) = last_rec (sfLines f)"
  using assms file_write_lines [OF assms(2)] by (cases t; simp add: with_newline_ok file_ok_noise)+

lemma write_fails:
  assumes ok: "spool_ok H trust N s" and N: "Suc N < 2 ^ 64" and t: "t \<noteq> TearAll"
    and w: "Spool_write H now s rec (DiskErr e t) = (s', r)"
  shows "spool_ok H trust (Suc N) s' \<and> spLost s' \<noteq> None \<and> spCp s' = spCp s \<and> spClosed s' = spClosed s"
proof -
  let ?L = "sfLines (spFile s)" and ?M = "sfLines (spFile s')"
  have b: "base_ok H trust N s" and l: "lost_ok H trust s" using ok by (simp_all add: spool_ok_def)
  have nl: "\<not> spNewline s \<longrightarrow> sfNewline (spFile s)" and f: "file_ok H trust N ?L" and sq: "unat (spSeq s) \<le> N"
    using b by (simp_all add: base_ok_def)
  have s': "spFile s' = file_write (spFile s) (spNewline s) (sealed H now s rec) (DiskErr e t)"
    "spSeq s' = spSeq s + 1" "spPrev s' = spPrev s" "spNewline s'" "spSince s' = spSince s" "spCp s' = spCp s"
    "spClosed s' = spClosed s"
    "spLost s' = Some \<lparr>srFrom = (case spLost s of None \<Rightarrow> spSeq s + 1 | Some l \<Rightarrow> srFrom l), srTo = spSeq s + 1\<rparr>"
    using w by (auto simp: Spool_write_def Let_def)
  have M: "file_ok H trust N ?M" "last_rec ?M = last_rec ?L"
    using file_write_fails [OF f nl t] by (simp_all add: s'(1))
  have up: "unat (spSeq s + 1) = Suc (unat (spSeq s))" "spSeq s < spSeq s + 1"
    using u64_succ_nat [OF sq N] u64_less_plus1 [OF sq N] .
  have "base_ok H trust (Suc N) s'"
    using b M up sq by (auto simp: base_ok_def s'(2-7) file_ok_more)
  moreover have "lost_ok H trust s'"
    using l M(2) up(2) by (auto simp: lost_ok_def s' split: option.splits)
  ultimately show ?thesis using s' by (simp add: spool_ok_def)
qed

lemma write_succeeds:
  assumes H: "\<forall>r. H r \<noteq> []" and b: "base_ok H trust N s" and N: "Suc N < 2 ^ 64"
    and chain: "verify_chain (last_rec (sfLines (spFile s))) (sealed H now s rec) = None"
    and torn: "torn_of H trust (sfLines (spFile s)) = 0 \<or> arEvent rec = EventGap"
    and cp: "arEvent rec = EventCheckpoint \<longrightarrow>
      verify_checkpoint trust (last_rec (sfLines (spFile s))) (sealed H now s rec) = None"
    and le: "\<forall>p. last_rec (sfLines (spFile s)) = Some p \<longrightarrow> arSeq p \<le> spSeq s"
    and w: "Spool_write H now s rec DiskOk = (s', r)" and none: "spLost s = None"
  shows "spool_ok H trust (Suc N) s' \<and> spLost s' = None \<and> spCp s' = spCp s \<and> spClosed s' = spClosed s \<and>
    r = None \<and> last_rec (sfLines (spFile s')) \<noteq> None"
proof -
  let ?r = "sealed H now s rec" and ?L = "with_newline (spFile s) (spNewline s)"
  have nl: "\<not> spNewline s \<longrightarrow> sfNewline (spFile s)" and f: "file_ok H trust N (sfLines (spFile s))"
    and sq: "unat (spSeq s) \<le> N" and cpo: "cp_ok trust (spCp s)"
    using b by (simp_all add: base_ok_def)
  have s': "spFile s' = \<lparr>sfLines = ?L @ [Rec ?r], sfNewline = True\<rparr>" "spSeq s' = spSeq s + 1"
    "spPrev s' = arHash ?r" "\<not> spNewline s'" "spLost s' = None" "spCp s' = spCp s" "spClosed s' = spClosed s" "r = None"
    using w none file_write_lines(1) [OF nl] by (auto simp: Spool_write_def Let_def)
  have L: "file_ok H trust N ?L" "last_rec ?L = last_rec (sfLines (spFile s))"
    "torn_of H trust ?L = torn_of H trust (sfLines (spFile s))"
    using f by (simp_all add: with_newline_ok torn_of_with_newline)
  obtain v where v: "verify_lines H trust 1 ?L verify_init = Inr v" using L(1) by (auto simp: file_ok_def)
  then have tv: "vsTorn v = torn_of H trust ?L" by (simp add: torn_of_def)
  have up: "unat (spSeq s + 1) = Suc (unat (spSeq s))" "spSeq s < spSeq s + 1"
    using u64_succ_nat [OF sq N] u64_less_plus1 [OF sq N] .
  have "verify_chain (last_rec ?L) ?r = None" "vsTorn v = 0 \<or> arEvent ?r = EventGap"
    "arEvent ?r = EventCheckpoint \<longrightarrow> verify_checkpoint trust (last_rec ?L) ?r = None"
    "unat (arSeq ?r) \<le> Suc N" "N \<le> Suc N" "\<forall>p. last_rec ?L = Some p \<longrightarrow> arSeq p < arSeq ?r"
    using chain torn cp le L(2,3) tv up sq by (auto intro: le_less_trans)
  note added = file_ok_record [OF L(1) v sealed_hash_nonempty [OF H] sealed_hash this]
  have "file_ok H trust (Suc N) (?L @ [Rec ?r])"
    and ver: "verify_lines H trust 1 (?L @ [Rec ?r]) verify_init = Inr (count_record v ?r)"
    using added .
  moreover have "torn_of H trust (?L @ [Rec ?r]) = 0" using ver by (simp add: torn_of_def)
  ultimately show ?thesis
    using s' up(1) sq cpo by (simp add: spool_ok_def base_ok_def lost_ok_def)
qed

text \<open>The three kinds of write.\<close>

lemma spool_ok_lostErr: "spool_ok H trust N (s\<lparr>spLostErr := e\<rparr>) = spool_ok H trust N s"
  by (cases s) (simp only: spool_ok_def base_ok_def lost_ok_def Spool.simps)

lemma spool_ok_closed: "spool_ok H trust N (s\<lparr>spClosed := b\<rparr>) = spool_ok H trust N s"
  by (cases s) (simp only: spool_ok_def base_ok_def lost_ok_def Spool.simps)

lemma writeGap_ok:
  assumes H: "\<forall>r. H r \<noteq> []" and ok: "spool_ok H trust N s" and N: "Suc N < 2 ^ 64"
    and d: "d = DiskOk \<or> (\<exists>e t. d = DiskErr e t \<and> t \<noteq> TearAll)"
  shows "spool_ok H trust (Suc N) (Spool_writeGap H now s d)"
    "spCp (Spool_writeGap H now s d) = spCp s" "spClosed (Spool_writeGap H now s d) = spClosed s"
    "d = DiskOk \<longrightarrow> spLost (Spool_writeGap H now s d) = None"
proof -
  have "spool_ok H trust (Suc N) (Spool_writeGap H now s d) \<and>
    spCp (Spool_writeGap H now s d) = spCp s \<and> spClosed (Spool_writeGap H now s d) = spClosed s \<and>
    (d = DiskOk \<longrightarrow> spLost (Spool_writeGap H now s d) = None)"
  proof (cases "spLost s")
    case None
    with ok show ?thesis by (auto simp: Spool_writeGap_def intro: spool_ok_more)
  next
    case (Some lost)
    let ?s = "s\<lparr>spLost := None\<rparr>"
    let ?gap = "(audit_record EventGap (Error_text (spLostErr s)))\<lparr>arLost := Some lost\<rparr>"
    obtain s1 e where w: "Spool_write H now ?s ?gap d = (s1, e)" by fastforce
    have b: "base_ok H trust N ?s" using ok by (simp add: spool_ok_def base_ok_def)
    have lo: "lost_ok H trust s" using ok by (simp add: spool_ok_def)
    have l: "srTo lost = spSeq s" "srFrom lost \<le> srTo lost"
      "\<forall>p. last_rec (sfLines (spFile s)) = Some p \<longrightarrow> srFrom lost = arSeq p + 1 \<and> arSeq p < srFrom lost"
      using lo unfolding lost_ok_def Some option.case by blast+
    have prev: "spPrev s = (case last_rec (sfLines (spFile s)) of None \<Rightarrow> [] | Some p \<Rightarrow> arHash p)"
      using b by (simp add: base_ok_def)
    from d show ?thesis
    proof
      assume d: "d = DiskOk"
      have "verify_chain (last_rec (sfLines (spFile ?s))) (sealed H now ?s ?gap) = None"
      proof (cases "last_rec (sfLines (spFile s))")
        case None
        with prev show ?thesis by (simp add: verify_chain_def)
      next
        case (Some p)
        then have "srFrom lost = arSeq p + 1" using l(3) by blast
        with Some prev l(1,2) show ?thesis
          by (simp add: verify_chain_def verify_want_def Let_def audit_record_def)
      qed
      moreover have "arSeq p \<le> spSeq ?s" if "last_rec (sfLines (spFile ?s)) = Some p" for p
      proof -
        have "last_rec (sfLines (spFile s)) = Some p" using that by simp
        with l(3) have "arSeq p < srFrom lost" by blast
        also have "\<dots> \<le> spSeq s" using l(2) unfolding l(1) .
        finally show ?thesis by simp
      qed
      ultimately have "spool_ok H trust (Suc N) s1 \<and> spLost s1 = None \<and> spCp s1 = spCp ?s \<and>
          spClosed s1 = spClosed ?s \<and> e = None \<and> last_rec (sfLines (spFile s1)) \<noteq> None"
        using write_succeeds [OF H b N _ _ _ _ w [unfolded d]]
        by (simp add: audit_record_def EventGap_def EventCheckpoint_def)
      with w Some d show ?thesis by (auto simp: Spool_writeGap_def)
    next
      assume "\<exists>e t. d = DiskErr e t \<and> t \<noteq> TearAll"
      then obtain e' t where d: "d = DiskErr e' t" "t \<noteq> TearAll" by blast
      txt \<open>A failed gap is the failed write of a spool that still counts the range as lost.\<close>
      obtain s2 e2 where w2: "Spool_write H now s ?gap d = (s2, e2)" by fastforce
      have "spool_ok H trust (Suc N) s2 \<and> spCp s2 = spCp s \<and> spClosed s2 = spClosed s"
        using write_fails [OF ok N d(2) w2 [unfolded d(1)]] by simp
      moreover have "Spool_writeGap H now s d = s2\<lparr>spLostErr := e'\<rparr>"
        using w2 Some d(1) by (auto simp: Spool_writeGap_def Spool_write_def Let_def sealed_def)
      ultimately show ?thesis using d(1) by (simp add: spool_ok_lostErr)
    qed
  qed
  then show "spool_ok H trust (Suc N) (Spool_writeGap H now s d)"
    "spCp (Spool_writeGap H now s d) = spCp s" "spClosed (Spool_writeGap H now s d) = spClosed s"
    "d = DiskOk \<longrightarrow> spLost (Spool_writeGap H now s d) = None" by auto
qed

lemma write_ordinary:
  assumes H: "\<forall>r. H r \<noteq> []" and ok: "spool_ok H trust N s" and N: "Suc N < 2 ^ 64"
    and none: "spLost s = None" and ev: "arEvent rec \<noteq> EventCheckpoint" "arLost rec = None"
    and w: "Spool_write H now s rec DiskOk = (s', r)"
  shows "spool_ok H trust (Suc N) s' \<and> spLost s' = None \<and> spCp s' = spCp s \<and> spClosed s' = spClosed s \<and>
    r = None \<and> last_rec (sfLines (spFile s')) \<noteq> None"
proof -
  have b: "base_ok H trust N s" and t: "torn_of H trust (sfLines (spFile s)) = 0"
    and sq: "\<forall>p. last_rec (sfLines (spFile s)) = Some p \<longrightarrow> spSeq s = arSeq p"
    using ok none by (simp_all add: spool_ok_def lost_ok_def)
  have "verify_chain (last_rec (sfLines (spFile s))) (sealed H now s rec) = None"
    using b sq ev by (auto simp: base_ok_def verify_chain_def verify_want_def Let_def split: option.splits)
  from write_succeeds [OF H b N this _ _ _ w none] t sq ev show ?thesis by simp
qed

lemma checkpoint_ok:
  assumes H: "\<forall>r. H r \<noteq> []" and ok: "spool_ok H trust N s" and N: "Suc N < 2 ^ 64"
    and none: "spLost s = None" and cp: "spCp s = Some c" and since: "spSince s > 0"
    and d: "d = DiskOk \<or> (\<exists>e t. d = DiskErr e t \<and> t \<noteq> TearAll)"
  shows "spool_ok H trust (Suc N) (Spool_checkpoint H now c s d)"
    "spCp (Spool_checkpoint H now c s d) = spCp s" "spClosed (Spool_checkpoint H now c s d) = spClosed s"
proof -
  let ?rec = "(audit_record EventCheckpoint [])\<lparr>arSigner := cpKeyID c,
                  arSignature := cpSign c (checkpointPayload (spSeq s) (spPrev s))\<rparr>"
  obtain s1 e where w: "Spool_write H now s ?rec d = (s1, e)" by fastforce
  have b: "base_ok H trust N s" and t: "torn_of H trust (sfLines (spFile s)) = 0"
    and sq: "\<forall>p. last_rec (sfLines (spFile s)) = Some p \<longrightarrow> spSeq s = arSeq p"
    using ok none by (simp_all add: spool_ok_def lost_ok_def)
  have "spool_ok H trust (Suc N) (Spool_checkpoint H now c s d) \<and> spCp (Spool_checkpoint H now c s d) = spCp s \<and>
      spClosed (Spool_checkpoint H now c s d) = spClosed s"
    using d
  proof
    assume d: "d = DiskOk"
    obtain p where p: "last_rec (sfLines (spFile s)) = Some p" "spPrev s = arHash p"
      using b since by (auto simp: base_ok_def)
    have cv: "verify_checkpoint trust (last_rec (sfLines (spFile s))) (sealed H now s ?rec) = None"
      using b cp p sq by (auto simp: base_ok_def cp_ok_def verify_checkpoint_def split: option.splits)
    have "verify_chain (last_rec (sfLines (spFile s))) (sealed H now s ?rec) = None"
      using p sq
      by (auto simp: verify_chain_def verify_want_def Let_def audit_record_def EventGap_def EventCheckpoint_def)
    from write_succeeds [OF H b N this _ _ _ w [unfolded d] none] t sq cv
    have s1: "spool_ok H trust (Suc N) s1 \<and> spCp s1 = spCp s \<and> spClosed s1 = spClosed s \<and> e = None" by simp
    moreover have "spool_ok H trust (Suc N) (s1\<lparr>spSince := 0\<rparr>)"
      using s1 by (auto simp: spool_ok_def base_ok_def lost_ok_def split: option.splits)
    ultimately show ?thesis using w by (simp add: Spool_checkpoint_def Let_def)
  next
    assume "\<exists>e t. d = DiskErr e t \<and> t \<noteq> TearAll"
    then obtain e' t where d: "d = DiskErr e' t" "t \<noteq> TearAll" by blast
    have "e \<noteq> None" using w d by (auto simp: Spool_write_def Let_def)
    with write_fails [OF ok N d(2) w [unfolded d(1)]] w show ?thesis
      by (auto simp: Spool_checkpoint_def Let_def)
  qed
  then show "spool_ok H trust (Suc N) (Spool_checkpoint H now c s d)"
    "spCp (Spool_checkpoint H now c s d) = spCp s" "spClosed (Spool_checkpoint H now c s d) = spClosed s" by auto
qed

section \<open>A spool's life\<close>

text \<open>
  A process opens the spool, appends to it and closes it, or dies at any point; the machine may die
  too and lose the end of the file, whole lines or inside a line. \<open>Down\<close> is the file with no
  process on it.
\<close>

datatype cut = CutClean | CutBad | CutLine

definition file_cut :: "spool_file \<Rightarrow> nat \<Rightarrow> cut \<Rightarrow> spool_file" where
  "file_cut f k c =
     (if length (sfLines f) \<le> k then f
      else case c of
             CutClean \<Rightarrow> \<lparr>sfLines = take k (sfLines f), sfNewline = True\<rparr>
           | CutBad \<Rightarrow> \<lparr>sfLines = take k (sfLines f) @ [Bad], sfNewline = False\<rparr>
           | CutLine \<Rightarrow> \<lparr>sfLines = take (Suc k) (sfLines f), sfNewline = False\<rparr>)"

datatype sp_event =
    SpOpen string gotime "nat \<Rightarrow> string" "Checkpoints option" "open_fail option" disk
  | SpAppend gotime AuditRecord disk disk disk
  | SpClose gotime disk disk
  | SpCrash nat cut

datatype sp_state = Down spool_file | Up Spool

fun sp_file :: "sp_state \<Rightarrow> spool_file" where
  "sp_file (Down f) = f"
| "sp_file (Up s) = spFile s"

fun sp_step :: "(AuditRecord \<Rightarrow> string) \<Rightarrow> sp_event \<Rightarrow> sp_state \<Rightarrow> sp_state" where
  "sp_step H (SpOpen path now off cp fl d) (Down f) =
     (case OpenSpool H path now off cp fl d f of (g, Inl e) \<Rightarrow> Down g | (g, Inr s) \<Rightarrow> Up s)"
| "sp_step H (SpAppend now rec dg dr dc) (Up s) = Up (fst (Spool_Append H now s rec dg dr dc))"
| "sp_step H (SpClose now dg dc) (Up s) = Down (spFile (fst (Spool_Close H now s dg dc)))"
| "sp_step H (SpCrash k c) st = Down (file_cut (sp_file st) k c)"
| "sp_step H _ st = st"

definition sp_run :: "(AuditRecord \<Rightarrow> string) \<Rightarrow> sp_event list \<Rightarrow> sp_state" where
  "sp_run H es = fold (sp_step H) es (Down empty_file)"

definition disk_ok :: "disk \<Rightarrow> bool" where
  "disk_ok d = (case d of DiskErr e TearAll \<Rightarrow> False | _ \<Rightarrow> True)"

text \<open>
  The two conditions on the disk: a write never fails after all but its last byte is in the file,
  and a disk that refuses a gap refuses what the same call writes after it.
\<close>

fun event_ok :: "(string, bytes \<Rightarrow> string \<Rightarrow> bool) gomap \<Rightarrow> sp_event \<Rightarrow> bool" where
  "event_ok trust (SpOpen path now off cp fl d) \<longleftrightarrow> disk_ok d \<and> cp_ok trust cp"
| "event_ok trust (SpAppend now rec dg dr dc) \<longleftrightarrow>
     disk_ok dg \<and> disk_ok dr \<and> disk_ok dc \<and> (dg \<noteq> DiskOk \<longrightarrow> dr \<noteq> DiskOk) \<and>
     arEvent rec \<noteq> EventCheckpoint \<and> arLost rec = None"
| "event_ok trust (SpClose now dg dc) \<longleftrightarrow> disk_ok dg \<and> disk_ok dc \<and> (dg \<noteq> DiskOk \<longrightarrow> dc \<noteq> DiskOk)"
| "event_ok trust (SpCrash k c) \<longleftrightarrow> True"

lemma disk_okD: "disk_ok d \<Longrightarrow> d = DiskOk \<or> (\<exists>e t. d = DiskErr e t \<and> t \<noteq> TearAll)"
  by (cases d) (auto simp: disk_ok_def split: tear.splits)

definition every_ok :: "Spool \<Rightarrow> bool" where
  "every_ok s = (case spCp s of None \<Rightarrow> True | Some c \<Rightarrow> cpEvery c > 0)"

fun sp_ok :: "(AuditRecord \<Rightarrow> string) \<Rightarrow> (string, bytes \<Rightarrow> string \<Rightarrow> bool) gomap \<Rightarrow> nat \<Rightarrow> sp_state \<Rightarrow> bool" where
  "sp_ok H trust N (Down f) = file_ok H trust N (sfLines f)"
| "sp_ok H trust N (Up s) = (spool_ok H trust N s \<and> every_ok s)"

lemma sp_ok_file: "sp_ok H trust N st \<Longrightarrow> file_ok H trust N (sfLines (sp_file st))"
  by (cases st) (simp_all add: spool_ok_def base_ok_def)

lemma Append_ok:
  assumes H: "\<forall>r. H r \<noteq> []" and ok: "spool_ok H trust N s" "every_ok s" and N: "N + 3 < 2 ^ 64"
    and e: "event_ok trust (SpAppend now rec dg dr dc)"
    and app: "Spool_Append H now s rec dg dr dc = (s', r)"
  shows "spool_ok H trust (N + 3) s' \<and> every_ok s'"
proof (cases "spClosed s")
  case True
  with app ok show ?thesis by (auto simp: Spool_Append_def intro: spool_ok_more)
next
  case False
  let ?s1 = "Spool_writeGap H now s dg"
  have dg: "dg = DiskOk \<or> (\<exists>e t. dg = DiskErr e t \<and> t \<noteq> TearAll)"
    and dr: "dr = DiskOk \<or> (\<exists>e t. dr = DiskErr e t \<and> t \<noteq> TearAll)"
    and dc: "dc = DiskOk \<or> (\<exists>e t. dc = DiskErr e t \<and> t \<noteq> TearAll)" using e by (auto dest: disk_okD)
  have N1: "Suc N < 2 ^ 64" "Suc (Suc N) < 2 ^ 64" "Suc (Suc (Suc N)) < 2 ^ 64" using N by simp_all
  note g = writeGap_ok [OF H ok(1) N1(1) dg, of now]
  obtain s2 x where w: "Spool_write H now ?s1 rec dr = (s2, x)" by fastforce
  from dr show ?thesis
  proof
    assume "\<exists>e t. dr = DiskErr e t \<and> t \<noteq> TearAll"
    then obtain e' t where d: "dr = DiskErr e' t" "t \<noteq> TearAll" by blast
    have "x \<noteq> None" using w d by (auto simp: Spool_write_def Let_def)
    then have "s' = s2" using app False w by (auto simp: Spool_Append_def Let_def)
    with write_fails [OF g(1) N1(2) d(2) w [unfolded d(1)]] g(2) ok(2) show ?thesis
      by (auto simp: every_ok_def intro: spool_ok_more)
  next
    assume d: "dr = DiskOk"
    with e g(4) have none: "spLost ?s1 = None" by auto
    have s2: "spool_ok H trust (Suc (Suc N)) s2" "spLost s2 = None" "spCp s2 = spCp s" "x = None"
      using write_ordinary [OF H g(1) N1(2) none _ _ w [unfolded d]] e g(2) by auto
    show ?thesis
    proof (cases "\<exists>c. spCp s2 = Some c \<and> spSince s2 \<ge> cpEvery c")
      case True
      then obtain c where c: "spCp s2 = Some c" "spSince s2 \<ge> cpEvery c" by blast
      then have "spSince s2 > 0" using ok(2) s2(3) by (simp add: every_ok_def)
      from checkpoint_ok [OF H s2(1) N1(3) s2(2) c(1) this dc, of now]
      have "spool_ok H trust (N + 3) (Spool_checkpoint H now c s2 dc)"
        "spCp (Spool_checkpoint H now c s2 dc) = spCp s" using s2(3) by (simp_all add: numeral_3_eq_3)
      moreover have "s' = Spool_checkpoint H now c s2 dc"
        using app False w s2(4) c by (auto simp: Spool_Append_def Let_def)
      ultimately show ?thesis using ok(2) by (simp add: every_ok_def)
    next
      case nc: False
      then have "s' = s2" using app False w s2(4) by (auto simp: Spool_Append_def Let_def split: option.splits)
      with s2 ok(2) show ?thesis by (auto simp: every_ok_def intro: spool_ok_more)
    qed
  qed
qed

lemma Close_ok:
  assumes H: "\<forall>r. H r \<noteq> []" and ok: "spool_ok H trust N s" and N: "N + 3 < 2 ^ 64"
    and e: "event_ok trust (SpClose now dg dc)" and cl: "Spool_Close H now s dg dc = (s', r)"
  shows "file_ok H trust (N + 3) (sfLines (spFile s'))"
proof (cases "spClosed s")
  case True
  with cl have "s' = s" by (simp add: Spool_Close_def)
  with ok show ?thesis by (simp add: spool_ok_file)
next
  case False
  let ?s = "s\<lparr>spClosed := True\<rparr>" and ?s1 = "Spool_writeGap H now (s\<lparr>spClosed := True\<rparr>) dg"
  have okc: "spool_ok H trust N ?s" using ok by (simp add: spool_ok_closed)
  have dg: "dg = DiskOk \<or> (\<exists>e t. dg = DiskErr e t \<and> t \<noteq> TearAll)"
    and dc: "dc = DiskOk \<or> (\<exists>e t. dc = DiskErr e t \<and> t \<noteq> TearAll)" using e by (auto dest: disk_okD)
  have N1: "Suc N < 2 ^ 64" "Suc (Suc N) < 2 ^ 64" using N by simp_all
  note g = writeGap_ok [OF H okc N1(1) dg, of now]
  have f1: "file_ok H trust (N + 3) (sfLines (spFile ?s1))"
    using g(1) by (rule spool_ok_file) simp
  show ?thesis
  proof (cases "\<exists>c. spCp ?s1 = Some c \<and> spSince ?s1 > 0")
    case True
    then obtain c where c: "spCp ?s1 = Some c" "spSince ?s1 > 0" by blast
    then have s': "s' = Spool_checkpoint H now c ?s1 dc"
      using cl False by (auto simp: Spool_Close_def Let_def)
    from dc show ?thesis
    proof
      assume "dc = DiskOk"
      with e g(4) have none: "spLost ?s1 = None" by auto
      show ?thesis
        unfolding s' by (rule spool_ok_file [OF checkpoint_ok(1) [OF H g(1) N1(2) none c dc]]) simp
    next
      assume "\<exists>e t. dc = DiskErr e t \<and> t \<noteq> TearAll"
      then obtain e' t where d: "dc = DiskErr e' t" "t \<noteq> TearAll" by blast
      obtain s2 x where w: "Spool_write H now ?s1 ((audit_record EventCheckpoint [])\<lparr>arSigner := cpKeyID c,
          arSignature := cpSign c (checkpointPayload (spSeq ?s1) (spPrev ?s1))\<rparr>) dc = (s2, x)" by fastforce
      have "x \<noteq> None" using w d by (auto simp: Spool_write_def Let_def)
      with s' w have "s' = s2" by (auto simp: Spool_checkpoint_def Let_def)
      with write_fails [OF g(1) N1(2) d(2) w [unfolded d(1)]] show ?thesis
        using spool_ok_file [of H trust "Suc (Suc N)" s2 "N + 3"] by simp
    qed
  next
    case nc: False
    then have "s' = ?s1" using cl False by (auto simp: Spool_Close_def Let_def split: option.splits)
    with f1 show ?thesis by simp
  qed
qed

lemma scan_file:
  assumes "file_ok H trust N (sfLines f)"
  shows "seHash (scanSpool f) = (case last_rec (sfLines f) of None \<Rightarrow> [] | Some p \<Rightarrow> arHash p)"
    "seSeq (scanSpool f) = (case last_rec (sfLines f) of None \<Rightarrow> 0 | Some p \<Rightarrow> arSeq p)"
    "seNewline (scanSpool f) = sfNewline f"
    "seTorn (scanSpool f) = None \<Longrightarrow> torn_of H trust (sfLines f) = 0"
    "unat (seSeq (scanSpool f)) \<le> N"
proof -
  let ?e = "\<lparr>seSeq = 0, seHash = [], seTorn = None, seNewline = sfNewline f\<rparr>"
  obtain v where v: "verify_lines H trust 1 (sfLines f) verify_init = Inr v" "growing (sfLines f)"
    "\<forall>r \<in> set (recs (sfLines f)). arHash r \<noteq> [] \<and> unat (arSeq r) \<le> N"
    using assms by (auto simp: file_ok_def)
  show "seHash (scanSpool f) = (case last_rec (sfLines f) of None \<Rightarrow> [] | Some p \<Rightarrow> arHash p)"
    by (simp add: scanSpool_def scan_hash last_rec_def)
  show sq: "seSeq (scanSpool f) = (case last_rec (sfLines f) of None \<Rightarrow> 0 | Some p \<Rightarrow> arSeq p)"
    using scan_seq [OF v(2), of ?e 0] by (simp add: scanSpool_def last_rec_def)
  show "seNewline (scanSpool f) = sfNewline f" by (simp add: scanSpool_def scan_newline)
  show "torn_of H trust (sfLines f) = 0" if "seTorn (scanSpool f) = None"
    using scan_torn [OF v(1), of ?e 0] v that by (auto simp: scanSpool_def torn_of_def verify_init_def)
  show "unat (seSeq (scanSpool f)) \<le> N"
    using sq v(3) by (auto simp: last_rec_def split: if_splits)
qed

lemma opened_ok:
  assumes "file_ok H trust N (sfLines f)" "cp_ok trust cp"
  shows "base_ok H trust N (opened cp f)" "every_ok (opened cp f)" "spLost (opened cp f) = None"
    "spFile (opened cp f) = f" "\<forall>p. last_rec (sfLines f) = Some p \<longrightarrow> arSeq p = spSeq (opened cp f)"
proof -
  note sc = scan_file [OF assms(1)]
  have "cp_ok trust (spCp (opened cp f))"
    using assms(2) by (auto simp: opened_def Let_def cp_ok_def split: option.splits)
  then show "base_ok H trust N (opened cp f)" using assms(1) sc by (simp add: base_ok_def opened_def Let_def)
  show "every_ok (opened cp f)"
    by (auto simp: every_ok_def opened_def Let_def DefaultCheckpointEvery_def split: option.splits)
  show "spLost (opened cp f) = None" "spFile (opened cp f) = f" by (simp_all add: opened_def Let_def)
  show "\<forall>p. last_rec (sfLines f) = Some p \<longrightarrow> arSeq p = spSeq (opened cp f)"
    using sc(2) by (auto simp: opened_def Let_def)
qed

lemma Open_ok:
  assumes H: "\<forall>r. H r \<noteq> []" and ok: "file_ok H trust N (sfLines f)" and N: "N + 3 < 2 ^ 64"
    and e: "disk_ok d" "cp_ok trust cp"
  shows "sp_ok H trust (N + 3) (sp_step H (SpOpen path now off cp fl d) (Down f))"
proof (cases "fl = None", cases "seTorn (scanSpool f)")
  case False
  with ok show ?thesis by (auto simp: OpenSpool_def file_ok_more [of H trust N] split: open_fail.splits)
next
  case None
  assume fl: "fl = None"
  note o = opened_ok [OF ok e(2)]
  from None o scan_file(4) [OF ok None] have "spool_ok H trust N (opened cp f)"
    by (simp add: spool_ok_def lost_ok_def)
  with fl None o show ?thesis by (auto simp: OpenSpool_def intro: spool_ok_more)
next
  case (Some i)
  assume fl: "fl = None"
  note o = opened_ok [OF ok e(2)]
  let ?s = "opened cp f" and ?gap = "torn_gap off i"
  have gap: "arEvent ?gap = EventGap" "arLost ?gap = None" by (simp_all add: torn_gap_def audit_record_def)
  obtain s1 x where w: "Spool_write H now ?s ?gap d = (s1, x)" by fastforce
  from disk_okD [OF e(1)] show ?thesis
  proof
    assume d: "d = DiskOk"
    have "spPrev ?s = (case last_rec (sfLines f) of None \<Rightarrow> [] | Some p \<Rightarrow> arHash p)"
      using o(1,4) by (simp add: base_ok_def)
    with o(4,5) gap have "verify_chain (last_rec (sfLines (spFile ?s))) (sealed H now ?s ?gap) = None"
      by (auto simp: verify_chain_def verify_want_def Let_def split: option.splits)
    from write_succeeds [OF H o(1) _ this _ _ _ w [unfolded d] o(3)] N o(4,5) gap
    have "spool_ok H trust (Suc N) s1 \<and> spCp s1 = spCp ?s \<and> x = None"
      by (auto simp: EventGap_def EventCheckpoint_def)
    with w fl Some o(2) show ?thesis by (auto simp: OpenSpool_def every_ok_def intro: spool_ok_more)
  next
    assume "\<exists>e t. d = DiskErr e t \<and> t \<noteq> TearAll"
    then obtain e' t where d: "d = DiskErr e' t" "t \<noteq> TearAll" by blast
    have x: "x \<noteq> None" and f1: "spFile s1 = file_write (spFile ?s) (spNewline ?s) (sealed H now ?s ?gap) d"
      using w d by (auto simp: Spool_write_def Let_def)
    have "\<not> spNewline ?s \<longrightarrow> sfNewline (spFile ?s)" using o(1) by (simp add: base_ok_def)
    from file_write_fails(1) [OF _ this d(2)] ok f1 d(1) o(4)
    have "file_ok H trust N (sfLines (spFile s1))" by simp
    then have "file_ok H trust (N + 3) (sfLines (spFile s1))" by (rule file_ok_more) simp
    with w fl Some x show ?thesis by (auto simp: OpenSpool_def)
  qed
qed

lemma file_cut_ok: "file_ok H trust N (sfLines f) \<Longrightarrow> file_ok H trust N (sfLines (file_cut f k c))"
  by (cases c) (auto simp: file_cut_def intro: file_ok_take file_ok_noise)

lemma sp_step_ok:
  assumes H: "\<forall>r. H r \<noteq> []" and ok: "sp_ok H trust N st" and N: "N + 3 < 2 ^ 64" and e: "event_ok trust ev"
  shows "sp_ok H trust (N + 3) (sp_step H ev st)"
proof (cases ev)
  case (SpOpen path now off cp fl d)
  show ?thesis
  proof (cases st)
    case (Down f)
    with Open_ok [OF H _ N, of trust f d cp path now off fl] SpOpen ok e show ?thesis by simp
  qed (use SpOpen ok in \<open>simp add: spool_ok_more [of H trust N]\<close>)
next
  case (SpAppend now rec dg dr dc)
  show ?thesis
  proof (cases st)
    case (Up s)
    obtain s' r where "Spool_Append H now s rec dg dr dc = (s', r)" by fastforce
    with Append_ok [OF H _ _ N e [unfolded SpAppend] this] SpAppend Up ok show ?thesis by simp
  qed (use SpAppend ok in \<open>simp add: file_ok_more [of H trust N]\<close>)
next
  case (SpClose now dg dc)
  show ?thesis
  proof (cases st)
    case (Up s)
    obtain s' r where "Spool_Close H now s dg dc = (s', r)" by fastforce
    with Close_ok [OF H _ N e [unfolded SpClose] this] SpClose Up ok show ?thesis by simp
  qed (use SpClose ok in \<open>simp add: file_ok_more [of H trust N]\<close>)
next
  case (SpCrash k c)
  have "file_ok H trust (N + 3) (sfLines (file_cut (sp_file st) k c))"
    by (rule file_ok_more [OF file_cut_ok [OF sp_ok_file [OF ok]]]) simp
  with SpCrash show ?thesis by (cases st) simp_all
qed

lemma sp_run_ok:
  assumes H: "\<forall>r. H r \<noteq> []" and "\<forall>e \<in> set es. event_ok trust e" and "3 * length es < 2 ^ 64"
  shows "sp_ok H trust (3 * length es) (sp_run H es)"
  using assms(2,3)
proof (induction es rule: rev_induct)
  case Nil
  show ?case by (simp add: sp_run_def empty_file_def file_ok_def growing_def)
next
  case (snoc e es)
  then have "sp_ok H trust (3 * length es) (sp_run H es)" by simp
  from sp_step_ok [OF H this _ , of e] snoc.prems show ?case
    by (simp add: sp_run_def algebra_simps)
qed


definition demo_hash :: "AuditRecord \<Rightarrow> string" where
  "demo_hash r = FormatUint (arSeq r) @ ''/'' @ arEvent r @ ''/'' @ arPrevHash r"

definition demo_rec :: AuditRecord where
  "demo_rec = audit_record ''clone'' []"

definition demo_cp :: Checkpoints where
  "demo_cp = \<lparr>cpKeyID = ''home'', cpSign = (\<lambda>m. ''sig:'' @ m), cpEvery = 2\<rparr>"

definition demo_trust :: "(string, bytes \<Rightarrow> string \<Rightarrow> bool) gomap" where
  "demo_trust = [(''home'', \<lambda>m sig. sig = ''sig:'' @ m)]"

definition demo_events :: "sp_event list" where
  "demo_events =
     [SpOpen ''p'' 1 (\<lambda>n. []) (Some demo_cp) None DiskOk,
      SpAppend 2 demo_rec DiskOk DiskOk DiskOk,
      SpAppend 3 demo_rec DiskOk (DiskErr (ENew ''full'') TearPart) DiskOk,
      SpAppend 4 demo_rec DiskOk DiskOk DiskOk,
      SpCrash 3 CutBad,
      SpOpen ''p'' 5 (\<lambda>n. ''180'') (Some demo_cp) None DiskOk,
      SpAppend 6 demo_rec DiskOk DiskOk DiskOk,
      SpClose 7 DiskOk DiskOk]"

lemmas demo_spool = demo_hash_def demo_rec_def demo_cp_def demo_trust_def demo_events_def




section \<open>Tamper evidence\<close>

definition chained :: "line list \<Rightarrow> AuditRecord list" where
  "chained xs = filter (\<lambda>r. arHash r \<noteq> []) (recs xs)"

fun links :: "(AuditRecord \<Rightarrow> string) \<Rightarrow> string \<Rightarrow> AuditRecord list \<Rightarrow> bool" where
  "links H p [] = True"
| "links H p (r # rs) \<longleftrightarrow>
     arHash r = recordHash H r \<and> arHash r \<noteq> [] \<and> arPrevHash r = p \<and> links H (arHash r) rs"

definition end_hash :: "string \<Rightarrow> AuditRecord list \<Rightarrow> string" where
  "end_hash p rs = (if rs = [] then p else arHash (last rs))"

lemma links_snoc:
  "links H p (rs @ [r]) \<longleftrightarrow>
     links H p rs \<and> arHash r = recordHash H r \<and> arHash r \<noteq> [] \<and> arPrevHash r = end_hash p rs"
  by (induction rs arbitrary: p) (auto simp: end_hash_def)

lemma verify_links:
  assumes "verify_lines H trust n xs v = Inr v'"
  shows "links H (case vsPrev v of None \<Rightarrow> [] | Some p \<Rightarrow> arHash p) (chained xs)"
  using assms
proof (induction xs arbitrary: n v)
  case (Cons x xs)
  then obtain v1 where v1: "verify_line H trust n x v = Inr v1" "verify_lines H trust (Suc n) xs v1 = Inr v'"
    by (auto split: sum.splits)
  from Cons.IH [OF v1(2)] v1(1) show ?case
    by (cases x)
       (auto simp: verify_line_def verify_record_def verify_chain_def count_record_def chained_def Let_def
             split: if_splits option.splits)
qed (simp add: chained_def)

lemma links_commit:
  assumes "links H [] xs" "links H [] ys" "end_hash [] xs = end_hash [] ys"
    and "inj_on (\<lambda>r. H (r\<lparr>arHash := []\<rparr>)) ((\<lambda>r. r\<lparr>arHash := []\<rparr>) ` (set xs \<union> set ys))"
  shows "xs = ys"
  using assms
proof (induction xs arbitrary: ys rule: rev_induct)
  case Nil
  then show ?case by (cases ys rule: rev_cases) (auto simp: links_snoc, simp add: end_hash_def)
next
  case (snoc a xs)
  from snoc.prems(1,3) obtain ys' b where ys: "ys = ys' @ [b]"
    by (cases ys rule: rev_cases) (auto simp: links_snoc end_hash_def)
  note l = snoc.prems(1,2) [unfolded ys links_snoc]
  have hash: "arHash a = arHash b" using snoc.prems(3) ys by (simp add: end_hash_def)
  then have "H (a\<lparr>arHash := []\<rparr>) = H (b\<lparr>arHash := []\<rparr>)" using l by (simp add: recordHash_def)
  then have eq: "a\<lparr>arHash := []\<rparr> = b\<lparr>arHash := []\<rparr>"
    using inj_onD [OF snoc.prems(4), of "a\<lparr>arHash := []\<rparr>" "b\<lparr>arHash := []\<rparr>"] ys by simp
  have "a = (a\<lparr>arHash := []\<rparr>)\<lparr>arHash := arHash a\<rparr>" by simp
  also have "\<dots> = b" unfolding eq hash by simp
  finally have ab: "a = b" .
  have "end_hash [] xs = end_hash [] ys'" using l ab by simp
  moreover have "inj_on (\<lambda>r. H (r\<lparr>arHash := []\<rparr>)) ((\<lambda>r. r\<lparr>arHash := []\<rparr>) ` (set xs \<union> set ys'))"
    using snoc.prems(4) by (rule inj_on_subset) (auto simp: ys)
  ultimately have "xs = ys'" using snoc.IH l by blast
  with ab ys show ?case by simp
qed

text \<open>
  C30. The hash of the last record commits to the whole chain. Two spools that both verify and end in
  the same hash hold the same chained records, field for field and in the same order, provided the
  hash does not collide on those records. So whoever keeps the last hash (a signed checkpoint does)
  detects any edit, removal or reordering before it.
\<close>

theorem last_hash_commits:
  assumes "VerifySpool H trust f = Inr a" "VerifySpool H trust' g = Inr b"
    and "end_hash [] (chained (sfLines f)) = end_hash [] (chained (sfLines g))"
    and "inj_on (\<lambda>r. H (r\<lparr>arHash := []\<rparr>))
           ((\<lambda>r. r\<lparr>arHash := []\<rparr>) ` (set (chained (sfLines f)) \<union> set (chained (sfLines g))))"
  shows "chained (sfLines f) = chained (sfLines g)"
proof (rule links_commit [OF _ _ assms(3,4)])
  show "links H [] (chained (sfLines f))" "links H [] (chained (sfLines g))"
    using assms(1,2) verify_links [of H _ 1 _ verify_init]
    by (auto simp: VerifySpool_def verify_init_def split: sum.splits)
qed

definition demo_file :: spool_file where
  "demo_file = sp_file (sp_run demo_hash
     [SpOpen ''p'' 1 (\<lambda>n. []) None None DiskOk, SpAppend 2 demo_rec DiskOk DiskOk DiskOk,
      SpAppend 3 demo_rec DiskOk DiskOk DiskOk])"

definition demo_torn :: spool_file where
  "demo_torn = file_put demo_file Bad False"

lemma inj_on_remdups: "distinct (map f (remdups xs)) \<Longrightarrow> inj_on f (set xs)"
  by (simp add: distinct_map)

theorem last_hash_commits_witness:
  "chained (sfLines demo_file) = chained (sfLines demo_torn) \<and> length (chained (sfLines demo_file)) = 2"
proof
  have v: "\<not> isl (VerifySpool demo_hash [] demo_file)" "\<not> isl (VerifySpool demo_hash [] demo_torn)"
    by code_simp+
  have e: "end_hash [] (chained (sfLines demo_file)) = end_hash [] (chained (sfLines demo_torn))" by code_simp
  have "distinct (map (\<lambda>r. demo_hash (r\<lparr>arHash := []\<rparr>))
          (remdups (map (\<lambda>r. r\<lparr>arHash := []\<rparr>) (chained (sfLines demo_file) @ chained (sfLines demo_torn)))))"
    by code_simp
  from inj_on_remdups [OF this] have "inj_on (\<lambda>r. demo_hash (r\<lparr>arHash := []\<rparr>))
      ((\<lambda>r. r\<lparr>arHash := []\<rparr>) ` (set (chained (sfLines demo_file)) \<union> set (chained (sfLines demo_torn))))"
    by (simp add: image_Un)
  then show "chained (sfLines demo_file) = chained (sfLines demo_torn)"
    using v e by (cases "VerifySpool demo_hash [] demo_file"; cases "VerifySpool demo_hash [] demo_torn")
                 (auto intro: last_hash_commits)
  show "length (chained (sfLines demo_file)) = 2" by code_simp
qed

end
