(* ===== verification/Group_Commit.thy ===== *)
theory Group_Commit
  imports Audit_Spool
begin

text \<open>
  \<open>pkg/core/audit.go\<close>, group commit: \<open>syncThrough\<close> and \<open>Poisoned\<close>, with the interleavings of any
  number of goroutines in \<open>Append\<close> and \<open>Close\<close>.

  The counters \<open>written\<close> and \<open>synced\<close> count records written to the file since the process opened
  it. A call is where one goroutine is: at the top of the loop (\<open>Top n\<close>, about to take
  \<open>syncMu\<close>), in \<open>syncCond.Wait\<close>, leading an fsync that has not reached the kernel (\<open>Lead n upto\<close>), in
  the kernel (\<open>Flying\<close>, with what was written when the kernel began), or returned. What runs under
  \<open>syncMu\<close> is one step.

  \<open>gDurable\<close> and \<open>gDropped\<close> are the kernel's side, which the code cannot read: how many records are
  on the disk, and whether a failed fsync has dropped pages, after which no later fsync writes them.
\<close>

section \<open>The loop\<close>

datatype call =
    Top nat
  | Waiting nat
  | Lead nat nat
  | Flying nat nat nat
  | Returned nat "goerr option"

record gc =
  gWritten :: nat
  gSyncing :: bool
  gSynced :: nat
  gPoison :: "goerr option"
  gCalls :: "call list"
  gDurable :: nat
  gDropped :: bool

definition gc_init :: gc where
  "gc_init = \<lparr>gWritten = 0, gSyncing = False, gSynced = 0, gPoison = None, gCalls = [], gDurable = 0, gDropped = False\<rparr>"

definition Poisoned :: "gc \<Rightarrow> goerr option" where
  "Poisoned g = (case gPoison g of Some p \<Rightarrow> Some p | None \<Rightarrow> None)"

definition at_call :: "nat \<Rightarrow> call \<Rightarrow> gc \<Rightarrow> gc" where
  "at_call i c g = g\<lparr>gCalls := (gCalls g)[i := c]\<rparr>"

text \<open>The switch at the top of the loop, up to the point where the leader releases \<open>syncMu\<close>.\<close>

definition syncThrough_top :: "nat \<Rightarrow> nat \<Rightarrow> gc \<Rightarrow> gc" where
  "syncThrough_top i n g =
     (if gSynced g \<ge> n then at_call i (Returned n None) g
      else case gPoison g of
             Some p \<Rightarrow> at_call i (Returned n (Some p)) g
           | None \<Rightarrow>
               if gSyncing g then at_call i (Waiting n) g
               else at_call i (Lead n (gWritten g)) (g\<lparr>gSyncing := True\<rparr>))"

fun wake :: "call \<Rightarrow> call" where
  "wake (Waiting n) = Top n"
| "wake c = c"

text \<open>From the return of \<open>fsync\<close> to the end of the loop body.\<close>

definition syncThrough_end :: "nat \<Rightarrow> nat \<Rightarrow> nat \<Rightarrow> goerr option \<Rightarrow> gc \<Rightarrow> gc" where
  "syncThrough_end i n u err g =
     (let g1 = g\<lparr>gSyncing := False\<rparr>;
          g2 = (case err of Some e \<Rightarrow> g1\<lparr>gPoison := Some e\<rparr> | None \<Rightarrow> g1\<lparr>gSynced := max (gSynced g1) u\<rparr>)
      in g2\<lparr>gCalls := map wake ((gCalls g2)[i := Top n])\<rparr>)"

definition kernel_end :: "nat \<Rightarrow> goerr option \<Rightarrow> gc \<Rightarrow> gc" where
  "kernel_end k err g =
     (case err of
        Some e \<Rightarrow> g\<lparr>gDropped := True\<rparr>
      | None \<Rightarrow> if gDropped g then g else g\<lparr>gDurable := max (gDurable g) k\<rparr>)"

text \<open>
  \<open>GAppend k\<close> is a \<open>Sync\<close> append (or \<open>Close\<close>) that wrote \<open>k\<close> records, a gap and a checkpoint
  included, and goes on to \<open>syncThrough\<close>; \<open>GBest k\<close> is one that returns without waiting.
\<close>

datatype gc_event = GAppend nat | GBest nat | GTop nat | GBegin nat | GEnd nat "goerr option"

definition gc_step :: "gc_event \<Rightarrow> gc \<Rightarrow> gc option" where
  "gc_step e g =
     (case e of
        GAppend k \<Rightarrow> Some (g\<lparr>gWritten := gWritten g + k, gCalls := gCalls g @ [Top (gWritten g + k)]\<rparr>)
      | GBest k \<Rightarrow> Some (g\<lparr>gWritten := gWritten g + k\<rparr>)
      | GTop i \<Rightarrow>
          if i < length (gCalls g)
          then (case gCalls g ! i of Top n \<Rightarrow> Some (syncThrough_top i n g) | _ \<Rightarrow> None) else None
      | GBegin i \<Rightarrow>
          if i < length (gCalls g)
          then (case gCalls g ! i of Lead n u \<Rightarrow> Some (at_call i (Flying n u (gWritten g)) g) | _ \<Rightarrow> None) else None
      | GEnd i err \<Rightarrow>
          if i < length (gCalls g)
          then (case gCalls g ! i of
                  Flying n u k \<Rightarrow> Some (syncThrough_end i n u err (kernel_end k err g)) | _ \<Rightarrow> None) else None)"

fun gc_run :: "gc_event list \<Rightarrow> gc \<Rightarrow> gc option" where
  "gc_run [] g = Some g"
| "gc_run (e # es) g = (case gc_step e g of None \<Rightarrow> None | Some g' \<Rightarrow> gc_run es g')"

section \<open>The invariant\<close>

fun leads :: "call \<Rightarrow> bool" where
  "leads (Lead n u) = True"
| "leads (Flying n u k) = True"
| "leads c = False"

fun call_ok :: "gc \<Rightarrow> call \<Rightarrow> bool" where
  "call_ok g (Top n) \<longleftrightarrow> n \<le> gWritten g"
| "call_ok g (Waiting n) \<longleftrightarrow> n \<le> gWritten g \<and> gSyncing g"
| "call_ok g (Lead n u) \<longleftrightarrow> gSynced g < n \<and> n \<le> u \<and> u \<le> gWritten g \<and> gSyncing g"
| "call_ok g (Flying n u k) \<longleftrightarrow> gSynced g < n \<and> n \<le> u \<and> u \<le> k \<and> k \<le> gWritten g \<and> gSyncing g"
| "call_ok g (Returned n None) \<longleftrightarrow> n \<le> gSynced g"
| "call_ok g (Returned n (Some e)) \<longleftrightarrow> gPoison g = Some e"

definition gc_ok :: "gc \<Rightarrow> bool" where
  "gc_ok g \<longleftrightarrow>
     gSynced g \<le> gDurable g \<and> gDurable g \<le> gWritten g \<and> gDropped g = (gPoison g \<noteq> None) \<and>
     (gPoison g \<noteq> None \<longrightarrow> \<not> gSyncing g) \<and> (\<forall>c \<in> set (gCalls g). call_ok g c) \<and>
     (gSyncing g \<longrightarrow> (\<exists>i < length (gCalls g). leads (gCalls g ! i))) \<and>
     (\<forall>i j. i < length (gCalls g) \<and> j < length (gCalls g) \<and> leads (gCalls g ! i) \<and> leads (gCalls g ! j) \<longrightarrow> i = j)"

lemma gc_okD:
  assumes "gc_ok g"
  shows "gSynced g \<le> gDurable g" "gDurable g \<le> gWritten g" "gDropped g = (gPoison g \<noteq> None)"
    "gPoison g \<noteq> None \<Longrightarrow> \<not> gSyncing g" "c \<in> set (gCalls g) \<Longrightarrow> call_ok g c"
    "gSyncing g \<Longrightarrow> \<exists>i < length (gCalls g). leads (gCalls g ! i)"
    "\<lbrakk>i < length (gCalls g); j < length (gCalls g); leads (gCalls g ! i); leads (gCalls g ! j)\<rbrakk> \<Longrightarrow> i = j"
  using assms unfolding gc_ok_def by blast+

lemma gc_okI:
  assumes "gSynced g \<le> gDurable g" "gDurable g \<le> gWritten g" "gDropped g = (gPoison g \<noteq> None)"
    "gPoison g \<noteq> None \<Longrightarrow> \<not> gSyncing g" "\<And>c. c \<in> set (gCalls g) \<Longrightarrow> call_ok g c"
    "gSyncing g \<Longrightarrow> \<exists>i < length (gCalls g). leads (gCalls g ! i)"
    "\<And>i j. \<lbrakk>i < length (gCalls g); j < length (gCalls g); leads (gCalls g ! i); leads (gCalls g ! j)\<rbrakk> \<Longrightarrow> i = j"
  shows "gc_ok g"
  using assms unfolding gc_ok_def by blast

lemma leads_wake [simp]: "leads (wake c) = leads c"
  by (cases c) simp_all

lemma leads_syncing: "gc_ok g \<Longrightarrow> c \<in> set (gCalls g) \<Longrightarrow> leads c \<Longrightarrow> gSyncing g"
  by (drule (1) gc_okD(5)) (cases c; simp)

lemma call_ok_more:
  assumes "call_ok g c" "gSynced g' = gSynced g" "gWritten g \<le> gWritten g'" "gSyncing g \<longrightarrow> gSyncing g'"
    "gPoison g \<noteq> None \<longrightarrow> gPoison g' = gPoison g"
  shows "call_ok g' c"
  using assms by (cases "(g, c)" rule: call_ok.cases) auto

lemma calls_ok_more:
  assumes "gc_ok g" "c \<in> set (gCalls g)" "gSynced g' = gSynced g" "gWritten g \<le> gWritten g'"
    "gSyncing g \<longrightarrow> gSyncing g'" "gPoison g \<noteq> None \<longrightarrow> gPoison g' = gPoison g"
  shows "call_ok g' c"
  using gc_okD(5) [OF assms(1,2)] assms(3-) by (rule call_ok_more)

lemma at_call_ok: "call_ok (at_call i c' g) c = call_ok g c"
  by (cases "(g, c)" rule: call_ok.cases) (simp_all add: at_call_def)

lemma in_at_call: "c \<in> set (gCalls (at_call i c' g)) \<Longrightarrow> c = c' \<or> c \<in> set (gCalls g)"
  using set_update_subset_insert [of "gCalls g" i c'] by (auto simp: at_call_def)

lemma top_ok:
  assumes ok: "gc_ok g" and i: "i < length (gCalls g)" "gCalls g ! i = Top n"
  shows "gc_ok (syncThrough_top i n g)"
proof -
  have n: "n \<le> gWritten g" using gc_okD(5) [OF ok nth_mem [OF i(1)]] i(2) by simp
  note d = gc_okD [OF ok]
  have keep: "gc_ok (at_call i c g)" if c: "call_ok g c" "\<not> leads c" for c
  proof (rule gc_okI, goal_cases)
    case (5 c') then show ?case
      using c(1) d(5) by (auto simp: at_call_ok dest!: in_at_call)
  next
    case 6
    then obtain j where "j < length (gCalls g)" "leads (gCalls g ! j)" using d(6) by (auto simp: at_call_def)
    then show ?case using i by (intro exI [of _ j]) (auto simp: at_call_def nth_list_update)
  next
    case (7 j k) then show ?case using c(2) d(7) [of j k] i(1) by (cases "j = i"; cases "k = i") (simp_all add: at_call_def)
  qed (use d(1-4) in \<open>simp_all add: at_call_def\<close>)
  show ?thesis
  proof (cases "gSynced g \<ge> n \<or> gPoison g \<noteq> None \<or> gSyncing g")
    case True
    then show ?thesis using keep n by (auto simp: syncThrough_top_def split: option.splits)
  next
    case False
    let ?g = "at_call i (Lead n (gWritten g)) (g\<lparr>gSyncing := True\<rparr>)"
    have free: "\<not> leads (gCalls g ! j)" if "j < length (gCalls g)" for j
      using leads_syncing [OF ok nth_mem [OF that]] False by blast
    have "gc_ok ?g"
    proof (rule gc_okI, goal_cases)
      case (5 c) then show ?case
        using n False by (auto simp: at_call_ok dest!: in_at_call intro: calls_ok_more [OF ok])
    next
      case 6 then show ?case using i by (intro exI [of _ i]) (simp add: at_call_def)
    next
      case (7 j k) then show ?case using free i(1) by (cases "j = i"; cases "k = i") (simp_all add: at_call_def)
    qed (use d(1-4) False in \<open>simp_all add: at_call_def\<close>)
    then show ?thesis using False by (auto simp: syncThrough_top_def)
  qed
qed

lemma begin_ok:
  assumes ok: "gc_ok g" and i: "i < length (gCalls g)" "gCalls g ! i = Lead n u"
  shows "gc_ok (at_call i (Flying n u (gWritten g)) g)"
proof -
  have n: "n \<le> u" "u \<le> gWritten g" "gSyncing g" "gSynced g < n" using gc_okD(5) [OF ok nth_mem [OF i(1)]] i(2) by simp_all
  note d = gc_okD [OF ok]
  show ?thesis
  proof (rule gc_okI, goal_cases)
    case (5 c) then show ?case
      using n d(5) by (auto simp: at_call_ok dest!: in_at_call)
  next
    case 6 then show ?case using i by (intro exI [of _ i]) (simp add: at_call_def)
  next
    case (7 j k) then show ?case
      using d(7) [of j k] d(7) [of i j] d(7) [of i k] i by (cases "j = i"; cases "k = i") (simp_all add: at_call_def)
  qed (use d(1-4) in \<open>simp_all add: at_call_def\<close>)
qed

lemma end_fields:
  "gSyncing (syncThrough_end i n u err g) = False"
  "gSynced (syncThrough_end i n u err g) = (if err = None then max (gSynced g) u else gSynced g)"
  "gPoison (syncThrough_end i n u err g) = (case err of Some e \<Rightarrow> Some e | None \<Rightarrow> gPoison g)"
  "gWritten (syncThrough_end i n u err g) = gWritten g" "gDurable (syncThrough_end i n u err g) = gDurable g"
  "gDropped (syncThrough_end i n u err g) = gDropped g"
  "gCalls (syncThrough_end i n u err g) = map wake ((gCalls g)[i := Top n])"
  by (simp_all add: syncThrough_end_def Let_def split: option.splits)

lemma kernel_fields:
  "gSyncing (kernel_end k err g) = gSyncing g" "gSynced (kernel_end k err g) = gSynced g"
  "gPoison (kernel_end k err g) = gPoison g" "gWritten (kernel_end k err g) = gWritten g"
  "gDurable (kernel_end k err g) = (if err = None \<and> \<not> gDropped g then max (gDurable g) k else gDurable g)"
  "gDropped (kernel_end k err g) = (gDropped g \<or> err \<noteq> None)"
  "gCalls (kernel_end k err g) = gCalls g"
  by (auto simp: kernel_end_def split: option.splits)

lemma end_ok:
  assumes ok: "gc_ok g" and i: "i < length (gCalls g)" "gCalls g ! i = Flying n u k"
  shows "gc_ok (syncThrough_end i n u err (kernel_end k err g))" (is "gc_ok ?g")
proof -
  have n: "n \<le> u" "u \<le> k" "k \<le> gWritten g" "gSyncing g"
    using gc_okD(5) [OF ok nth_mem [OF i(1)]] i(2) by simp_all
  note d = gc_okD [OF ok]
  have p: "gPoison g = None" "\<not> gDropped g" using d(3,4) n(4) by auto
  have free: "\<not> leads ((gCalls g)[i := Top n] ! j)" if "j < length (gCalls g)" for j
    using d(7) [of i j] i that by (auto simp: nth_list_update)
  show ?thesis
  proof (rule gc_okI, goal_cases)
    case (5 c)
    then obtain c' where c': "c = wake c'" "c' \<in> set ((gCalls g)[i := Top n])" by (auto simp: end_fields kernel_fields)
    then have "\<not> leads c'" using free by (auto simp: in_set_conv_nth)
    moreover have "c' = Top n \<or> call_ok g c'" 
      using set_update_subset_insert [of "gCalls g" i "Top n"] c'(2) d(5) [of c'] by auto
    ultimately show ?case using c'(1) n p
      by (cases "(g, c')" rule: call_ok.cases) (auto simp: end_fields kernel_fields)
  next
    case (7 j l) then show ?case using free by (simp add: end_fields kernel_fields)
  qed (use d(1-3) n p in \<open>auto simp: end_fields kernel_fields split: option.splits\<close>)
qed

lemma write_ok:
  assumes ok: "gc_ok g" and n: "n \<le> gWritten g + k"
  shows "gc_ok (g\<lparr>gWritten := gWritten g + k\<rparr>)"
    "gc_ok (g\<lparr>gWritten := gWritten g + k, gCalls := gCalls g @ [Top n]\<rparr>)"
proof -
  note d = gc_okD [OF ok]
  show "gc_ok (g\<lparr>gWritten := gWritten g + k\<rparr>)"
    by (rule gc_okI) (use d(1-4,6) in \<open>auto intro: calls_ok_more [OF ok] d(7)\<close>)
  show "gc_ok (g\<lparr>gWritten := gWritten g + k, gCalls := gCalls g @ [Top n]\<rparr>)" (is "gc_ok ?g")
  proof (rule gc_okI, goal_cases)
    case (5 c) then show ?case using n by (auto intro: calls_ok_more [OF ok])
  next
    case 6
    then obtain j where "j < length (gCalls g)" "leads (gCalls g ! j)" using d(6) by auto
    then show ?case by (intro exI [of _ j]) (auto simp: nth_append)
  next
    case (7 j l) then show ?case
      using d(7) [of j l] by (auto simp: nth_append less_Suc_eq split: if_splits)
  qed (use d(1-4) in auto)
qed

lemma gc_step_cases [consumes 1, case_names append best top begin_ end_]:
  assumes "gc_step e g = Some g'"
  obtains k where "e = GAppend k" "g' = g\<lparr>gWritten := gWritten g + k, gCalls := gCalls g @ [Top (gWritten g + k)]\<rparr>"
  | k where "e = GBest k" "g' = g\<lparr>gWritten := gWritten g + k\<rparr>"
  | i n where "e = GTop i" "i < length (gCalls g)" "gCalls g ! i = Top n" "g' = syncThrough_top i n g"
  | i n u where "e = GBegin i" "i < length (gCalls g)" "gCalls g ! i = Lead n u"
      "g' = at_call i (Flying n u (gWritten g)) g"
  | i err n u k where "e = GEnd i err" "i < length (gCalls g)" "gCalls g ! i = Flying n u k"
      "g' = syncThrough_end i n u err (kernel_end k err g)"
  using assms
  by (cases e) (simp_all add: gc_step_def split: if_splits call.splits)

lemma gc_step_ok:
  assumes "gc_step e g = Some g'" "gc_ok g"
  shows "gc_ok g'"
  using assms(1)
proof (cases rule: gc_step_cases)
  case (append k)
  then show ?thesis using write_ok(2) [OF assms(2) order_refl, of k] by simp
next
  case (best k)
  then show ?thesis using write_ok(1) [OF assms(2) order_refl, of k] by simp
qed (use assms(2) in \<open>simp_all add: top_ok begin_ok end_ok\<close>)

lemma gc_run_ok: "gc_run es g = Some g' \<Longrightarrow> gc_ok g \<Longrightarrow> gc_ok g'"
proof (induction es arbitrary: g)
  case (Cons e es)
  then obtain g1 where g1: "gc_step e g = Some g1" "gc_run es g1 = Some g'" by (auto split: option.splits)
  from Cons.IH [OF g1(2) gc_step_ok [OF g1(1) Cons.prems(2)]] show ?case .
qed simp

lemma gc_init_ok: "gc_ok gc_init"
  by (simp add: gc_ok_def gc_init_def)

section \<open>Durability\<close>

text \<open>
  C33. A \<open>Sync\<close> append that returns nil is on the disk: however appends and fsyncs interleave, and
  even though a failed fsync drops pages for good, the record's number is within what a successful
  fsync begun after its write has made durable, with no fsync having failed before it. Any other
  return hands the caller the failure that poisoned the spool.
\<close>

theorem sync_append_durable:
  assumes "gc_run es gc_init = Some g" and "Returned n r \<in> set (gCalls g)"
  shows "case r of None \<Rightarrow> n \<le> gDurable g | Some e \<Rightarrow> Poisoned g = Some e"
proof -
  have ok: "gc_ok g" using gc_run_ok [OF assms(1) gc_init_ok] .
  from gc_okD(5) [OF ok assms(2)] gc_okD(1) [OF ok] show ?thesis
    by (cases r) (auto simp: Poisoned_def)
qed

definition demo_run :: "gc_event list" where
  "demo_run = [GAppend 1, GTop 0, GBest 1, GAppend 1, GTop 1, GBegin 0, GEnd 0 None, GTop 0, GTop 1,
     GBegin 1, GEnd 1 None, GTop 1]"

theorem sync_append_durable_witness:
  "\<exists>g. gc_run demo_run gc_init = Some g \<and> Returned 3 None \<in> set (gCalls g) \<and> 3 \<le> gDurable g"
proof -
  obtain g where g: "gc_run demo_run gc_init = Some g" "Returned 3 None \<in> set (gCalls g)"
    by (simp add: demo_run_def gc_init_def gc_step_def syncThrough_top_def syncThrough_end_def kernel_end_def at_call_def)
  from sync_append_durable [OF g] g show ?thesis by auto
qed

lemma poison_step:
  assumes "gc_step e g = Some g'" "gc_ok g" "gPoison g = Some p"
  shows "gPoison g' = Some p \<and> gSynced g' = gSynced g \<and> \<not> (\<exists>i err. e = GEnd i err)"
  using assms(1)
proof (cases rule: gc_step_cases)
  case (end_ i err n u k)
  then have "gSyncing g" using leads_syncing [OF assms(2) nth_mem [OF end_(2)]] by simp
  with gc_okD(4) [OF assms(2)] assms(3) show ?thesis by simp
qed (use assms(3) in \<open>simp_all add: syncThrough_top_def at_call_def\<close>)

lemma poison_run:
  assumes "gc_run es g = Some g'" "gc_ok g" "gPoison g = Some p"
  shows "gPoison g' = Some p \<and> gSynced g' = gSynced g"
  using assms
proof (induction es arbitrary: g)
  case (Cons e es)
  then obtain g1 where g1: "gc_step e g = Some g1" "gc_run es g1 = Some g'" by (auto split: option.splits)
  from Cons.IH [OF g1(2) gc_step_ok [OF g1(1) Cons.prems(2)]] poison_step [OF g1(1) Cons.prems(2,3)]
  show ?case by simp
qed simp

text \<open>
  C36. Poison is sticky. Once an fsync has failed, every later state reports the same failure, nothing
  more becomes synced, and every call that returns, for a write no earlier fsync covered, returns that
  failure.
\<close>

theorem poisoned_refuses:
  assumes "gc_run es gc_init = Some g" and "Poisoned g = Some p" and "gc_run fs g = Some g'"
  shows "Poisoned g' = Some p \<and> gSynced g' = gSynced g \<and>
    (\<forall>n r. Returned n r \<in> set (gCalls g') \<and> gSynced g < n \<longrightarrow> r = Some p)"
proof -
  have ok: "gc_ok g" using gc_run_ok [OF assms(1) gc_init_ok] .
  have p: "gPoison g = Some p" using assms(2) by (simp add: Poisoned_def split: option.splits)
  note run = poison_run [OF assms(3) ok p]
  have "r = Some p" if r: "Returned n r \<in> set (gCalls g')" "gSynced g < n" for n r
    using gc_okD(5) [OF gc_run_ok [OF assms(3) ok] r(1)] r(2) run by (cases r) auto
  with run show ?thesis by (auto simp: Poisoned_def)
qed

definition demo_fail :: "gc_event list" where
  "demo_fail = [GAppend 1, GTop 0, GBegin 0, GEnd 0 (Some (ENew ''EIO''))]"

theorem poisoned_refuses_witness:
  "\<exists>g g'. gc_run demo_fail gc_init = Some g \<and> gc_run [GAppend 1, GTop 1] g = Some g' \<and>
     Returned 2 (Some (ENew ''EIO'')) \<in> set (gCalls g') \<and> Poisoned g' = Some (ENew ''EIO'')"
proof -
  note ev = demo_fail_def gc_init_def gc_step_def syncThrough_top_def syncThrough_end_def kernel_end_def at_call_def
    Poisoned_def
  obtain g where g: "gc_run demo_fail gc_init = Some g" "Poisoned g = Some (ENew ''EIO'')"
    by (simp add: ev)
  moreover obtain g' where g': "gc_run [GAppend 1, GTop 1] g = Some g'"
    "Returned 2 (Some (ENew ''EIO'')) \<in> set (gCalls g')"
    using g by (auto simp: ev)
  ultimately show ?thesis using poisoned_refuses [OF g g'(1)] by blast
qed

section \<open>Waiting is bounded\<close>

fun call_count :: "call \<Rightarrow> nat" where
  "call_count (Top n) = n"
| "call_count (Waiting n) = n"
| "call_count (Lead n u) = n"
| "call_count (Flying n u k) = n"
| "call_count (Returned n r) = n"

fun led_upto :: "call \<Rightarrow> nat" where
  "led_upto (Lead n u) = u"
| "led_upto (Flying n u k) = u"
| "led_upto c = 0"

definition covered :: "nat \<Rightarrow> gc \<Rightarrow> bool" where
  "covered n g \<longleftrightarrow> n \<le> gSynced g \<or> gPoison g \<noteq> None"

definition next_covers :: "nat \<Rightarrow> gc \<Rightarrow> bool" where
  "next_covers n g \<longleftrightarrow> n \<le> gWritten g \<and> (\<forall>c \<in> set (gCalls g). leads c \<longrightarrow> n \<le> led_upto c)"

definition is_end :: "gc_event \<Rightarrow> bool" where
  "is_end e = (case e of GEnd i err \<Rightarrow> True | _ \<Rightarrow> False)"

lemma covered_step: "gc_step e g = Some g' \<Longrightarrow> covered n g \<Longrightarrow> covered n g'"
  by (erule gc_step_cases)
     (auto simp: covered_def syncThrough_top_def at_call_def end_fields kernel_fields split: option.splits)

lemma written_step: "gc_step e g = Some g' \<Longrightarrow> gWritten g \<le> gWritten g'"
  by (erule gc_step_cases) (simp_all add: syncThrough_top_def at_call_def end_fields kernel_fields split: option.splits)

lemma next_covers_at:
  "next_covers n g \<Longrightarrow> (leads c \<Longrightarrow> n \<le> led_upto c) \<Longrightarrow> next_covers n (at_call i c g)"
  using in_at_call [of _ i c g] by (auto simp: next_covers_def) (auto simp: at_call_def)

lemma next_covers_step:
  assumes "gc_step e g = Some g'" "next_covers n g"
  shows "if is_end e then covered n g' else next_covers n g'"
  using assms(1)
proof (cases rule: gc_step_cases)
  case (top i m)
  have "next_covers n (g\<lparr>gSyncing := True\<rparr>)" using assms(2) by (simp add: next_covers_def)
  with assms(2) have "next_covers n (syncThrough_top i m g)"
    by (auto simp: syncThrough_top_def intro!: next_covers_at split: option.splits) (simp add: next_covers_def)
  with top show ?thesis by (simp add: is_end_def)
next
  case (begin_ i m u)
  then have "Lead m u \<in> set (gCalls g)" using nth_mem by metis
  then have "n \<le> u" using assms(2) by (auto simp: next_covers_def)
  with begin_ assms(2) show ?thesis by (simp add: is_end_def next_covers_at)
next
  case (end_ i err m u k)
  then have "Flying m u k \<in> set (gCalls g)" using nth_mem by metis
  then have "n \<le> u" using assms(2) by (auto simp: next_covers_def)
  with end_ show ?thesis by (auto simp: is_end_def covered_def end_fields kernel_fields split: option.splits)
qed (use assms(2) in \<open>auto simp: is_end_def next_covers_def\<close>)

lemma end_idle:
  assumes "gc_step e g = Some g'" "gc_ok g" "is_end e" "n \<le> gWritten g"
  shows "next_covers n g'"
proof -
  have "\<not> gSyncing g'" using assms(1,3) by (cases rule: gc_step_cases) (simp_all add: is_end_def end_fields)
  with leads_syncing [OF gc_step_ok [OF assms(1,2)]] written_step [OF assms(1)] assms(4) show ?thesis
    by (auto simp: next_covers_def)
qed

lemma run_covers:
  assumes "gc_run es g = Some g'" "gc_ok g" "n \<le> gWritten g"
  shows "length (filter is_end es) + (if covered n g then 2 else if next_covers n g then 1 else 0) \<ge> 2 \<longrightarrow> covered n g'"
  using assms
proof (induction es arbitrary: g)
  case (Cons e es)
  then obtain g1 where g1: "gc_step e g = Some g1" "gc_run es g1 = Some g'" by (auto split: option.splits)
  have n1: "n \<le> gWritten g1" using written_step [OF g1(1)] Cons.prems(3) by simp
  note IH = Cons.IH [OF g1(2) gc_step_ok [OF g1(1) Cons.prems(2)] n1]
  show ?case
    using IH covered_step [OF g1(1)] next_covers_step [OF g1(1)] end_idle [OF g1(1) Cons.prems(2) _ Cons.prems(3)]
    by (cases "is_end e"; cases "covered n g"; cases "next_covers n g") (auto split: if_splits)
qed auto

text \<open>
  C35. A \<open>Sync\<close> append waits for at most two fsyncs. Take any state some run reaches, in which the first
  \<open>n\<close> records are written; whatever runs next, once two fsyncs have ended the spool's watermark
  covers \<open>n\<close> or the spool is poisoned, so a caller that waits for \<open>n\<close> returns when next scheduled.
\<close>

theorem two_fsyncs_cover:
  assumes "gc_run es gc_init = Some g" and "n \<le> gWritten g" and "gc_run fs g = Some g'"
    and "2 \<le> length (filter is_end fs)"
  shows "n \<le> gSynced g' \<or> Poisoned g' \<noteq> None"
  using run_covers [OF assms(3) gc_run_ok [OF assms(1) gc_init_ok] assms(2)] assms(4)
  by (auto simp: covered_def Poisoned_def split: option.splits)

definition demo_tail :: "gc_event list" where
  "demo_tail = [GTop 0, GAppend 1, GBegin 0, GEnd 0 None, GTop 1, GBegin 1, GEnd 1 None]"

theorem two_fsyncs_cover_witness:
  "\<exists>g g'. gc_run [GAppend 1] gc_init = Some g \<and> gc_run demo_tail g = Some g' \<and> 1 \<le> gSynced g'"
proof -
  note ev = demo_tail_def gc_init_def gc_step_def syncThrough_top_def syncThrough_end_def kernel_end_def at_call_def
    Poisoned_def is_end_def
  obtain g where g: "gc_run [GAppend 1] gc_init = Some g" "1 \<le> gWritten g" by (simp add: ev)
  moreover obtain g' where g': "gc_run demo_tail g = Some g'" "Poisoned g' = None" using g by (auto simp: ev)
  moreover have "2 \<le> length (filter is_end demo_tail)" by (simp add: ev)
  ultimately show ?thesis using two_fsyncs_cover [OF g g'(1)] by auto
qed

section \<open>Every call returns\<close>

definition is_sync :: "gc_event \<Rightarrow> bool" where
  "is_sync e = (case e of GAppend k \<Rightarrow> False | GBest k \<Rightarrow> False | _ \<Rightarrow> True)"

definition returned :: "call \<Rightarrow> bool" where
  "returned c = (case c of Returned n r \<Rightarrow> True | _ \<Rightarrow> False)"

definition uncovered :: "gc \<Rightarrow> call \<Rightarrow> nat" where
  "uncovered g c = (if returned c \<or> covered (call_count c) g then 0 else 1)"

fun stage :: "call \<Rightarrow> nat" where
  "stage (Top n) = 3"
| "stage (Lead n u) = 2"
| "stage (Flying n u k) = 1"
| "stage (Waiting n) = 1"
| "stage (Returned n r) = 0"

definition open_calls :: "gc \<Rightarrow> nat" where
  "open_calls g = sum_list (map (uncovered g) (gCalls g))"

definition stages :: "gc \<Rightarrow> nat" where
  "stages g = sum_list (map stage (gCalls g))"

lemma sum_list_update_at:
  fixes f :: "'a \<Rightarrow> nat"
  shows "i < length xs \<Longrightarrow> sum_list (map f (xs[i := y])) + f (xs ! i) = sum_list (map f xs) + f y"
  by (induction xs arbitrary: i) (auto split: nat.splits)

lemma sum_list_less:
  fixes f g :: "'a \<Rightarrow> nat"
  assumes "\<And>x. x \<in> set xs \<Longrightarrow> f x \<le> g x" "y \<in> set xs" "f y < g y"
  shows "sum_list (map f xs) < sum_list (map g xs)"
  using assms
proof (induction xs)
  case (Cons x xs)
  show ?case
  proof (cases "y \<in> set xs")
    case True
    then have "sum_list (map f xs) < sum_list (map g xs)" using Cons by simp
    moreover have "f x \<le> g x" using Cons.prems(1) by simp
    ultimately show ?thesis by simp
  next
    case False
    then have "f x < g x" using Cons.prems(2,3) by simp
    moreover have "sum_list (map f xs) \<le> sum_list (map g xs)" using Cons.prems(1) by (intro sum_list_mono) simp
    ultimately show ?thesis by simp
  qed
qed simp

lemma at_call_measure:
  assumes "i < length (gCalls g)" "stage c < stage (gCalls g ! i)" "call_count c = call_count (gCalls g ! i)"
    "\<not> returned (gCalls g ! i)"
  shows "open_calls (at_call i c g) \<le> open_calls g" "stages (at_call i c g) < stages g"
proof -
  have f: "uncovered (at_call i c g) = uncovered g" by (simp add: fun_eq_iff uncovered_def covered_def at_call_def)
  have "uncovered g c \<le> uncovered g (gCalls g ! i)" using assms(3,4) by (simp add: uncovered_def)
  then show "open_calls (at_call i c g) \<le> open_calls g"
    using sum_list_update_at [OF assms(1), of "uncovered g" c]
    by (simp add: open_calls_def f) (simp add: at_call_def)
  show "stages (at_call i c g) < stages g"
    using sum_list_update_at [OF assms(1), of stage c] assms(2) by (simp add: stages_def at_call_def)
qed

lemma end_measure:
  assumes ok: "gc_ok g" and i: "i < length (gCalls g)" "gCalls g ! i = Flying n u k"
  shows "open_calls (syncThrough_end i n u err (kernel_end k err g)) < open_calls g"
proof -
  let ?g = "syncThrough_end i n u err (kernel_end k err g)"
  have nu: "n \<le> u" "gSyncing g" "gSynced g < n" using gc_okD(5) [OF ok nth_mem [OF i(1)]] i(2) by simp_all
  then have np: "gPoison g = None" using gc_okD(4) [OF ok] by blast
  have cov: "covered n ?g" using nu by (auto simp: covered_def end_fields split: option.splits)
  have mono: "uncovered ?g c \<le> uncovered g c" for c
    using np by (auto simp: uncovered_def covered_def end_fields kernel_fields split: option.splits)
  have w: "uncovered ?g (wake c) = uncovered ?g c" for c
    by (cases c) (simp_all add: uncovered_def returned_def)
  have "open_calls ?g = sum_list (map (uncovered ?g) ((gCalls g)[i := Top n]))"
    by (simp add: open_calls_def end_fields kernel_fields w comp_def)
  also have "\<dots> = sum_list (map (uncovered ?g) (gCalls g))"
    using sum_list_update_at [OF i(1), of "uncovered ?g" "Top n"] cov i(2) by (simp add: uncovered_def)
  also have "\<dots> < open_calls g"
    unfolding open_calls_def
    by (rule sum_list_less [OF mono nth_mem [OF i(1)]])
       (use cov nu np i(2) in \<open>simp add: uncovered_def returned_def covered_def [of n g]\<close>)
  finally show ?thesis .
qed

lemma sync_step_measure:
  assumes "gc_step e g = Some g'" "gc_ok g" "is_sync e"
  shows "(g', g) \<in> measures [open_calls, stages]"
  using assms(1)
proof (cases rule: gc_step_cases)
  case (top i n)
  let ?g = "if gSynced g < n \<and> gPoison g = None \<and> \<not> gSyncing g then g\<lparr>gSyncing := True\<rparr> else g"
  have same: "open_calls ?g = open_calls g" "stages ?g = stages g" "gCalls ?g = gCalls g"
    by (simp_all add: open_calls_def stages_def uncovered_def [abs_def] covered_def)
  define c where "c = (if gSynced g \<ge> n then Returned n None else
    case gPoison g of Some p \<Rightarrow> Returned n (Some p) | None \<Rightarrow> if gSyncing g then Waiting n else Lead n (gWritten g))"
  then have c: "syncThrough_top i n g = at_call i c ?g" "stage c < 3" "call_count c = n"
    by (simp_all add: syncThrough_top_def split: option.splits)
  from at_call_measure [of i ?g c] same c(2,3) top(2,3) show ?thesis
    unfolding top(4) c(1) by (auto simp: returned_def)
next
  case (begin_ i n u)
  then show ?thesis using at_call_measure [of i g "Flying n u (gWritten g)"] by (auto simp: returned_def)
next
  case (end_ i err n u k)
  then show ?thesis using end_measure [OF assms(2)] by simp
qed (use assms(3) in \<open>simp_all add: is_sync_def\<close>)

lemma not_stuck:
  assumes ok: "gc_ok g" and c: "c \<in> set (gCalls g)" "\<not> returned c"
  shows "\<exists>e. is_sync e \<and> gc_step e g \<noteq> None"
proof -
  have go: "\<exists>e. is_sync e \<and> gc_step e g \<noteq> None"
    if "i < length (gCalls g)" "leads (gCalls g ! i) \<or> (\<exists>n. gCalls g ! i = Top n)" for i
  proof (cases "gCalls g ! i")
    case (Top n) with that show ?thesis by (intro exI [of _ "GTop i"]) (simp add: is_sync_def gc_step_def)
  next
    case (Lead n u) with that show ?thesis by (intro exI [of _ "GBegin i"]) (simp add: is_sync_def gc_step_def)
  next
    case (Flying n u k) with that show ?thesis by (intro exI [of _ "GEnd i None"]) (simp add: is_sync_def gc_step_def)
  qed (use that in simp_all)
  obtain i where i: "i < length (gCalls g)" "gCalls g ! i = c" using c(1) by (auto simp: in_set_conv_nth)
  show ?thesis
  proof (cases c)
    case (Waiting n)
    with gc_okD(5) [OF ok c(1)] have "gSyncing g" by simp
    from gc_okD(6) [OF ok this] go show ?thesis by blast
  qed (use go [OF i(1)] i(2) c(2) in \<open>simp_all add: returned_def\<close>)
qed

text \<open>
  C34. No \<open>Sync\<close> append hangs. From any state some run reaches, \<open>syncThrough\<close> takes finitely many
  steps while no new record is written, and when none is possible every call has returned: no waiter
  misses its broadcast and none waits without a leader.
\<close>

theorem sync_calls_return:
  assumes "gc_run es gc_init = Some g"
  shows "\<not> (\<exists>f. f 0 = g \<and> (\<forall>k. \<exists>e. is_sync e \<and> gc_step e (f k) = Some (f (Suc k)))) \<and>
    ((\<forall>e. is_sync e \<longrightarrow> gc_step e g = None) \<longrightarrow> (\<forall>c \<in> set (gCalls g). returned c))"
proof
  have ok: "gc_ok g" using gc_run_ok [OF assms gc_init_ok] .
  show "\<not> (\<exists>f. f 0 = g \<and> (\<forall>k. \<exists>e. is_sync e \<and> gc_step e (f k) = Some (f (Suc k))))"
  proof
    assume "\<exists>f. f 0 = g \<and> (\<forall>k. \<exists>e. is_sync e \<and> gc_step e (f k) = Some (f (Suc k)))"
    then obtain f where f: "f 0 = g" "\<And>k. \<exists>e. is_sync e \<and> gc_step e (f k) = Some (f (Suc k))" by blast
    have okf: "gc_ok (f k)" for k
    proof (induction k)
      case (Suc k)
      obtain e where "gc_step e (f k) = Some (f (Suc k))" using f(2) by blast
      then show ?case using Suc by (rule gc_step_ok)
    qed (use f(1) ok in simp)
    have "(f (Suc k), f k) \<in> measures [open_calls, stages]" for k
    proof -
      obtain e where "is_sync e" "gc_step e (f k) = Some (f (Suc k))" using f(2) by blast
      then show ?thesis by (rule sync_step_measure [OF _ okf, rotated])
    qed
    then have "\<exists>f. \<forall>k. (f (Suc k), f k) \<in> measures [open_calls, stages]" by blast
    then show False using wf_measures [of "[open_calls, stages]"] unfolding wf_iff_no_infinite_down_chain by simp
  qed
  show "(\<forall>e. is_sync e \<longrightarrow> gc_step e g = None) \<longrightarrow> (\<forall>c \<in> set (gCalls g). returned c)"
  proof (intro impI ballI)
    fix c assume none: "\<forall>e. is_sync e \<longrightarrow> gc_step e g = None" and c: "c \<in> set (gCalls g)"
    show "returned c"
    proof (rule ccontr)
      assume "\<not> returned c"
      from not_stuck [OF ok c this] obtain e where "is_sync e" "gc_step e g \<noteq> None" by (elim exE conjE)
      with none show False by simp
    qed
  qed
qed

theorem sync_calls_return_witness:
  "\<exists>g. gc_run demo_run gc_init = Some g \<and> gCalls g \<noteq> [] \<and>
     \<not> (\<exists>f. f 0 = g \<and> (\<forall>k. \<exists>e. is_sync e \<and> gc_step e (f k) = Some (f (Suc k))))"
proof -
  obtain g where g: "gc_run demo_run gc_init = Some g" "gCalls g \<noteq> []"
    by (simp add: demo_run_def gc_init_def gc_step_def syncThrough_top_def syncThrough_end_def kernel_end_def at_call_def)
  from sync_calls_return [OF g(1)] g show ?thesis by blast
qed

end
