(* ===== verification/Validate.thy ===== *)
theory Validate
  imports Grants
begin

text \<open>
  \<open>pkg/core/validate.go\<close>: the patterns of a grant's fields as regular expressions, and
  \<open>Grant.Validate\<close>, the one check a grant passes before it is signed. A fault stands for one
  sentence of the joined error; their order is the code's.
\<close>

subsection \<open>Anchored regular expressions\<close>

text \<open>
  The fragment of package \<open>regexp\<close> the patterns use: byte classes, concatenation, an optional
  part and counted repetition. \<open>rx_rests r s\<close> lists what is left of \<open>s\<close> after each way \<open>r\<close> can
  match at its start, so an anchored match is one that can leave nothing.
\<close>

datatype rx = Cls "(char \<times> char) list" | Cat rx rx | Opt rx | Rep rx nat nat

definition in_class :: "(char \<times> char) list \<Rightarrow> char \<Rightarrow> bool" where
  "in_class rs c \<longleftrightarrow> list_ex (\<lambda>(lo, hi). lo \<le> c \<and> c \<le> hi) rs"

fun up_to :: "(string \<Rightarrow> string list) \<Rightarrow> nat \<Rightarrow> string \<Rightarrow> string list" where
  "up_to f 0 s = [s]"
| "up_to f (Suc n) s = s # concat (map (up_to f n) (f s))"

fun exactly :: "(string \<Rightarrow> string list) \<Rightarrow> nat \<Rightarrow> string \<Rightarrow> string list" where
  "exactly f 0 s = [s]"
| "exactly f (Suc n) s = concat (map (exactly f n) (f s))"

primrec rx_rests :: "rx \<Rightarrow> string \<Rightarrow> string list" where
  "rx_rests (Cls rs) s = (case s of [] \<Rightarrow> [] | c # cs \<Rightarrow> if in_class rs c then [cs] else [])"
| "rx_rests (Cat a b) s = concat (map (rx_rests b) (rx_rests a s))"
| "rx_rests (Opt a) s = s # rx_rests a s"
| "rx_rests (Rep a lo hi) s =
     concat (map (up_to (rx_rests a) (hi - lo)) (exactly (rx_rests a) lo s))"

definition MatchString :: "rx \<Rightarrow> string \<Rightarrow> bool" where
  "MatchString r s \<longleftrightarrow> [] \<in> set (rx_rests r s)"

definition label_char :: "(char \<times> char) list" where
  "label_char = [(CHR ''a'', CHR ''z''), (CHR ''0'', CHR ''9'')]"

definition alnum_char :: "(char \<times> char) list" where
  "alnum_char = [(CHR ''A'', CHR ''Z''), (CHR ''a'', CHR ''z''), (CHR ''0'', CHR ''9'')]"

abbreviation one_char :: "char \<Rightarrow> char \<times> char" where
  "one_char c \<equiv> (c, c)"

definition UIDPattern :: rx where
  "UIDPattern =
     Cat (Cls label_char)
         (Opt (Cat (Rep (Cls (label_char @ [one_char (CHR ''-'')])) 0 61) (Cls label_char)))"

definition TenantPattern :: rx where
  "TenantPattern =
     Cat (Cls alnum_char)
         (Rep (Cls (alnum_char @ [one_char (CHR ''.''), one_char (CHR ''_''), one_char (CHR ''-'')])) 0 252)"

definition CallerThumbprintPattern :: rx where
  "CallerThumbprintPattern =
     Rep (Cls (alnum_char @ [one_char (CHR ''_''), one_char (CHR ''-'')])) 43 43"

subsection \<open>Grant.Validate\<close>

datatype fault =
    UIDRequired
  | UIDNotLabel
  | TenantNotSegment
  | FiberMaxNegative
  | FiberMaxTooLarge
  | FiberWarmNegative
  | FiberWarmTooLarge
  | FiberWarmOverMax
  | QuotaOverflow
  | LeaseFraction
  | TemplateDigestNotKey
  | CallerThumbprintForm

definition Mul64 :: "u64 \<Rightarrow> u64 \<Rightarrow> u64 \<times> u64" where
  "Mul64 x y =
     (let p = unat x * unat y in (of_nat (p div 2 ^ 64), of_nat (p mod 2 ^ 64)))"

definition MaxUint32 :: u64 where
  "MaxUint32 = 4294967295"

definition MaxUint64 :: u64 where
  "MaxUint64 = 18446744073709551615"

fun has_space_or_eq :: "string \<Rightarrow> bool" where
  "has_space_or_eq [] = False"
| "has_space_or_eq (c # s) =
     (c = CHR ''='' \<or> list_ex (\<lambda>e. prefix e (c # s)) space_encodings \<or> has_space_or_eq s)"

definition Validate :: "Grant \<Rightarrow> fault list" where
  "Validate g =
     (if gUID g = [] then [UIDRequired]
      else if \<not> MatchString UIDPattern (gUID g) then [UIDNotLabel] else [])
   @ (if gTenant g \<noteq> [] \<and> \<not> MatchString TenantPattern (gTenant g) then [TenantNotSegment] else [])
   @ (if gFiberMax g < 0 then [FiberMaxNegative]
      else if (of_int (gFiberMax g) :: u64) > MaxUint32 then [FiberMaxTooLarge] else [])
   @ (if gFiberWarm g < 0 then [FiberWarmNegative]
      else if (of_int (gFiberWarm g) :: u64) > MaxUint32 then [FiberWarmTooLarge]
      else if gFiberMax g > 0 \<and> gFiberWarm g > gFiberMax g then [FiberWarmOverMax] else [])
   @ (if gFiberMax g > 0 \<and> gWBudgetBytes g > 0 then
        (let (hi, lo) = Mul64 (of_int (gFiberMax g)) (gWBudgetBytes g) in
         if hi \<noteq> 0 \<or> lo > MaxUint64 div 4 then [QuotaOverflow] else [])
      else [])
   @ (if \<not> IsZero (gLeaseExpiry g) \<and> gLeaseExpiry g \<noteq> gLeaseExpiry g - gLeaseExpiry g mod second
      then [LeaseFraction] else [])
   @ (if gTemplateDigest g \<noteq> [] \<and> has_space_or_eq (gTemplateDigest g) then [TemplateDigestNotKey] else [])
   @ (if gCallerThumbprint g \<noteq> [] \<and> \<not> MatchString CallerThumbprintPattern (gCallerThumbprint g)
      then [CallerThumbprintForm] else [])"

subsection \<open>What the patterns accept\<close>

lemma rx_rests_Cls [simp]:
  "rx_rests (Cls rs) [] = []"
  "rx_rests (Cls rs) (c # cs) = (if in_class rs c then [cs] else [])"
  by simp_all

declare rx_rests.simps(1) [simp del]

lemma rx_rests_Cls_last: "[] \<in> set (rx_rests (Cls rs) x) \<longleftrightarrow> (\<exists>d. x = [d] \<and> in_class rs d)"
  by (cases x) auto

lemma up_to_class:
  "set (up_to (rx_rests (Cls rs)) n s) =
     {drop k s | k. k \<le> n \<and> k \<le> length s \<and> list_all (in_class rs) (take k s)}"
proof (induction n arbitrary: s)
  case 0
  show ?case by auto
next
  case (Suc n)
  show ?case
  proof (cases s)
    case Nil
    then show ?thesis by auto
  next
    case (Cons c cs)
    have "{drop k (c # cs) | k. k \<le> Suc n \<and> k \<le> length (c # cs) \<and> list_all (in_class rs) (take k (c # cs))}
        = {c # cs} \<union> (if in_class rs c
            then {drop k cs | k. k \<le> n \<and> k \<le> length cs \<and> list_all (in_class rs) (take k cs)} else {})"
      (is "?L = ?R")
    proof
      show "?L \<subseteq> ?R"
      proof
        fix x assume "x \<in> ?L"
        then obtain k where "x = drop k (c # cs)" "k \<le> Suc n" "k \<le> length (c # cs)"
          "list_all (in_class rs) (take k (c # cs))" by blast
        then show "x \<in> ?R" by (cases k) auto
      qed
      show "?R \<subseteq> ?L"
      proof
        fix x assume x: "x \<in> ?R"
        then consider "x = c # cs" | k where "in_class rs c" "x = drop k cs" "k \<le> n" "k \<le> length cs"
          "list_all (in_class rs) (take k cs)" by (auto split: if_splits)
        then show "x \<in> ?L"
        proof cases
          case 1
          then show ?thesis by (auto intro: exI [of _ 0])
        next
          case 2
          then show ?thesis by (auto intro!: exI [of _ "Suc k"])
        qed
      qed
    qed
    with Suc Cons show ?thesis by auto
  qed
qed

lemma exactly_class:
  "exactly (rx_rests (Cls rs)) n s =
     (if n \<le> length s \<and> list_all (in_class rs) (take n s) then [drop n s] else [])"
proof (induction n arbitrary: s)
  case 0
  show ?case by simp
next
  case (Suc n)
  show ?case
  proof (cases s)
    case (Cons a list)
    show ?thesis by (cases "in_class rs a") (simp_all add: Suc Cons)
  qed simp
qed

lemma rx_rests_Rep_class:
  "set (rx_rests (Rep (Cls rs) 0 n) s) =
     {drop k s | k. k \<le> n \<and> k \<le> length s \<and> list_all (in_class rs) (take k s)}"
  using up_to_class [of rs n s] by simp

lemma label_dash: "in_class label_char c \<Longrightarrow> in_class (label_char @ [one_char d]) c"
  by (simp add: in_class_def)

lemma UIDPattern_iff:
  "MatchString UIDPattern s \<longleftrightarrow>
     s \<noteq> [] \<and> length s \<le> 63 \<and> list_all (in_class (label_char @ [one_char (CHR ''-'')])) s \<and>
     in_class label_char (hd s) \<and> in_class label_char (last s)"
proof (cases s)
  case Nil
  then show ?thesis by (simp add: MatchString_def UIDPattern_def)
next
  case (Cons c cs)
  let ?D = "label_char @ [one_char (CHR ''-'')]"
  have "MatchString UIDPattern s \<longleftrightarrow>
      in_class label_char c \<and>
      (cs = [] \<or> (\<exists>k d. k \<le> 61 \<and> k \<le> length cs \<and> list_all (in_class ?D) (take k cs) \<and>
         drop k cs = [d] \<and> in_class label_char d))"
    using Cons rx_rests_Rep_class [of ?D 61 cs]
    by (auto simp: MatchString_def UIDPattern_def rx_rests_Cls_last simp del: rx_rests.simps(4))
  also have "(\<exists>k d. k \<le> 61 \<and> k \<le> length cs \<and> list_all (in_class ?D) (take k cs) \<and>
         drop k cs = [d] \<and> in_class label_char d) \<longleftrightarrow>
      cs \<noteq> [] \<and> length cs \<le> 62 \<and> list_all (in_class ?D) cs \<and> in_class label_char (last cs)"
    (is "?L \<longleftrightarrow> ?R")
  proof
    assume ?L
    then obtain k d where k: "k \<le> 61" "list_all (in_class ?D) (take k cs)" "drop k cs = [d]"
      "in_class label_char d" by blast
    then have "cs = take k cs @ [d]" by (metis append_take_drop_id)
    moreover from k(3) have "length cs - k = 1" by (metis length_drop length_Cons list.size(3) One_nat_def)
    with k(1) have "length cs \<le> 62" by linarith
    ultimately show ?R using k label_dash
      by (metis append_is_Nil_conv last_snoc list.distinct(1) list_all_append list.pred_inject)
  next
    assume R: ?R
    let ?k = "length cs - 1"
    have "cs = butlast cs @ [last cs]" using R by simp
    then have "take ?k cs = butlast cs \<and> drop ?k cs = [last cs]"
      by (metis append_eq_conv_conj length_butlast)
    moreover have "list_all (in_class ?D) (butlast cs)"
      using R by (metis \<open>cs = butlast cs @ [last cs]\<close> list_all_append)
    ultimately show ?L using R by (intro exI [of _ ?k] exI [of _ "last cs"]) auto
  qed
  finally show ?thesis using Cons label_dash by (auto simp: list_all_iff)
qed

lemma TenantPattern_iff:
  "MatchString TenantPattern s \<longleftrightarrow>
     s \<noteq> [] \<and> length s \<le> 253 \<and> in_class alnum_char (hd s) \<and>
     list_all (in_class (alnum_char @ [one_char (CHR ''.''), one_char (CHR ''_''), one_char (CHR ''-'')])) s"
proof (cases s)
  case Nil
  then show ?thesis by (simp add: MatchString_def TenantPattern_def)
next
  case (Cons c cs)
  let ?D = "alnum_char @ [one_char (CHR ''.''), one_char (CHR ''_''), one_char (CHR ''-'')]"
  have cD: "in_class alnum_char c \<Longrightarrow> in_class ?D c" by (simp add: in_class_def)
  have "MatchString TenantPattern s \<longleftrightarrow>
      in_class alnum_char c \<and> (\<exists>k. k \<le> 252 \<and> k \<le> length cs \<and> list_all (in_class ?D) (take k cs) \<and> drop k cs = [])"
    using Cons rx_rests_Rep_class [of ?D 252 cs]
    by (auto simp: MatchString_def TenantPattern_def simp del: rx_rests.simps(4))
  also have "\<dots> \<longleftrightarrow> in_class alnum_char c \<and> length cs \<le> 252 \<and> list_all (in_class ?D) cs"
    by (auto intro: exI [of _ "length cs"])
  finally show ?thesis using Cons cD by auto
qed

lemma CallerThumbprintPattern_iff:
  "MatchString CallerThumbprintPattern s \<longleftrightarrow>
     length s = 43 \<and> list_all (in_class (alnum_char @ [one_char (CHR ''_''), one_char (CHR ''-'')])) s"
  using exactly_class [of "alnum_char @ [one_char (CHR ''_''), one_char (CHR ''-'')]" 43 s]
  by (auto simp: MatchString_def CallerThumbprintPattern_def split: if_splits)

lemma slash_dot_not_label:
  "\<not> in_class (label_char @ [one_char (CHR ''-'')]) (CHR ''/'')"
  "\<not> in_class (label_char @ [one_char (CHR ''-'')]) (CHR ''.'')"
  "\<not> in_class (label_char @ [one_char (CHR ''-'')]) (CHR 0x00)"
  "\<not> in_class (alnum_char @ [one_char (CHR ''.''), one_char (CHR ''_''), one_char (CHR ''-'')]) (CHR ''/'')"
  by (simp_all add: in_class_def label_char_def alnum_char_def less_eq_char_def)

lemma uid_no_slash: "MatchString UIDPattern s \<Longrightarrow> CHR ''/'' \<notin> set s"
  using slash_dot_not_label(1) by (auto simp: UIDPattern_iff list_all_iff)

lemma tenant_no_slash: "MatchString TenantPattern s \<Longrightarrow> CHR ''/'' \<notin> set s"
  using slash_dot_not_label(4) by (auto simp: TenantPattern_iff list_all_iff)

lemma Mul64_ok:
  "Mul64 x y = (hi, lo) \<Longrightarrow>
   (hi = 0 \<and> lo \<le> MaxUint64 div 4 \<longleftrightarrow> unat x * unat y \<le> 4611686018427387903)"
proof -
  assume m: "Mul64 x y = (hi, lo)"
  let ?p = "unat x * unat y"
  have "unat x < 2 ^ 64" "unat y < 2 ^ 64"
    using unsigned_less [of x, where ?'a = nat] unsigned_less [of y, where ?'a = nat] by simp_all
  then have "?p < 2 ^ 64 * 2 ^ 64" by (intro mult_strict_mono) simp_all
  then have d: "?p div 2 ^ 64 < 2 ^ 64" by (simp add: less_mult_imp_div_less)
  have "hi = of_nat (?p div 2 ^ 64)" "lo = of_nat (?p mod 2 ^ 64)"
    using m by (simp_all add: Mul64_def Let_def)
  then have h: "unat hi = ?p div 2 ^ 64" and l: "unat lo = ?p mod 2 ^ 64"
    using d by (simp_all add: unat_of_nat)
  have q: "unat (MaxUint64 div 4) = 4611686018427387903" by (simp add: MaxUint64_def unat_div)
  have "hi = 0 \<longleftrightarrow> ?p div 2 ^ 64 = 0" using h by (metis unat_eq_zero)
  moreover have "lo \<le> MaxUint64 div 4 \<longleftrightarrow> ?p mod 2 ^ 64 \<le> 4611686018427387903"
    by (simp add: word_le_nat_alt l q)
  ultimately show ?thesis by (auto simp: div_eq_0_iff)
qed

subsection \<open>What a valid grant is\<close>

text \<open>A Go \<open>int\<close> on a 64-bit home.\<close>

abbreviation go_int :: "int \<Rightarrow> bool" where
  "go_int n \<equiv> - (2 ^ 63) \<le> n \<and> n < 2 ^ 63"

lemma u64_of_int_le:
  "0 \<le> n \<Longrightarrow> n < 2 ^ 63 \<Longrightarrow> (of_int n :: u64) > MaxUint32 \<longleftrightarrow> n > 4294967295"
  by (simp add: word_less_alt MaxUint32_def uint_word_of_int_eq take_bit_int_eq_self)

lemma unat_u64_of_int:
  "0 \<le> n \<Longrightarrow> n < 2 ^ 63 \<Longrightarrow> unat (of_int n :: u64) = nat n"
  by (simp add: unat_eq_nat_uint uint_word_of_int_eq take_bit_int_eq_self)

lemma quota_fits:
  assumes "0 < n" "n < 2 ^ 63" "Mul64 (of_int n) w = (hi, lo)"
  shows "(hi \<noteq> 0 \<or> lo > MaxUint64 div 4) \<longleftrightarrow> \<not> 4 * (nat n * unat w) < 2 ^ 64"
proof -
  have "(hi = 0 \<and> lo \<le> MaxUint64 div 4) \<longleftrightarrow> nat n * unat w \<le> 4611686018427387903"
    using Mul64_ok [OF assms(3)] assms(1,2) by (simp add: unat_u64_of_int)
  also have "\<dots> \<longleftrightarrow> 4 * (nat n * unat w) < 2 ^ 64" by (simp, linarith)
  finally show ?thesis by (metis not_le)
qed

text \<open>C12. \<open>Validate\<close> reports no fault exactly when every field is in form: the UID is a DNS-1123
  label of at most 63 bytes, a tenant is one path segment of at most 253, the fiber counts fit
  in 32 bits with the warm count within the maximum, four times the product of \<open>FiberMax\<close> and
  \<open>WBudgetBytes\<close> does not wrap around in 64 bits, the lease is in whole seconds, a template
  digest holds no white space or equals sign, and a caller thumbprint has its 43 characters.\<close>

theorem Validate_iff:
  assumes "go_int (gFiberMax g)" and "go_int (gFiberWarm g)"
  shows "Validate g = [] \<longleftrightarrow>
    (gUID g \<noteq> [] \<and> length (gUID g) \<le> 63 \<and>
       list_all (in_class (label_char @ [one_char (CHR ''-'')])) (gUID g) \<and>
       in_class label_char (hd (gUID g)) \<and> in_class label_char (last (gUID g))) \<and>
    (gTenant g = [] \<or> length (gTenant g) \<le> 253 \<and> in_class alnum_char (hd (gTenant g)) \<and>
       list_all (in_class (alnum_char @ [one_char (CHR ''.''), one_char (CHR ''_''), one_char (CHR ''-'')])) (gTenant g)) \<and>
    0 \<le> gFiberMax g \<and> gFiberMax g < 2 ^ 32 \<and> 0 \<le> gFiberWarm g \<and> gFiberWarm g < 2 ^ 32 \<and>
    (gFiberMax g = 0 \<or> gFiberWarm g \<le> gFiberMax g) \<and>
    4 * (nat (gFiberMax g) * unat (gWBudgetBytes g)) < 2 ^ 64 \<and>
    second dvd gLeaseExpiry g \<and>
    (gTemplateDigest g = [] \<or> \<not> has_space_or_eq (gTemplateDigest g)) \<and>
    (gCallerThumbprint g = [] \<or> length (gCallerThumbprint g) = 43 \<and>
       list_all (in_class (alnum_char @ [one_char (CHR ''_''), one_char (CHR ''-'')])) (gCallerThumbprint g))"
proof -
  obtain hi lo where m: "Mul64 (of_int (gFiberMax g)) (gWBudgetBytes g) = (hi, lo)" by fastforce
  have q: "(if gFiberMax g > 0 \<and> gWBudgetBytes g > 0 then
        (let (hi, lo) = Mul64 (of_int (gFiberMax g)) (gWBudgetBytes g) in
         if hi \<noteq> 0 \<or> lo > MaxUint64 div 4 then [QuotaOverflow] else [])
      else []) = [] \<longleftrightarrow> 4 * (nat (gFiberMax g) * unat (gWBudgetBytes g)) < 2 ^ 64"
    if "0 \<le> gFiberMax g"
    using that assms(1) quota_fits [OF _ _ m] m by (auto simp: word_gt_0)
  have l: "gLeaseExpiry g = gLeaseExpiry g - gLeaseExpiry g mod second \<longleftrightarrow> second dvd gLeaseExpiry g"
    by (simp add: dvd_eq_mod_eq_0)
  have mx: "(if gFiberMax g < 0 then [FiberMaxNegative]
      else if (of_int (gFiberMax g) :: u64) > MaxUint32 then [FiberMaxTooLarge] else []) = []
      \<longleftrightarrow> 0 \<le> gFiberMax g \<and> gFiberMax g < 2 ^ 32"
    using assms(1) u64_of_int_le [of "gFiberMax g"] by auto
  have wm: "(if gFiberWarm g < 0 then [FiberWarmNegative]
      else if (of_int (gFiberWarm g) :: u64) > MaxUint32 then [FiberWarmTooLarge]
      else if gFiberMax g > 0 \<and> gFiberWarm g > gFiberMax g then [FiberWarmOverMax] else []) = []
      \<longleftrightarrow> 0 \<le> gFiberWarm g \<and> gFiberWarm g < 2 ^ 32 \<and> (gFiberMax g \<le> 0 \<or> gFiberWarm g \<le> gFiberMax g)"
    using assms(2) u64_of_int_le [of "gFiberWarm g"] by auto
  show ?thesis
    unfolding Validate_def append_is_Nil_conv mx wm
    using q l by (auto simp: UIDPattern_iff TenantPattern_iff CallerThumbprintPattern_iff)
qed

definition sample_policy :: Policy where
  "sample_policy = \<lparr>pDurability = Sync, pSessionClass = [], pAuditClass = [], pPSIShed = 0, pPSIPark = 0,
     pIsolation = Trusted, pEndpointMode = EndpointDirect\<rparr>"

definition sample_grant :: Grant where
  "sample_grant = \<lparr>gUID = ''g-1'', gIssuer = ''iss'', gAudience = ''home'', gTemplateDigest = ''default'',
     gTenant = ''team-a'', gFiberMax = 2, gFiberWarm = 1, gWBudgetBytes = 1048576, gMinTier = TierWarm,
     gLeaseExpiry = 5000000000, gPolicy = sample_policy, gDeviceBudget = \<lparr>dbBytes = 0, dbClass = []\<rparr>,
     gDiskBudgetBytes = 0, gCallerThumbprint = [], gToken = ''tok''\<rparr>"

lemma sample_grant_digest: "\<not> has_space_or_eq ''default''"
  by (simp add: space_encodings_def)

theorem Validate_iff_witness: "Validate sample_grant = []"
  using Validate_iff [of sample_grant] sample_grant_digest
  by (simp add: sample_grant_def in_class_def label_char_def alnum_char_def less_eq_char_def)


lemma sample_grant_valid: "Validate sample_grant = []"
proof -
  have "MatchString UIDPattern ''g-1''" "MatchString TenantPattern ''team-a''"
    by (simp_all add: UIDPattern_iff TenantPattern_iff in_class_def label_char_def alnum_char_def less_eq_char_def)
  then show ?thesis
    using sample_grant_digest
    by (simp add: sample_grant_def Validate_def MaxUint32_def Mul64_def MaxUint64_def word_less_nat_alt unat_div)
qed


end
