(* ===== verification/Ledger.thy ===== *)
theory Ledger
  imports Validate
begin

text \<open>
  \<open>pkg/core/ledger.go\<close>: the home's record of grants, sessions and running fibers. Each method
  holds \<open>l.mu\<close> from its first read to its last write, so each is one function from ledger to
  ledger here; how they interleave is theory \<open>Ledger_Conc\<close>.

  \<open>grants\<close> maps a UID to a pointer, and \<open>resolveHeld\<close> keeps that pointer across the runtime call, so
  grant entries live in a heap (\<open>lEntries\<close>, addressed by position and never freed) and the map
  holds addresses. Sessions and fiber references are never shared outside the lock, so their
  maps hold the values. \<open>Now\<close>, the injected clock, is an argument of the methods that read it.
\<close>

subsection \<open>Data\<close>

record FiberHandle =
  hID :: string
  hEndpoint :: string
  hPooled :: bool

definition no_handle :: FiberHandle where
  "no_handle = \<lparr>hID = [], hEndpoint = [], hPooled = False\<rparr>"

datatype SessionState = StateRunning | StateParked

record Session =
  sName :: string
  sGrantUID :: string
  sState :: SessionState
  sFence :: Fence
  sHandle :: FiberHandle
  sDeltaRef :: string

datatype Action = ActCreate | ActAttach | ActResume

fun Action_String :: "Action \<Rightarrow> string" where
  "Action_String ActAttach = ''attach''"
| "Action_String ActResume = ''resume''"
| "Action_String ActCreate = ''create''"

record Status =
  stGrantUID :: string
  stRunning :: int
  stParked :: int
  stPooled :: int
  stWUsedBytes :: u64
  stLatest :: Fence

record sessionGate =
  gtRefs :: nat
  gtLocked :: bool

record grantEntry =
  eGrant :: Grant
  eNextSeq :: u64
  eLive :: int
  ePooled :: int

record fiberRef =
  rGrantUID :: string
  rSessionKey :: string
  rFence :: Fence
  rWUsed :: u64

record FiberInfo =
  fiID :: string
  fiSession :: string
  fiWUsed :: u64

record Ledger =
  lEpoch :: u64
  lEntries :: "grantEntry list"
  lGrants :: "(string, nat) gomap"
  lSessions :: "(string, Session) gomap"
  lFibers :: "(string, fiberRef) gomap"
  lPerSession :: "(string, sessionGate) gomap"
  lSeqHigh :: "(string, u64) gomap"

definition NewLedger :: "u64 \<Rightarrow> Ledger" where
  "NewLedger epoch =
     \<lparr>lEpoch = epoch, lEntries = [], lGrants = [], lSessions = [], lFibers = [],
      lPerSession = [], lSeqHigh = []\<rparr>"

definition session_key :: "string \<Rightarrow> string \<Rightarrow> string" where
  "session_key uid session = uid @ CHR ''/'' # session"

definition entry :: "Ledger \<Rightarrow> nat \<Rightarrow> grantEntry" where
  "entry l p = lEntries l ! p"

definition set_entry :: "Ledger \<Rightarrow> nat \<Rightarrow> grantEntry \<Rightarrow> Ledger" where
  "set_entry l p e = l\<lparr>lEntries := (lEntries l)[p := e]\<rparr>"

definition add_live :: "Ledger \<Rightarrow> nat \<Rightarrow> int \<Rightarrow> Ledger" where
  "add_live l p d = set_entry l p ((entry l p)\<lparr>eLive := eLive (entry l p) + d\<rparr>)"

definition seq_high :: "Ledger \<Rightarrow> string \<Rightarrow> u64" where
  "seq_high l uid = (case map_of (lSeqHigh l) uid of Some n \<Rightarrow> n | None \<Rightarrow> 0)"

subsection \<open>Grants\<close>

definition Ledger_BumpEpoch :: "Ledger \<Rightarrow> u64 \<Rightarrow> Ledger" where
  "Ledger_BumpEpoch l epoch = (if epoch > lEpoch l then l\<lparr>lEpoch := epoch\<rparr> else l)"

definition AdmitGrant :: "Ledger \<Rightarrow> Grant \<Rightarrow> Ledger" where
  "AdmitGrant l g =
     (case map_of (lGrants l) (gUID g) of
        Some p \<Rightarrow> set_entry l p ((entry l p)\<lparr>eGrant := g\<rparr>)
      | None \<Rightarrow>
          l\<lparr>lEntries := lEntries l @ [\<lparr>eGrant = g, eNextSeq = seq_high l (gUID g), eLive = 0, ePooled = 0\<rparr>],
            lGrants := AList.update (gUID g) (length (lEntries l)) (lGrants l)\<rparr>)"

definition Ledger_Grant :: "Ledger \<Rightarrow> string \<Rightarrow> Grant option" where
  "Ledger_Grant l uid = map_option (\<lambda>p. eGrant (entry l p)) (map_of (lGrants l) uid)"

definition GrantBoundTo :: "Ledger \<Rightarrow> string \<Rightarrow> string \<Rightarrow> bool" where
  "GrantBoundTo l uid thumbprint =
     (case map_of (lGrants l) uid of
        None \<Rightarrow> False
      | Some p \<Rightarrow> gCallerThumbprint (eGrant (entry l p)) = thumbprint)"

definition RevokeGrant :: "Ledger \<Rightarrow> string \<Rightarrow> Ledger" where
  "RevokeGrant l uid =
     (let l1 = (case map_of (lGrants l) uid of
                  Some p \<Rightarrow> l\<lparr>lSeqHigh := AList.update uid (eNextSeq (entry l p)) (lSeqHigh l)\<rparr>
                | None \<Rightarrow> l)
      in l1\<lparr>lGrants := AList.delete uid (lGrants l1)\<rparr>)"

subsection \<open>Session gates\<close>

text \<open>
  \<open>acquireSession\<close> counts itself in under \<open>l.mu\<close> (\<open>gate_enter\<close>) and then waits for the gate's own
  mutex (\<open>gate_lock\<close>, possible when \<open>gate_free\<close>). The gate's entry stays in the map while anyone
  holds or waits for it.
\<close>

definition gate_enter :: "Ledger \<Rightarrow> string \<Rightarrow> Ledger" where
  "gate_enter l key =
     (let gate = (case map_of (lPerSession l) key of
                    Some gt \<Rightarrow> gt | None \<Rightarrow> \<lparr>gtRefs = 0, gtLocked = False\<rparr>)
      in l\<lparr>lPerSession := AList.update key (gate\<lparr>gtRefs := Suc (gtRefs gate)\<rparr>) (lPerSession l)\<rparr>)"

definition gate_free :: "Ledger \<Rightarrow> string \<Rightarrow> bool" where
  "gate_free l key = (case map_of (lPerSession l) key of Some gt \<Rightarrow> \<not> gtLocked gt | None \<Rightarrow> True)"

definition gate_lock :: "Ledger \<Rightarrow> string \<Rightarrow> Ledger" where
  "gate_lock l key =
     (case map_of (lPerSession l) key of
        Some gt \<Rightarrow> l\<lparr>lPerSession := AList.update key (gt\<lparr>gtLocked := True\<rparr>) (lPerSession l)\<rparr>
      | None \<Rightarrow> l)"

definition acquireSession :: "Ledger \<Rightarrow> string \<Rightarrow> Ledger" where
  "acquireSession l key = gate_lock (gate_enter l key) key"

definition releaseSession :: "Ledger \<Rightarrow> string \<Rightarrow> Ledger" where
  "releaseSession l key =
     (case map_of (lPerSession l) key of
        None \<Rightarrow> l
      | Some gt \<Rightarrow>
          if gtRefs gt - 1 = 0 then l\<lparr>lPerSession := AList.delete key (lPerSession l)\<rparr>
          else l\<lparr>lPerSession := AList.update key
                   \<lparr>gtRefs = gtRefs gt - 1, gtLocked = False\<rparr> (lPerSession l)\<rparr>)"

text \<open>A \<open>sessionHold\<close> is the key of a gate taken, \<open>None\<close> for the nil hold of an anonymous fiber.\<close>

definition holdSession :: "Ledger \<Rightarrow> string \<Rightarrow> string \<Rightarrow> Ledger \<times> string option" where
  "holdSession l uid session =
     (acquireSession l (session_key uid session), Some (session_key uid session))"

definition hold_release :: "Ledger \<Rightarrow> string option \<Rightarrow> Ledger" where
  "hold_release l hold = (case hold of None \<Rightarrow> l | Some key \<Rightarrow> releaseSession l key)"

subsection \<open>resolveHeld, commit and unlock\<close>

text \<open>
  What \<open>resolveHeld\<close> returns: the action, the fence and the ref, and what its \<open>commit\<close> and \<open>unlock\<close>
  closures captured (the entry's pointer, the key, the \<open>reserved\<close> and \<open>committed\<close> flags, the
  hold).
\<close>

record resolution =
  rzAction :: Action
  rzFence :: Fence
  rzRef :: string
  rzGrantUID :: string
  rzKey :: string
  rzEntry :: nat
  rzReserved :: bool
  rzCommitted :: bool
  rzHold :: "string option"

definition reserve :: "Ledger \<Rightarrow> nat \<Rightarrow> goerr + Ledger" where
  "reserve l p =
     (if gFiberMax (eGrant (entry l p)) > 0 \<and> eLive (entry l p) \<ge> gFiberMax (eGrant (entry l p))
      then Inl (ESentinel ErrGrantFull)
      else Inr (add_live l p 1))"

definition mint :: "Ledger \<Rightarrow> nat \<Rightarrow> string \<Rightarrow> Ledger \<times> Fence" where
  "mint l p uid =
     (let sq = eNextSeq (entry l p) + 1 in
      (set_entry l p ((entry l p)\<lparr>eNextSeq := sq\<rparr>),
       \<lparr>fGrantUID = uid, fEpoch = lEpoch l, fSeq = sq\<rparr>))"

definition reserve_mint ::
  "Ledger \<Rightarrow> nat \<Rightarrow> string \<Rightarrow> string \<Rightarrow> string option \<Rightarrow> Action \<Rightarrow> string \<Rightarrow> Ledger \<times> (goerr + resolution)" where
  "reserve_mint l p uid key hold act ref =
     (case reserve l p of
        Inl e \<Rightarrow> (l, Inl e)
      | Inr l1 \<Rightarrow>
          (let (l2, fence) = mint l1 p uid in
           (l2, Inr \<lparr>rzAction = act, rzFence = fence, rzRef = ref, rzGrantUID = uid, rzKey = key,
                     rzEntry = p, rzReserved = True, rzCommitted = False, rzHold = hold\<rparr>)))"

definition resolveHeld ::
  "Ledger \<Rightarrow> gotime \<Rightarrow> string option \<Rightarrow> string \<Rightarrow> string \<Rightarrow> Tier \<Rightarrow> Ledger \<times> (goerr + resolution)" where
  "resolveHeld l now hold uid session tier =
     (let key = session_key uid session in
      case map_of (lGrants l) uid of
        None \<Rightarrow> (l, Inl (ESentinel ErrGrantUnknown))
      | Some p \<Rightarrow>
          if Expired (eGrant (entry l p)) now then (l, Inl (ESentinel ErrGrantExpired))
          else if gMinTier (eGrant (entry l p)) > tier then (l, Inl (ESentinel ErrNeedsTier))
          else
            (case (if session \<noteq> [] then map_of (lSessions l) key else None) of
               Some s \<Rightarrow>
                 (case sState s of
                    StateRunning \<Rightarrow>
                      (l, Inr \<lparr>rzAction = ActAttach, rzFence = sFence s, rzRef = hEndpoint (sHandle s),
                               rzGrantUID = uid, rzKey = key, rzEntry = p, rzReserved = False,
                               rzCommitted = False, rzHold = hold\<rparr>)
                  | StateParked \<Rightarrow>
                      if tier < TierCheckpoint then (l, Inl (ESentinel ErrNeedsTier))
                      else reserve_mint l p uid key hold ActResume (sDeltaRef s))
             | None \<Rightarrow> reserve_mint l p uid key hold ActCreate []))"

text \<open>The session a clone commits: the fence it minted, running in the runtime's new fiber.\<close>

definition clone_session :: "resolution \<Rightarrow> string \<Rightarrow> FiberHandle \<Rightarrow> Session" where
  "clone_session r name h =
     \<lparr>sName = name, sGrantUID = rzGrantUID r, sState = StateRunning, sFence = rzFence r, sHandle = h,
      sDeltaRef = (if rzAction r = ActResume then rzRef r else [])\<rparr>"

definition commit_refused :: "Ledger \<Rightarrow> resolution \<Rightarrow> Fence \<Rightarrow> bool \<Rightarrow> bool" where
  "commit_refused l r fence refuse \<longleftrightarrow>
     map_of (lGrants l) (rzGrantUID r) \<noteq> Some (rzEntry r) \<or> fEpoch fence \<noteq> lEpoch l \<or> refuse"

definition res_commit :: "Ledger \<Rightarrow> resolution \<Rightarrow> bool \<Rightarrow> Session \<Rightarrow> Ledger \<times> resolution \<times> bool" where
  "res_commit l r refuse s =
     (if commit_refused l r (sFence s) refuse then (l, r, False)
      else
        let l1 = (if hID (sHandle s) \<noteq> [] then
                    l\<lparr>lFibers := AList.update (hID (sHandle s))
                        \<lparr>rGrantUID = rzGrantUID r, rSessionKey = (if sName s \<noteq> [] then rzKey r else []),
                         rFence = sFence s, rWUsed = 0\<rparr> (lFibers l)\<rparr>
                  else l);
            l2 = (if sName s \<noteq> [] then l1\<lparr>lSessions := AList.update (rzKey r) s (lSessions l1)\<rparr> else l1)
        in (l2, r\<lparr>rzCommitted := True\<rparr>, True))"

definition res_unlock :: "Ledger \<Rightarrow> resolution \<Rightarrow> Ledger" where
  "res_unlock l r =
     hold_release (if rzReserved r \<and> \<not> rzCommitted r then add_live l (rzEntry r) (- 1) else l) (rzHold r)"

subsection \<open>Pools, sessions and fibers\<close>

definition SetPooled :: "Ledger \<Rightarrow> string \<Rightarrow> int \<Rightarrow> Ledger \<times> bool" where
  "SetPooled l uid n =
     (case map_of (lGrants l) uid of
        None \<Rightarrow> (l, False)
      | Some p \<Rightarrow>
          if ePooled (entry l p) = n then (l, False)
          else (set_entry l p ((entry l p)\<lparr>ePooled := n\<rparr>), True))"

definition PoolRoom :: "Ledger \<Rightarrow> string \<Rightarrow> int" where
  "PoolRoom l uid =
     (case map_of (lGrants l) uid of
        None \<Rightarrow> 0
      | Some p \<Rightarrow>
          (let e = entry l p;
               room = gFiberWarm (eGrant e) - ePooled e;
               room' = (if gFiberMax (eGrant e) > 0
                        then min room (gFiberMax (eGrant e) - eLive e - ePooled e) else room)
           in max room' 0))"

definition Ledger_SessionState :: "Ledger \<Rightarrow> string \<Rightarrow> string \<Rightarrow> (SessionState \<times> string) option" where
  "Ledger_SessionState l uid session =
     map_option (\<lambda>s. (sState s, sDeltaRef s)) (map_of (lSessions l) (session_key uid session))"

definition ForgetSession :: "Ledger \<Rightarrow> string \<Rightarrow> string \<Rightarrow> Ledger" where
  "ForgetSession l uid session =
     (case map_of (lSessions l) (session_key uid session) of
        Some s \<Rightarrow> if sState s = StateParked
                  then l\<lparr>lSessions := AList.delete (session_key uid session) (lSessions l)\<rparr> else l
      | None \<Rightarrow> l)"

definition Ledger_Fiber :: "Ledger \<Rightarrow> string \<Rightarrow> Fence option" where
  "Ledger_Fiber l fid = map_option rFence (map_of (lFibers l) fid)"

definition ref_session :: "Ledger \<Rightarrow> fiberRef \<Rightarrow> string" where
  "ref_session l ref =
     (if rSessionKey ref = [] then []
      else case map_of (lSessions l) (rSessionKey ref) of Some s \<Rightarrow> sName s | None \<Rightarrow> [])"

definition FiberSession :: "Ledger \<Rightarrow> string \<Rightarrow> string" where
  "FiberSession l fid = (case map_of (lFibers l) fid of None \<Rightarrow> [] | Some ref \<Rightarrow> ref_session l ref)"

definition FibersOf :: "Ledger \<Rightarrow> string \<Rightarrow> FiberInfo list" where
  "FibersOf l uid =
     sort_key fiID
       (map (\<lambda>(fid, ref). \<lparr>fiID = fid, fiSession = ref_session l ref, fiWUsed = rWUsed ref\<rparr>)
         (filter (\<lambda>(fid, ref). rGrantUID ref = uid) (lFibers l)))"

definition RunningFibers :: "Ledger \<Rightarrow> string list" where
  "RunningFibers l = sort (map fst (lFibers l))"

definition SetFiberW :: "Ledger \<Rightarrow> string \<Rightarrow> u64 \<Rightarrow> Ledger" where
  "SetFiberW l fid b =
     (case map_of (lFibers l) fid of
        None \<Rightarrow> l
      | Some ref \<Rightarrow> l\<lparr>lFibers := AList.update fid (ref\<lparr>rWUsed := b\<rparr>) (lFibers l)\<rparr>)"

definition drop_fiber :: "Ledger \<Rightarrow> string \<Rightarrow> fiberRef \<Rightarrow> Ledger" where
  "drop_fiber l fid ref =
     (let l1 = l\<lparr>lFibers := AList.delete fid (lFibers l)\<rparr> in
      case map_of (lGrants l1) (rGrantUID ref) of Some p \<Rightarrow> add_live l1 p (- 1) | None \<Rightarrow> l1)"

text \<open>\<open>OnPark\<close> returns the session's name and the delta the park supersedes.\<close>

definition OnPark :: "Ledger \<Rightarrow> string \<Rightarrow> string \<Rightarrow> Ledger \<times> string \<times> string" where
  "OnPark l fid deltaRef =
     (case map_of (lFibers l) fid of
        None \<Rightarrow> (l, [], [])
      | Some ref \<Rightarrow>
          (let l1 = drop_fiber l fid ref in
           if rSessionKey ref = [] then (l1, [], [])
           else
             (case map_of (lSessions l1) (rSessionKey ref) of
                None \<Rightarrow> (l1, [], [])
              | Some s \<Rightarrow>
                  (l1\<lparr>lSessions := AList.update (rSessionKey ref)
                        (s\<lparr>sState := StateParked, sDeltaRef := deltaRef, sHandle := no_handle\<rparr>) (lSessions l1)\<rparr>,
                   sName s, sDeltaRef s))))"

definition onGone :: "Ledger \<Rightarrow> string \<Rightarrow> Ledger \<times> (Fence \<times> string \<times> string) option" where
  "onGone l fid =
     (case map_of (lFibers l) fid of
        None \<Rightarrow> (l, None)
      | Some ref \<Rightarrow>
          (let l1 = drop_fiber l fid ref in
           if rSessionKey ref = [] then (l1, Some (rFence ref, [], []))
           else
             (let (name, deltaRef) = (case map_of (lSessions l1) (rSessionKey ref) of
                    Some s \<Rightarrow> (sName s, sDeltaRef s) | None \<Rightarrow> ([], []))
              in (l1\<lparr>lSessions := AList.delete (rSessionKey ref) (lSessions l1)\<rparr>,
                  Some (rFence ref, name, deltaRef)))))"

definition OnRelease :: "Ledger \<Rightarrow> string \<Rightarrow> Ledger \<times> string \<times> string" where
  "OnRelease l fid =
     (let (l1, r) = onGone l fid in
      (l1, case r of None \<Rightarrow> ([], []) | Some (fence, session, deltaRef) \<Rightarrow> (session, deltaRef)))"

definition OnFiberExit :: "Ledger \<Rightarrow> string \<Rightarrow> Ledger \<times> (Fence \<times> string \<times> string) option" where
  "OnFiberExit l fid = onGone l fid"

text \<open>\<open>SessionSnapshot\<close> and \<open>restoreParked\<close> of \<open>pkg/core/snapshot.go\<close>, which write into this ledger.\<close>

record SessionSnapshot =
  ssName :: string
  ssGrantUID :: string
  ssState :: SessionState
  ssFence :: Fence
  ssDeltaRef :: string
  ssFiberID :: string

definition restoreParked :: "Ledger \<Rightarrow> SessionSnapshot \<Rightarrow> goerr + Ledger" where
  "restoreParked l s =
     (case map_of (lGrants l) (ssGrantUID s) of
        None \<Rightarrow> Inl (ESentinel ErrGrantUnknown)
      | Some p \<Rightarrow>
          (let key = session_key (ssGrantUID s) (ssName s) in
           case map_of (lSessions l) key of
             Some t \<Rightarrow> Inl (ESentinel ErrSessionHeld)
           | None \<Rightarrow>
               Inr (l\<lparr>lSessions := AList.update key
                     \<lparr>sName = ssName s, sGrantUID = ssGrantUID s, sState = StateParked, sFence = ssFence s,
                      sHandle = no_handle, sDeltaRef = ssDeltaRef s\<rparr> (lSessions l)\<rparr>)))"

definition RestoreParked :: "Ledger \<Rightarrow> SessionSnapshot \<Rightarrow> Ledger \<times> bool" where
  "RestoreParked l s = (case restoreParked l s of Inl e \<Rightarrow> (l, False) | Inr m \<Rightarrow> (m, True))"

subsection \<open>Statuses\<close>

text \<open>
  One slot per grant in map order, one pass over the fibers and one over the sessions, each
  adding to the slot of its grant, then the sort by UID.
\<close>

definition slot_statuses :: "Ledger \<Rightarrow> Status list" where
  "slot_statuses l =
     map (\<lambda>(uid, p). \<lparr>stGrantUID = uid, stRunning = eLive (entry l p), stParked = 0,
           stPooled = ePooled (entry l p), stWUsedBytes = 0,
           stLatest = \<lparr>fGrantUID = uid, fEpoch = lEpoch l, fSeq = eNextSeq (entry l p)\<rparr>\<rparr>) (lGrants l)"

fun slot_of :: "Status list \<Rightarrow> string \<Rightarrow> nat option" where
  "slot_of [] uid = None"
| "slot_of (st # sts) uid = (if stGrantUID st = uid then Some 0 else map_option Suc (slot_of sts uid))"

definition add_fiber_w :: "Status list \<Rightarrow> fiberRef \<Rightarrow> Status list" where
  "add_fiber_w out ref =
     (case slot_of out (rGrantUID ref) of
        None \<Rightarrow> out
      | Some i \<Rightarrow> out[i := (out ! i)\<lparr>stWUsedBytes := stWUsedBytes (out ! i) + rWUsed ref\<rparr>])"

definition add_parked :: "Status list \<Rightarrow> Session \<Rightarrow> Status list" where
  "add_parked out s =
     (case slot_of out (sGrantUID s) of
        None \<Rightarrow> out
      | Some i \<Rightarrow> if sState s = StateParked
                  then out[i := (out ! i)\<lparr>stParked := stParked (out ! i) + 1\<rparr>] else out)"

definition Statuses :: "Ledger \<Rightarrow> Status list" where
  "Statuses l =
     (let out1 = foldl add_fiber_w (slot_statuses l) (map snd (lFibers l));
          out2 = foldl add_parked out1 (map snd (lSessions l))
      in sort_key stGrantUID out2)"

section \<open>Which operation touches what\<close>

named_theorems ledger_frame \<open>fields an operation leaves alone\<close>

lemma set_entry_frame [ledger_frame, simp]:
  "lEpoch (set_entry l p e) = lEpoch l" "lGrants (set_entry l p e) = lGrants l"
  "lSessions (set_entry l p e) = lSessions l" "lFibers (set_entry l p e) = lFibers l"
  "lPerSession (set_entry l p e) = lPerSession l" "lSeqHigh (set_entry l p e) = lSeqHigh l"
  "length (lEntries (set_entry l p e)) = length (lEntries l)"
  by (simp_all add: set_entry_def)

lemma add_live_frame [ledger_frame, simp]:
  "lEpoch (add_live l p d) = lEpoch l" "lGrants (add_live l p d) = lGrants l"
  "lSessions (add_live l p d) = lSessions l" "lFibers (add_live l p d) = lFibers l"
  "lPerSession (add_live l p d) = lPerSession l" "lSeqHigh (add_live l p d) = lSeqHigh l"
  "length (lEntries (add_live l p d)) = length (lEntries l)"
  by (simp_all add: add_live_def)

lemma entry_set_entry:
  "p < length (lEntries l) \<Longrightarrow> entry (set_entry l p e) q = (if q = p then e else entry l q)"
  by (simp add: entry_def set_entry_def)

lemma entry_set_entry_out:
  "\<not> p < length (lEntries l) \<Longrightarrow> set_entry l p e = l"
  by (simp add: set_entry_def list_update_beyond)

lemma entry_add_live:
  "p < length (lEntries l) \<Longrightarrow>
   entry (add_live l p d) q = (if q = p then (entry l p)\<lparr>eLive := eLive (entry l p) + d\<rparr> else entry l q)"
  by (simp add: add_live_def entry_set_entry)

lemma entry_add_live_keeps [simp]:
  "eGrant (entry (add_live l p d) q) = eGrant (entry l q)"
  "eNextSeq (entry (add_live l p d) q) = eNextSeq (entry l q)"
  "ePooled (entry (add_live l p d) q) = ePooled (entry l q)"
proof -
  have "entry (add_live l p d) q = entry l q \<or>
      entry (add_live l p d) q = (entry l q)\<lparr>eLive := eLive (entry l q) + d\<rparr>"
    by (cases "p < length (lEntries l)")
      (simp_all add: entry_add_live, simp add: add_live_def entry_set_entry_out)
  then show "eGrant (entry (add_live l p d) q) = eGrant (entry l q)"
    "eNextSeq (entry (add_live l p d) q) = eNextSeq (entry l q)"
    "ePooled (entry (add_live l p d) q) = ePooled (entry l q)" by auto
qed

text \<open>The gate operations only touch the gates.\<close>

definition same_but_gates :: "Ledger \<Rightarrow> Ledger \<Rightarrow> bool" where
  "same_but_gates l m \<longleftrightarrow> (\<exists>g. m = l\<lparr>lPerSession := g\<rparr>)"

lemma same_but_gates_frame:
  assumes "same_but_gates l m"
  shows "lEpoch m = lEpoch l" "lEntries m = lEntries l" "lGrants m = lGrants l"
    "lSessions m = lSessions l" "lFibers m = lFibers l" "lSeqHigh m = lSeqHigh l"
    "entry m = entry l"
  using assms by (auto simp: same_but_gates_def entry_def)

lemma gates_only [simp]:
  "same_but_gates l (gate_enter l k)" "same_but_gates l (gate_lock l k)"
  "same_but_gates l (releaseSession l k)" "same_but_gates l (hold_release l h)"
  "same_but_gates l l"
  by (auto simp: same_but_gates_def gate_enter_def gate_lock_def releaseSession_def hold_release_def
      Let_def split: option.splits intro: exI [of _ "lPerSession l"])

lemma acquireSession_gates_only [simp]: "same_but_gates l (acquireSession l k)"
  by (auto simp: same_but_gates_def acquireSession_def gate_enter_def gate_lock_def Let_def
      split: option.splits)

lemmas gate_frames [simp] =
  same_but_gates_frame [OF gates_only(1)] same_but_gates_frame [OF gates_only(2)]
  same_but_gates_frame [OF gates_only(3)] same_but_gates_frame [OF gates_only(4)]
  same_but_gates_frame [OF acquireSession_gates_only]

section \<open>The structural invariant\<close>

text \<open>
  Map keys are distinct; a UID's pointer is a heap address of an entry for that UID, and no two
  UIDs share one; a session sits under its own key, and while it runs its fiber is known under
  its handle's ID with the same key, grant and fence; a named fiber's session runs in that fiber.
\<close>

definition session_ok :: "Ledger \<Rightarrow> string \<Rightarrow> Session \<Rightarrow> bool" where
  "session_ok l k s \<longleftrightarrow>
     k = session_key (sGrantUID s) (sName s) \<and>
     (sState s = StateRunning \<longrightarrow> sName s \<noteq> [] \<and>
        (\<exists>ref. map_of (lFibers l) (hID (sHandle s)) = Some ref \<and> rSessionKey ref = k \<and>
           rFence ref = sFence s \<and> rGrantUID ref = sGrantUID s))"

definition fiber_ok :: "Ledger \<Rightarrow> string \<Rightarrow> fiberRef \<Rightarrow> bool" where
  "fiber_ok l fid ref \<longleftrightarrow>
     fid \<noteq> [] \<and> fGrantUID (rFence ref) = rGrantUID ref \<and>
     (rSessionKey ref \<noteq> [] \<longrightarrow>
        (\<exists>s. map_of (lSessions l) (rSessionKey ref) = Some s \<and> sState s = StateRunning \<and>
           hID (sHandle s) = fid))"

definition maps_ok :: "Ledger \<Rightarrow> bool" where
  "maps_ok l \<longleftrightarrow>
     wf_map (lGrants l) \<and> wf_map (lSessions l) \<and> wf_map (lFibers l) \<and> wf_map (lPerSession l) \<and>
     wf_map (lSeqHigh l)"

definition grants_ok :: "Ledger \<Rightarrow> bool" where
  "grants_ok l \<longleftrightarrow>
     (\<forall>uid p. map_of (lGrants l) uid = Some p \<longrightarrow>
        p < length (lEntries l) \<and> gUID (eGrant (entry l p)) = uid)"

definition sessions_ok :: "Ledger \<Rightarrow> bool" where
  "sessions_ok l \<longleftrightarrow>
     (\<forall>k s. map_of (lSessions l) k = Some s \<longrightarrow> session_ok l k s) \<and>
     (\<forall>fid ref. map_of (lFibers l) fid = Some ref \<longrightarrow> fiber_ok l fid ref)"

definition ledger_ok :: "Ledger \<Rightarrow> bool" where
  "ledger_ok l \<longleftrightarrow> maps_ok l \<and> grants_ok l \<and> sessions_ok l"

lemmas ledger_ok_defs = ledger_ok_def maps_ok_def grants_ok_def sessions_ok_def

lemma grants_ok_inj:
  "grants_ok l \<Longrightarrow> map_of (lGrants l) u = Some p \<Longrightarrow> map_of (lGrants l) v = Some p \<Longrightarrow> u = v"
  by (metis grants_ok_def)

lemma ledger_okD:
  assumes "ledger_ok l"
  shows "maps_ok l" "grants_ok l" "sessions_ok l"
    "map_of (lSessions l) k = Some s \<Longrightarrow> session_ok l k s"
    "map_of (lFibers l) fid = Some ref \<Longrightarrow> fiber_ok l fid ref"
    "map_of (lGrants l) uid = Some p \<Longrightarrow> p < length (lEntries l) \<and> gUID (eGrant (entry l p)) = uid"
  using assms by (simp_all add: ledger_ok_defs)

lemma ledger_ok_wf:
  assumes "ledger_ok l"
  shows "wf_map (lGrants l)" "wf_map (lSessions l)" "wf_map (lFibers l)" "wf_map (lPerSession l)"
    "wf_map (lSeqHigh l)"
  using assms by (simp_all add: ledger_ok_def maps_ok_def)

lemma sessions_okI:
  assumes "\<And>k s. map_of (lSessions l) k = Some s \<Longrightarrow> session_ok l k s"
    and "\<And>fid ref. map_of (lFibers l) fid = Some ref \<Longrightarrow> fiber_ok l fid ref"
  shows "sessions_ok l"
  using assms by (simp add: sessions_ok_def)

lemma session_ok_cong:
  "(\<And>x. map_of (lFibers m) x = map_of (lFibers l) x) \<Longrightarrow> session_ok m k s = session_ok l k s"
  by (simp add: session_ok_def)

lemma fiber_ok_cong:
  "(\<And>x. map_of (lSessions m) x = map_of (lSessions l) x) \<Longrightarrow> fiber_ok m k s = fiber_ok l k s"
  by (simp add: fiber_ok_def)

lemma session_key_nonempty [simp]: "session_key u n \<noteq> []" "[] \<noteq> session_key u n"
  by (simp_all add: session_key_def)

lemma session_key_inject:
  "CHR ''/'' \<notin> set u \<Longrightarrow> CHR ''/'' \<notin> set v \<Longrightarrow>
   session_key u m = session_key v n \<longleftrightarrow> u = v \<and> m = n"
  by (simp add: session_key_def first_slash_split)

text \<open>An operation that changes none of the five maps and keeps each entry's grant keeps the
  invariant.\<close>

lemma ledger_ok_cong:
  assumes "ledger_ok l"
    and "lGrants m = lGrants l" "lSessions m = lSessions l" "lFibers m = lFibers l"
    and "wf_map (lPerSession m)" "wf_map (lSeqHigh m)"
    and "length (lEntries m) = length (lEntries l)"
    and "\<And>p uid. map_of (lGrants l) uid = Some p \<Longrightarrow> gUID (eGrant (entry m p)) = gUID (eGrant (entry l p))"
  shows "ledger_ok m"
proof -
  have "sessions_ok m"
    by (rule sessions_okI)
      (use assms in \<open>simp_all add: session_ok_cong [of m l] fiber_ok_cong [of m l] ledger_okD\<close>)
  with assms show ?thesis by (simp add: ledger_ok_def maps_ok_def grants_ok_def)
qed

lemma ledger_ok_NewLedger: "ledger_ok (NewLedger e)"
  by (simp add: ledger_ok_defs NewLedger_def)

lemma ledger_ok_BumpEpoch: "ledger_ok l \<Longrightarrow> ledger_ok (Ledger_BumpEpoch l e)"
  by (rule ledger_ok_cong [of l]) (simp_all add: Ledger_BumpEpoch_def entry_def ledger_ok_wf)

lemma ledger_ok_add_live: "ledger_ok l \<Longrightarrow> ledger_ok (add_live l p d)"
  by (rule ledger_ok_cong [of l]) (simp_all add: ledger_ok_wf)

lemma ledger_ok_gates:
  assumes "ledger_ok l" "same_but_gates l m" "wf_map (lPerSession m)"
  shows "ledger_ok m"
  by (rule ledger_ok_cong [of l])
    (simp_all add: assms ledger_ok_wf [OF assms(1)] same_but_gates_frame [OF assms(2)])

lemma wf_gates:
  assumes "wf_map (lPerSession l)"
  shows "wf_map (lPerSession (gate_enter l k))" "wf_map (lPerSession (gate_lock l k))"
    "wf_map (lPerSession (releaseSession l k))" "wf_map (lPerSession (hold_release l h))"
    "wf_map (lPerSession (acquireSession l k))"
proof -
  show e: "wf_map (lPerSession (gate_enter l k))" for k
    using assms by (simp add: gate_enter_def Let_def)
  have lock: "wf_map (lPerSession (gate_lock m k))" if "wf_map (lPerSession m)" for m
    using that by (simp add: gate_lock_def split: option.splits)
  show "wf_map (lPerSession (gate_lock l k))" using assms by (rule lock)
  show "wf_map (lPerSession (acquireSession l k))"
    unfolding acquireSession_def by (rule lock [OF e])
  show r: "wf_map (lPerSession (releaseSession l k))" for k
    using assms by (simp add: releaseSession_def split: option.splits)
  show "wf_map (lPerSession (hold_release l h))"
    using assms r by (simp add: hold_release_def split: option.splits)
qed

lemma ledger_ok_gate_ops:
  assumes "ledger_ok l"
  shows "ledger_ok (gate_enter l k)" "ledger_ok (gate_lock l k)" "ledger_ok (releaseSession l k)"
    "ledger_ok (hold_release l h)" "ledger_ok (acquireSession l k)"
  by (rule ledger_ok_gates [OF assms]; simp add: wf_gates ledger_ok_wf [OF assms])+

lemma ledger_ok_AdmitGrant:
  assumes "ledger_ok l"
  shows "ledger_ok (AdmitGrant l g)"
proof (cases "map_of (lGrants l) (gUID g)")
  case None
  have old: "entry (AdmitGrant l g) p = entry l p" if "map_of (lGrants l) uid = Some p" for uid p
    using assms that None by (simp add: AdmitGrant_def entry_def ledger_ok_defs nth_append)
  have new: "entry (AdmitGrant l g) (length (lEntries l)) =
      \<lparr>eGrant = g, eNextSeq = seq_high l (gUID g), eLive = 0, ePooled = 0\<rparr>"
    using None by (simp add: AdmitGrant_def entry_def)
  have f: "lSessions (AdmitGrant l g) = lSessions l" "lFibers (AdmitGrant l g) = lFibers l"
    "lPerSession (AdmitGrant l g) = lPerSession l" "lSeqHigh (AdmitGrant l g) = lSeqHigh l"
    "lGrants (AdmitGrant l g) = AList.update (gUID g) (length (lEntries l)) (lGrants l)"
    "length (lEntries (AdmitGrant l g)) = Suc (length (lEntries l))"
    using None by (simp_all add: AdmitGrant_def)
  have "grants_ok (AdmitGrant l g)"
    using assms old new
    by (auto simp: grants_ok_def ledger_ok_def f gomap less_SucI split: if_splits)
  moreover have "sessions_ok (AdmitGrant l g)"
    by (rule sessions_okI)
      (use assms in \<open>simp_all add: session_ok_cong [of "AdmitGrant l g" l] fiber_ok_cong [of "AdmitGrant l g" l] f ledger_okD\<close>)
  ultimately show ?thesis using assms by (simp add: ledger_ok_def maps_ok_def f)
next
  case (Some p)
  then have p: "p < length (lEntries l)" "gUID (eGrant (entry l p)) = gUID g"
    using ledger_okD(6) [OF assms] by simp_all
  show ?thesis
    by (rule ledger_ok_cong [of l])
      (use assms Some p in \<open>simp_all add: AdmitGrant_def entry_set_entry ledger_ok_wf\<close>)
qed

lemma ledger_ok_RevokeGrant:
  assumes "ledger_ok l"
  shows "ledger_ok (RevokeGrant l uid)"
proof -
  have f: "lSessions (RevokeGrant l uid) = lSessions l" "lFibers (RevokeGrant l uid) = lFibers l"
    "lPerSession (RevokeGrant l uid) = lPerSession l" "entry (RevokeGrant l uid) = entry l"
    "lGrants (RevokeGrant l uid) = AList.delete uid (lGrants l)"
    "lEntries (RevokeGrant l uid) = lEntries l"
    by (auto simp: RevokeGrant_def Let_def entry_def split: option.splits)
  have "wf_map (lSeqHigh (RevokeGrant l uid))"
    using assms by (simp add: RevokeGrant_def Let_def ledger_ok_defs split: option.splits)
  moreover have "sessions_ok (RevokeGrant l uid)"
    by (rule sessions_okI)
      (use assms in \<open>simp_all add: session_ok_cong [of "RevokeGrant l uid" l] fiber_ok_cong [of "RevokeGrant l uid" l] f ledger_okD\<close>)
  moreover have "grants_ok (RevokeGrant l uid)"
    using assms by (simp add: ledger_ok_def grants_ok_def f gomap)
  ultimately show ?thesis using assms by (simp add: ledger_ok_def maps_ok_def f)
qed

lemma SetFiberW_lookup:
  "map_of (lFibers (SetFiberW l fid b)) x =
     (if x = fid then map_option (\<lambda>ref. ref\<lparr>rWUsed := b\<rparr>) (map_of (lFibers l) fid)
      else map_of (lFibers l) x)"
  by (simp add: SetFiberW_def gomap split: option.splits)

lemma SetFiberW_frame [simp]:
  "lEpoch (SetFiberW l fid b) = lEpoch l" "lGrants (SetFiberW l fid b) = lGrants l"
  "lSessions (SetFiberW l fid b) = lSessions l" "lEntries (SetFiberW l fid b) = lEntries l"
  "lPerSession (SetFiberW l fid b) = lPerSession l" "lSeqHigh (SetFiberW l fid b) = lSeqHigh l"
  "entry (SetFiberW l fid b) = entry l"
  by (auto simp: SetFiberW_def entry_def split: option.splits)

lemma ledger_ok_SetFiberW:
  assumes ok: "ledger_ok l"
  shows "ledger_ok (SetFiberW l fid b)"
proof -
  have "wf_map (lFibers (SetFiberW l fid b))"
    using ok by (simp add: SetFiberW_def ledger_ok_defs split: option.splits)
  moreover have "session_ok (SetFiberW l fid b) k s" if "session_ok l k s" for k s
    using that by (auto simp: session_ok_def SetFiberW_lookup)
  moreover have "fiber_ok (SetFiberW l fid b) x ref"
    if x: "map_of (lFibers (SetFiberW l fid b)) x = Some ref" for x ref
  proof -
    obtain ref0 where 0: "map_of (lFibers l) x = Some ref0"
      and "rSessionKey ref = rSessionKey ref0" "rFence ref = rFence ref0"
        "rGrantUID ref = rGrantUID ref0"
      using x by (cases "x = fid") (auto simp: SetFiberW_lookup)
    with ledger_okD(5) [OF ok 0] show ?thesis by (simp add: fiber_ok_def)
  qed
  ultimately have "sessions_ok (SetFiberW l fid b)"
    by (intro sessions_okI) (simp_all add: ledger_okD [OF ok])
  with ok \<open>wf_map (lFibers (SetFiberW l fid b))\<close> show ?thesis
    by (simp add: ledger_ok_def maps_ok_def grants_ok_def)
qed

lemma ledger_ok_SetPooled:
  assumes "ledger_ok l"
  shows "ledger_ok (fst (SetPooled l uid n))"
proof (cases "map_of (lGrants l) uid")
  case (Some p)
  then have p: "p < length (lEntries l)" using ledger_okD(6) [OF assms] by simp
  show ?thesis
    by (rule ledger_ok_cong [of l])
      (use assms Some p in \<open>simp_all add: SetPooled_def entry_set_entry ledger_ok_wf\<close>)
qed (simp add: SetPooled_def assms)

lemma ledger_ok_ForgetSession:
  assumes ok: "ledger_ok l"
  shows "ledger_ok (ForgetSession l uid session)"
proof (cases "map_of (lSessions l) (session_key uid session)")
  case (Some s)
  let ?k = "session_key uid session"
  show ?thesis
  proof (cases "sState s = StateParked")
    case True
    let ?m = "l\<lparr>lSessions := AList.delete ?k (lSessions l)\<rparr>"
    have "fiber_ok ?m fid ref" if "fiber_ok l fid ref" for fid ref
      using that Some True by (cases "rSessionKey ref = []") (auto simp: fiber_ok_def gomap)
    moreover have "session_ok ?m k t = session_ok l k t" for k t
      by (rule session_ok_cong) simp
    ultimately have "sessions_ok ?m"
      by (intro sessions_okI) (simp_all add: ledger_okD [OF ok] gomap split: if_splits)
    moreover have "entry ?m = entry l" by (simp add: entry_def fun_eq_iff)
    ultimately have "ledger_ok ?m"
      using ok by (simp add: ledger_ok_def maps_ok_def grants_ok_def)
    then show ?thesis using Some True by (simp add: ForgetSession_def)
  qed (use Some ok in \<open>simp add: ForgetSession_def\<close>)
qed (simp add: ForgetSession_def ok)

lemma drop_fiber_frame [simp]:
  "lEpoch (drop_fiber l fid ref) = lEpoch l" "lGrants (drop_fiber l fid ref) = lGrants l"
  "lSessions (drop_fiber l fid ref) = lSessions l"
  "lFibers (drop_fiber l fid ref) = AList.delete fid (lFibers l)"
  "lPerSession (drop_fiber l fid ref) = lPerSession l" "lSeqHigh (drop_fiber l fid ref) = lSeqHigh l"
  "length (lEntries (drop_fiber l fid ref)) = length (lEntries l)"
  by (simp_all add: drop_fiber_def Let_def split: option.splits)

lemma entry_fibers_upd [simp]:
  "entry (l\<lparr>lFibers := f\<rparr>) = entry l" "entry (l\<lparr>lSessions := t\<rparr>) = entry l"
  by (simp_all add: entry_def fun_eq_iff)

lemma entry_drop_fiber:
  assumes "grants_ok l"
  shows "entry (drop_fiber l fid ref) q =
     (if map_of (lGrants l) (rGrantUID ref) = Some q
      then (entry l q)\<lparr>eLive := eLive (entry l q) - 1\<rparr> else entry l q)"
  using assms
  by (auto simp: drop_fiber_def Let_def entry_add_live grants_ok_def split: option.splits)

lemma entry_drop_fiber_grant [simp]: "eGrant (entry (drop_fiber l fid ref) q) = eGrant (entry l q)"
  by (simp add: drop_fiber_def Let_def split: option.splits)

text \<open>\<open>OnPark\<close> and \<open>onGone\<close> on a known fiber, with the session's fate spelled out.\<close>

lemma OnPark_unknown: "map_of (lFibers l) fid = None \<Longrightarrow> OnPark l fid d = (l, [], [])"
  by (simp add: OnPark_def)

lemma onGone_unknown: "map_of (lFibers l) fid = None \<Longrightarrow> onGone l fid = (l, None)"
  by (simp add: onGone_def)

lemma OnPark_anonymous:
  "map_of (lFibers l) fid = Some ref \<Longrightarrow> rSessionKey ref = [] \<Longrightarrow>
   OnPark l fid d = (drop_fiber l fid ref, [], [])"
  by (simp add: OnPark_def Let_def)

lemma OnPark_named:
  "map_of (lFibers l) fid = Some ref \<Longrightarrow> rSessionKey ref \<noteq> [] \<Longrightarrow>
   map_of (lSessions l) (rSessionKey ref) = Some s \<Longrightarrow>
   OnPark l fid d =
     ((drop_fiber l fid ref)\<lparr>lSessions := AList.update (rSessionKey ref)
        (s\<lparr>sState := StateParked, sDeltaRef := d, sHandle := no_handle\<rparr>) (lSessions l)\<rparr>,
      sName s, sDeltaRef s)"
  by (simp add: OnPark_def Let_def)

lemma onGone_anonymous:
  "map_of (lFibers l) fid = Some ref \<Longrightarrow> rSessionKey ref = [] \<Longrightarrow>
   onGone l fid = (drop_fiber l fid ref, Some (rFence ref, [], []))"
  by (simp add: onGone_def Let_def)

lemma onGone_named:
  "map_of (lFibers l) fid = Some ref \<Longrightarrow> rSessionKey ref \<noteq> [] \<Longrightarrow>
   map_of (lSessions l) (rSessionKey ref) = Some s \<Longrightarrow>
   onGone l fid =
     ((drop_fiber l fid ref)\<lparr>lSessions := AList.delete (rSessionKey ref) (lSessions l)\<rparr>,
      Some (rFence ref, sName s, sDeltaRef s))"
  by (simp add: onGone_def Let_def)

lemma OnRelease_fst [simp]: "fst (OnRelease l fid) = fst (onGone l fid)"
  by (simp add: OnRelease_def split: prod.splits)

lemma OnFiberExit_onGone [simp]: "OnFiberExit = onGone"
  by (simp add: OnFiberExit_def fun_eq_iff)

text \<open>In a well-formed ledger a running session's handle names its own fiber and no other.\<close>

lemma running_handle:
  assumes "ledger_ok l" "map_of (lSessions l) k = Some s" "sState s = StateRunning"
    and "map_of (lFibers l) fid = Some ref" "hID (sHandle s) = fid"
  shows "rSessionKey ref = k" "rFence ref = sFence s" "rGrantUID ref = sGrantUID s"
  using ledger_okD(4) [OF assms(1,2)] assms(3-5) by (auto simp: session_ok_def)

lemma named_fiber:
  assumes "ledger_ok l" "map_of (lFibers l) fid = Some ref" "rSessionKey ref \<noteq> []"
  obtains s where "map_of (lSessions l) (rSessionKey ref) = Some s" "sState s = StateRunning"
    "hID (sHandle s) = fid" "sFence s = rFence ref" "sGrantUID s = rGrantUID ref"
    "rSessionKey ref = session_key (sGrantUID s) (sName s)" "sName s \<noteq> []"
proof -
  obtain s where s: "map_of (lSessions l) (rSessionKey ref) = Some s" "sState s = StateRunning"
    "hID (sHandle s) = fid"
    using ledger_okD(5) [OF assms(1,2)] assms(3) by (auto simp: fiber_ok_def)
  with ledger_okD(4) [OF assms(1) s(1)] running_handle [OF assms(1) s(1,2) assms(2) s(3)]
  show ?thesis by (intro that [of s]) (simp_all add: session_ok_def)
qed

text \<open>
  The common step of both: the fiber is dropped and its session, if it has one, is parked or
  forgotten (\<open>v\<close> is what the session's key maps to afterwards).
\<close>

lemma ledger_ok_drop:
  assumes ok: "ledger_ok l" and ref: "map_of (lFibers l) fid = Some ref"
    and m: "lFibers m = AList.delete fid (lFibers l)" "lGrants m = lGrants l"
      "lPerSession m = lPerSession l" "lSeqHigh m = lSeqHigh l"
      "length (lEntries m) = length (lEntries l)" "\<And>q. eGrant (entry m q) = eGrant (entry l q)"
    and wf: "wf_map (lSessions m)"
    and other: "\<And>k. k \<noteq> rSessionKey ref \<Longrightarrow> map_of (lSessions m) k = map_of (lSessions l) k"
    and anon: "rSessionKey ref = [] \<Longrightarrow> lSessions m = lSessions l"
    and same: "\<And>t. rSessionKey ref \<noteq> [] \<Longrightarrow> map_of (lSessions m) (rSessionKey ref) = Some t \<Longrightarrow>
      sState t = StateParked \<and> rSessionKey ref = session_key (sGrantUID t) (sName t)"
  shows "ledger_ok m"
proof -
  have "session_ok m k t" if kt: "map_of (lSessions m) k = Some t" for k t
  proof (cases "rSessionKey ref \<noteq> [] \<and> k = rSessionKey ref")
    case True
    with kt same [of t] show ?thesis by (simp add: session_ok_def)
  next
    case False
    with kt other [of k] anon have l: "map_of (lSessions l) k = Some t" by auto
    then have k: "session_ok l k t" by (rule ledger_okD(4) [OF ok])
    have "hID (sHandle t) \<noteq> fid" if "sState t = StateRunning"
    proof
      assume "hID (sHandle t) = fid"
      then have "rSessionKey ref = k" by (rule running_handle [OF ok l that ref])
      moreover have "k \<noteq> []" using k by (simp add: session_ok_def session_key_def)
      ultimately show False using False by simp
    qed
    with k show ?thesis by (auto simp: session_ok_def m gomap)
  qed
  moreover have "fiber_ok m x r" if xr: "map_of (lFibers m) x = Some r" for x r
  proof -
    from xr have x: "x \<noteq> fid" "map_of (lFibers l) x = Some r"
      by (auto simp: m gomap split: if_splits)
    have f: "fiber_ok l x r" by (rule ledger_okD(5) [OF ok x(2)])
    show ?thesis
    proof (cases "rSessionKey r = []")
      case False
      obtain s where s: "map_of (lSessions l) (rSessionKey r) = Some s" "sState s = StateRunning"
        "hID (sHandle s) = x" using named_fiber [OF ok x(2) False] .
      have "rSessionKey r \<noteq> rSessionKey ref"
      proof
        assume e: "rSessionKey r = rSessionKey ref"
        with False have "rSessionKey ref \<noteq> []" by simp
        then obtain s' where "map_of (lSessions l) (rSessionKey ref) = Some s'" "hID (sHandle s') = fid"
          using named_fiber [OF ok ref] by metis
        with e s x(1) show False by simp
      qed
      with f other [of "rSessionKey r"] show ?thesis by (simp add: fiber_ok_def)
    qed (use f in \<open>simp add: fiber_ok_def\<close>)
  qed
  ultimately have "sessions_ok m" by (rule sessions_okI)
  with ok wf show ?thesis by (simp add: ledger_ok_def maps_ok_def grants_ok_def m)
qed

lemma ledger_ok_OnPark:
  assumes ok: "ledger_ok l"
  shows "ledger_ok (fst (OnPark l fid d))"
proof (cases "map_of (lFibers l) fid")
  case (Some ref)
  show ?thesis
  proof (cases "rSessionKey ref = []")
    case True
    then show ?thesis
      by (intro ledger_ok_drop [OF ok Some])
        (simp_all add: OnPark_anonymous [OF Some] ledger_ok_wf [OF ok])
  next
    case False
    then obtain s where s: "map_of (lSessions l) (rSessionKey ref) = Some s"
      "rSessionKey ref = session_key (sGrantUID s) (sName s)" "sName s \<noteq> []"
      using named_fiber [OF ok Some] by metis
    show ?thesis
      by (rule ledger_ok_drop [OF ok Some])
        (use False s in \<open>auto simp: OnPark_named [OF Some False s(1)] ledger_ok_wf [OF ok] gomap\<close>)
  qed
qed (simp add: OnPark_unknown ok)

lemma ledger_ok_onGone:
  assumes ok: "ledger_ok l"
  shows "ledger_ok (fst (onGone l fid))"
proof (cases "map_of (lFibers l) fid")
  case (Some ref)
  show ?thesis
  proof (cases "rSessionKey ref = []")
    case True
    then show ?thesis
      by (intro ledger_ok_drop [OF ok Some])
        (simp_all add: onGone_anonymous [OF Some] ledger_ok_wf [OF ok])
  next
    case False
    then obtain s where s: "map_of (lSessions l) (rSessionKey ref) = Some s"
      using named_fiber [OF ok Some] by metis
    show ?thesis
      by (rule ledger_ok_drop [OF ok Some])
        (use False s in \<open>auto simp: onGone_named [OF Some False s] ledger_ok_wf [OF ok] gomap\<close>)
  qed
qed (simp add: onGone_unknown ok)

lemma restoreParked_shape:
  assumes "restoreParked l s = Inr m"
  shows "map_of (lGrants l) (ssGrantUID s) \<noteq> None"
    "map_of (lSessions l) (session_key (ssGrantUID s) (ssName s)) = None"
    "m = l\<lparr>lSessions := AList.update (session_key (ssGrantUID s) (ssName s))
          \<lparr>sName = ssName s, sGrantUID = ssGrantUID s, sState = StateParked, sFence = ssFence s,
           sHandle = no_handle, sDeltaRef = ssDeltaRef s\<rparr> (lSessions l)\<rparr>"
  using assms by (auto simp: restoreParked_def Let_def split: option.splits)

lemma ledger_ok_restoreParked:
  assumes ok: "ledger_ok l" and r: "restoreParked l s = Inr m"
  shows "ledger_ok m"
proof -
  note sh = restoreParked_shape [OF r]
  have "session_ok m k t" if "map_of (lSessions m) k = Some t" for k t
    using that ledger_okD(4) [OF ok, of k t]
    by (auto simp: sh(3) gomap session_ok_def split: if_splits)
  moreover have "fiber_ok m x f" if xf: "map_of (lFibers m) x = Some f" for x f
  proof -
    from xf have f: "fiber_ok l x f" by (intro ledger_okD(5) [OF ok]) (simp add: sh(3))
    with sh(2) show ?thesis
      by (cases "rSessionKey f = []") (auto simp: fiber_ok_def sh(3) gomap)
  qed
  ultimately have "sessions_ok m" by (rule sessions_okI)
  with ok show ?thesis by (simp add: ledger_ok_def maps_ok_def grants_ok_def sh(3))
qed

section \<open>Resolution\<close>

text \<open>
  The two shapes of a successful resolution: attaching to a running session changes nothing, and
  \<open>minted l p uid l' r\<close> says that \<open>l'\<close> is \<open>l\<close> with one more reservation on the entry at \<open>p\<close> and its
  next sequence number in \<open>r\<close>'s fence.
\<close>

definition minted :: "Ledger \<Rightarrow> nat \<Rightarrow> string \<Rightarrow> Ledger \<Rightarrow> resolution \<Rightarrow> bool" where
  "minted l p uid l' r \<longleftrightarrow>
     l' = set_entry l p ((entry l p)\<lparr>eLive := eLive (entry l p) + 1, eNextSeq := eNextSeq (entry l p) + 1\<rparr>) \<and>
     rzFence r = \<lparr>fGrantUID = uid, fEpoch = lEpoch l, fSeq = eNextSeq (entry l p) + 1\<rparr> \<and>
     rzReserved r \<and> \<not> rzCommitted r \<and>
     (gFiberMax (eGrant (entry l p)) > 0 \<longrightarrow> eLive (entry l p) < gFiberMax (eGrant (entry l p)))"

lemma set_entry_twice [simp]: "set_entry (set_entry l p e) p f = set_entry l p f"
  by (simp add: set_entry_def)

lemma reserve_mint_cases:
  assumes "p < length (lEntries l)"
  shows "(\<exists>r. reserve_mint l p uid key hold act ref = (fst (reserve_mint l p uid key hold act ref), Inr r) \<and>
            minted l p uid (fst (reserve_mint l p uid key hold act ref)) r \<and>
            rzAction r = act \<and> rzRef r = ref \<and> rzGrantUID r = uid \<and> rzKey r = key \<and>
            rzEntry r = p \<and> rzHold r = hold)
       \<or> reserve_mint l p uid key hold act ref = (l, Inl (ESentinel ErrGrantFull)) \<and>
         gFiberMax (eGrant (entry l p)) > 0 \<and> eLive (entry l p) \<ge> gFiberMax (eGrant (entry l p))"
proof (cases "gFiberMax (eGrant (entry l p)) > 0 \<and> eLive (entry l p) \<ge> gFiberMax (eGrant (entry l p))")
  case True
  then show ?thesis by (simp add: reserve_mint_def reserve_def)
next
  case False
  have "entry (add_live l p 1) p = (entry l p)\<lparr>eLive := eLive (entry l p) + 1\<rparr>"
    using assms by (simp add: entry_add_live)
  with False show ?thesis
    by (auto simp: reserve_mint_def reserve_def mint_def minted_def Let_def add_live_def)
qed

text \<open>What a resolution answers, on every branch.\<close>

definition known_session :: "Ledger \<Rightarrow> string \<Rightarrow> string \<Rightarrow> Session option" where
  "known_session l uid session =
     (if session \<noteq> [] then map_of (lSessions l) (session_key uid session) else None)"

definition admits :: "Ledger \<Rightarrow> gotime \<Rightarrow> string \<Rightarrow> Tier \<Rightarrow> nat \<Rightarrow> bool" where
  "admits l now uid tier p \<longleftrightarrow>
     map_of (lGrants l) uid = Some p \<and> \<not> Expired (eGrant (entry l p)) now \<and>
     gMinTier (eGrant (entry l p)) \<le> tier"

lemma resolveHeld_admitted:
  assumes "admits l now uid tier p"
  shows "resolveHeld l now hold uid session tier =
     (case known_session l uid session of
        Some s \<Rightarrow>
          (case sState s of
             StateRunning \<Rightarrow>
               (l, Inr \<lparr>rzAction = ActAttach, rzFence = sFence s, rzRef = hEndpoint (sHandle s),
                        rzGrantUID = uid, rzKey = session_key uid session, rzEntry = p,
                        rzReserved = False, rzCommitted = False, rzHold = hold\<rparr>)
           | StateParked \<Rightarrow>
               if tier < TierCheckpoint then (l, Inl (ESentinel ErrNeedsTier))
               else reserve_mint l p uid (session_key uid session) hold ActResume (sDeltaRef s))
      | None \<Rightarrow> reserve_mint l p uid (session_key uid session) hold ActCreate [])"
proof -
  from assms have "\<not> tier < gMinTier (eGrant (entry l p))" by (simp add: admits_def not_less)
  with assms show ?thesis
    by (simp add: resolveHeld_def admits_def known_session_def Let_def)
qed

lemma resolveHeld_cases:
  assumes ok: "grants_ok l" and res: "resolveHeld l now hold uid session tier = (l', out)"
  obtains (refused) e where "out = Inl (ESentinel e)" "l' = l"
      "e \<in> {ErrGrantUnknown, ErrGrantExpired, ErrNeedsTier, ErrGrantFull}"
  | (attach) p s r where "out = Inr r" "l' = l" "admits l now uid tier p"
      "known_session l uid session = Some s" "sState s = StateRunning"
      "r = \<lparr>rzAction = ActAttach, rzFence = sFence s, rzRef = hEndpoint (sHandle s),
            rzGrantUID = uid, rzKey = session_key uid session, rzEntry = p, rzReserved = False,
            rzCommitted = False, rzHold = hold\<rparr>"
  | (resume) p s r where "out = Inr r" "minted l p uid l' r" "admits l now uid tier p"
      "known_session l uid session = Some s" "sState s = StateParked" "TierCheckpoint \<le> tier"
      "rzAction r = ActResume" "rzRef r = sDeltaRef s" "rzGrantUID r = uid"
      "rzKey r = session_key uid session" "rzEntry r = p" "rzHold r = hold"
  | (create) p r where "out = Inr r" "minted l p uid l' r" "admits l now uid tier p"
      "known_session l uid session = None"
      "rzAction r = ActCreate" "rzRef r = []" "rzGrantUID r = uid"
      "rzKey r = session_key uid session" "rzEntry r = p" "rzHold r = hold"
proof (cases "\<exists>p. admits l now uid tier p")
  case False
  with res show ?thesis
    by (intro refused [of "case map_of (lGrants l) uid of None \<Rightarrow> ErrGrantUnknown | Some p \<Rightarrow>
          if Expired (eGrant (entry l p)) now then ErrGrantExpired else ErrNeedsTier"])
      (auto simp: resolveHeld_def admits_def Let_def not_le split: option.splits if_splits)
next
  case True
  then obtain p where p: "admits l now uid tier p" ..
  then have len: "p < length (lEntries l)" using ok by (auto simp: admits_def grants_ok_def)
  note mintc = reserve_mint_cases [OF len, of uid "session_key uid session" hold]
  note out = res [unfolded resolveHeld_admitted [OF p]]
  show ?thesis
  proof (cases "known_session l uid session")
    case None
    with out have "reserve_mint l p uid (session_key uid session) hold ActCreate [] = (l', out)"
      by simp
    with mintc [of ActCreate "[]"] p None show ?thesis by (auto intro: create refused)
  next
    case (Some s)
    show ?thesis
    proof (cases "sState s")
      case StateRunning
      with p out Some show ?thesis by (intro attach [of _ p s]) auto
    next
      case StateParked
      show ?thesis
      proof (cases "tier < TierCheckpoint")
        case True
        with out Some StateParked show ?thesis by (intro refused [of ErrNeedsTier]) auto
      next
        case False
        with out Some StateParked
        have "reserve_mint l p uid (session_key uid session) hold ActResume (sDeltaRef s) = (l', out)"
          by simp
        with mintc [of ActResume "sDeltaRef s"] p Some StateParked False show ?thesis
          by (auto simp: not_less intro: resume refused)
      qed
    qed
  qed
qed

lemma minted_frame:
  assumes "minted l p uid l' r"
  shows "lEpoch l' = lEpoch l" "lGrants l' = lGrants l" "lSessions l' = lSessions l"
    "lFibers l' = lFibers l" "lPerSession l' = lPerSession l" "lSeqHigh l' = lSeqHigh l"
    "length (lEntries l') = length (lEntries l)"
  using assms by (auto simp: minted_def)

lemma minted_entry:
  assumes "minted l p uid l' r" "p < length (lEntries l)"
  shows "entry l' q = (if q = p then (entry l p)\<lparr>eLive := eLive (entry l p) + 1,
      eNextSeq := eNextSeq (entry l p) + 1\<rparr> else entry l q)"
  using assms by (simp add: minted_def entry_set_entry)

lemma minted_entry_grant:
  assumes "minted l p uid l' r"
  shows "eGrant (entry l' q) = eGrant (entry l q)"
proof (cases "p < length (lEntries l)")
  case True
  with minted_entry [OF assms True] show ?thesis by simp
next
  case False
  with assms show ?thesis by (simp add: minted_def entry_set_entry_out)
qed

lemma ledger_ok_minted: "ledger_ok l \<Longrightarrow> minted l p uid l' r \<Longrightarrow> ledger_ok l'"
  by (rule ledger_ok_cong [of l])
    (simp_all add: minted_frame [of l p uid l' r] minted_entry_grant [of l p uid l' r] ledger_ok_wf)

lemma ledger_ok_resolveHeld:
  assumes "ledger_ok l"
  shows "ledger_ok (fst (resolveHeld l now hold uid session tier))"
proof -
  obtain l' out where res: "resolveHeld l now hold uid session tier = (l', out)" by fastforce
  show ?thesis
    by (cases rule: resolveHeld_cases [OF ledger_okD(2) [OF assms] res])
      (use assms res in \<open>auto intro: ledger_ok_minted\<close>)
qed

lemma ledger_ok_unlock: "ledger_ok l \<Longrightarrow> ledger_ok (res_unlock l r)"
  by (simp add: res_unlock_def ledger_ok_gate_ops ledger_ok_add_live)

text \<open>
  The commit step keeps the invariant when the runtime's handle is new, and the session being
  committed is the one resolved and is not running already.
\<close>

definition commits :: "Ledger \<Rightarrow> resolution \<Rightarrow> Session \<Rightarrow> bool" where
  "commits l r s \<longleftrightarrow>
     hID (sHandle s) \<noteq> [] \<and> map_of (lFibers l) (hID (sHandle s)) = None \<and>
     sState s = StateRunning \<and> sGrantUID s = rzGrantUID r \<and> fGrantUID (sFence s) = rzGrantUID r \<and>
     (sName s \<noteq> [] \<longrightarrow> rzKey r = session_key (rzGrantUID r) (sName s) \<and>
        (\<forall>t. map_of (lSessions l) (rzKey r) = Some t \<longrightarrow> sState t = StateParked))"

lemma commit_shape:
  assumes "res_commit l r refuse s = (l', r', True)" "hID (sHandle s) \<noteq> []"
  shows "lEpoch l' = lEpoch l" "lGrants l' = lGrants l" "lEntries l' = lEntries l"
    "lPerSession l' = lPerSession l" "lSeqHigh l' = lSeqHigh l" "entry l' = entry l"
    "lFibers l' = AList.update (hID (sHandle s))
       \<lparr>rGrantUID = rzGrantUID r, rSessionKey = (if sName s \<noteq> [] then rzKey r else []),
        rFence = sFence s, rWUsed = 0\<rparr> (lFibers l)"
    "lSessions l' = (if sName s \<noteq> [] then AList.update (rzKey r) s (lSessions l) else lSessions l)"
    "r' = r\<lparr>rzCommitted := True\<rparr>" "\<not> commit_refused l r (sFence s) refuse"
  using assms
  by (auto simp: res_commit_def Let_def entry_def fun_eq_iff split: if_splits)

lemma commit_refused_unchanged:
  "res_commit l r refuse s = (l', r', False) \<Longrightarrow> l' = l \<and> r' = r \<and> commit_refused l r (sFence s) refuse"
  by (auto simp: res_commit_def Let_def split: if_splits)

lemma ledger_ok_commit:
  assumes ok: "ledger_ok l" and c: "commits l r s" and com: "res_commit l r refuse s = (l', r', True)"
  shows "ledger_ok l'"
proof -
  let ?fid = "hID (sHandle s)"
  have h: "?fid \<noteq> []" using c by (simp add: commits_def)
  note sh = commit_shape [OF com h]
  have old: "map_of (lFibers l') x = map_of (lFibers l) x" if "x \<noteq> ?fid" for x
    using that by (simp add: sh gomap)
  have "session_ok l' k t" if kt: "map_of (lSessions l') k = Some t" for k t
  proof (cases "sName s \<noteq> [] \<and> k = rzKey r")
    case True
    with kt c show ?thesis by (auto simp: sh gomap session_ok_def commits_def)
  next
    case False
    with kt have l: "map_of (lSessions l) k = Some t" by (auto simp: sh gomap split: if_splits)
    then have k: "session_ok l k t" by (rule ledger_okD(4) [OF ok])
    have "hID (sHandle t) \<noteq> ?fid" if "sState t = StateRunning"
      using k c that by (auto simp: session_ok_def commits_def)
    with k old show ?thesis by (auto simp: session_ok_def)
  qed
  moreover have "fiber_ok l' x f" if xf: "map_of (lFibers l') x = Some f" for x f
  proof (cases "x = ?fid")
    case True
    with xf c show ?thesis by (auto simp: sh gomap fiber_ok_def commits_def)
  next
    case False
    with xf old have l: "map_of (lFibers l) x = Some f" by simp
    have f: "fiber_ok l x f" by (rule ledger_okD(5) [OF ok l])
    show ?thesis
    proof (cases "rSessionKey f = []")
      case False
      obtain t where "map_of (lSessions l) (rSessionKey f) = Some t" "sState t = StateRunning"
        using named_fiber [OF ok l False] .
      with c have "sName s = [] \<or> rSessionKey f \<noteq> rzKey r" by (auto simp: commits_def)
      with f show ?thesis by (auto simp: fiber_ok_def sh gomap)
    qed (use f in \<open>simp add: fiber_ok_def\<close>)
  qed
  ultimately have "sessions_ok l'" by (rule sessions_okI)
  with ok show ?thesis by (simp add: ledger_ok_def maps_ok_def grants_ok_def sh)
qed

section \<open>Statuses\<close>

text \<open>The reference: each grant's record computed on its own, by counting.\<close>

definition status_of :: "Ledger \<Rightarrow> string \<times> nat \<Rightarrow> Status" where
  "status_of l g =
     \<lparr>stGrantUID = fst g, stRunning = eLive (entry l (snd g)),
      stParked = int (length (filter (\<lambda>s. sGrantUID s = fst g \<and> sState s = StateParked)
                                (map snd (lSessions l)))),
      stPooled = ePooled (entry l (snd g)),
      stWUsedBytes = sum_list (map rWUsed (filter (\<lambda>ref. rGrantUID ref = fst g) (map snd (lFibers l)))),
      stLatest = \<lparr>fGrantUID = fst g, fEpoch = lEpoch l, fSeq = eNextSeq (entry l (snd g))\<rparr>\<rparr>"

lemma slot_of_Some:
  "slot_of out uid = Some i \<Longrightarrow> i < length out \<and> stGrantUID (out ! i) = uid"
  by (induction out arbitrary: i) (auto split: if_splits)

lemma slot_of_None: "slot_of out uid = None \<longleftrightarrow> (\<forall>st \<in> set out. stGrantUID st \<noteq> uid)"
  by (induction out) auto

lemma slot_update:
  assumes "distinct (map stGrantUID out)" "slot_of out uid = Some i"
  shows "out[i := f (out ! i)] = map (\<lambda>st. if stGrantUID st = uid then f st else st) out"
proof (rule nth_equalityI)
  fix j assume "j < length (out[i := f (out ! i)])"
  then have j: "j < length out" by simp
  from slot_of_Some [OF assms(2)] have i: "i < length out" "stGrantUID (out ! i) = uid" by auto
  show "out[i := f (out ! i)] ! j = map (\<lambda>st. if stGrantUID st = uid then f st else st) out ! j"
  proof (cases "j = i")
    case False
    with assms(1) i j have "stGrantUID (out ! j) \<noteq> uid"
      by (metis distinct_conv_nth length_map nth_map)
    with False j show ?thesis by simp
  qed (use i in simp)
qed simp

lemma add_fiber_w_map:
  assumes "distinct (map stGrantUID out)"
  shows "add_fiber_w out ref = map (\<lambda>st. if stGrantUID st = rGrantUID ref
     then st\<lparr>stWUsedBytes := stWUsedBytes st + rWUsed ref\<rparr> else st) out"
proof (cases "slot_of out (rGrantUID ref)")
  case None
  then show ?thesis by (simp add: add_fiber_w_def) (rule sym, rule map_idI, auto simp: slot_of_None)
next
  case (Some i)
  from slot_update [OF assms this, of "\<lambda>st. st\<lparr>stWUsedBytes := stWUsedBytes st + rWUsed ref\<rparr>"] Some
  show ?thesis by (simp add: add_fiber_w_def)
qed

lemma add_parked_map:
  assumes "distinct (map stGrantUID out)"
  shows "add_parked out s = map (\<lambda>st. if stGrantUID st = sGrantUID s \<and> sState s = StateParked
     then st\<lparr>stParked := stParked st + 1\<rparr> else st) out"
proof (cases "slot_of out (sGrantUID s)")
  case None
  then show ?thesis by (simp add: add_parked_def) (rule sym, rule map_idI, auto simp: slot_of_None)
next
  case (Some i)
  from slot_update [OF assms this, of "\<lambda>st. st\<lparr>stParked := stParked st + 1\<rparr>"] Some
  show ?thesis by (simp add: add_parked_def)
qed

lemma fold_fiber_w:
  assumes "distinct (map stGrantUID out)"
  shows "foldl add_fiber_w out refs = map (\<lambda>st. st\<lparr>stWUsedBytes := stWUsedBytes st +
     sum_list (map rWUsed (filter (\<lambda>ref. rGrantUID ref = stGrantUID st) refs))\<rparr>) out"
  using assms
proof (induction refs arbitrary: out)
  case (Cons ref refs)
  have "map stGrantUID (add_fiber_w out ref) = map stGrantUID out"
    by (auto simp: add_fiber_w_map [OF Cons.prems])
  with Cons.prems have "distinct (map stGrantUID (add_fiber_w out ref))" by metis
  from Cons.IH [OF this] show ?case
    by (auto simp: add_fiber_w_map [OF Cons.prems] comp_def add.assoc)
qed simp

lemma fold_parked:
  assumes "distinct (map stGrantUID out)"
  shows "foldl add_parked out ss = map (\<lambda>st. st\<lparr>stParked := stParked st +
     int (length (filter (\<lambda>s. sGrantUID s = stGrantUID st \<and> sState s = StateParked) ss))\<rparr>) out"
  using assms
proof (induction ss arbitrary: out)
  case (Cons s ss)
  have "map stGrantUID (add_parked out s) = map stGrantUID out"
    by (auto simp: add_parked_map [OF Cons.prems])
  with Cons.prems have "distinct (map stGrantUID (add_parked out s))" by metis
  from Cons.IH [OF this] show ?case
    by (auto simp: add_parked_map [OF Cons.prems] comp_def)
qed simp

lemma map_sort_key: "map f (sort_key (g \<circ> f) xs) = sort_key g (map f xs)"
proof -
  have "map f (insort_key (g \<circ> f) x ys) = insort_key g (f x) (map f ys)" for x ys
    by (induction ys) auto
  then show ?thesis by (induction xs) auto
qed

text \<open>
  C17. \<open>Statuses\<close> makes one pass over the fibers and one over the sessions, each adding to its
  grant's slot. The result is one record per grant, in UID order, and each record is what
  counting that grant's fibers and sessions on their own gives: its live slots, the parked
  sessions under its UID, the sum (in 64 bits) of its fibers' dirty bytes, and the last fence it
  minted.
\<close>

lemma Statuses_reference:
  assumes "wf_map (lGrants l)"
  shows "Statuses l = map (status_of l) (sort_key fst (lGrants l))"
proof -
  let ?out = "slot_statuses l"
  have d: "distinct (map stGrantUID ?out)"
    using assms by (simp add: slot_statuses_def comp_def case_prod_beta)
  let ?w = "foldl add_fiber_w ?out (map snd (lFibers l))"
  have "map stGrantUID ?w = map stGrantUID ?out" by (simp add: fold_fiber_w [OF d] comp_def)
  with d have d': "distinct (map stGrantUID ?w)" by metis
  have "foldl add_parked ?w (map snd (lSessions l)) = map (status_of l) (lGrants l)"
    unfolding fold_parked [OF d'] unfolding fold_fiber_w [OF d]
    by (auto simp: slot_statuses_def status_of_def comp_def case_prod_beta)
  moreover have "map (status_of l) (sort_key fst (lGrants l)) =
      sort_key stGrantUID (map (status_of l) (lGrants l))"
    using map_sort_key [of "status_of l" stGrantUID "lGrants l"]
    by (simp add: comp_def status_of_def)
  ultimately show ?thesis by (simp add: Statuses_def Let_def)
qed

text \<open>A home with one grant, one running named fiber and one parked session, for the witnesses.\<close>

definition demo_ref :: fiberRef where
  "demo_ref = \<lparr>rGrantUID = ''g-1'', rSessionKey = ''g-1/run'',
     rFence = \<lparr>fGrantUID = ''g-1'', fEpoch = 7, fSeq = 2\<rparr>, rWUsed = 4096\<rparr>"

definition demo_running :: Session where
  "demo_running = \<lparr>sName = ''run'', sGrantUID = ''g-1'', sState = StateRunning,
     sFence = rFence demo_ref, sHandle = \<lparr>hID = ''f2'', hEndpoint = ''/run/f2'', hPooled = False\<rparr>,
     sDeltaRef = []\<rparr>"

definition demo_parked :: Session where
  "demo_parked = \<lparr>sName = ''nap'', sGrantUID = ''g-1'', sState = StateParked,
     sFence = \<lparr>fGrantUID = ''g-1'', fEpoch = 7, fSeq = 1\<rparr>, sHandle = no_handle, sDeltaRef = ''d1''\<rparr>"

definition demo_ledger :: Ledger where
  "demo_ledger =
     \<lparr>lEpoch = 7, lEntries = [\<lparr>eGrant = sample_grant, eNextSeq = 2, eLive = 1, ePooled = 0\<rparr>],
      lGrants = [(''g-1'', 0)], lSessions = [(''g-1/run'', demo_running), (''g-1/nap'', demo_parked)],
      lFibers = [(''f2'', demo_ref)], lPerSession = [], lSeqHigh = []\<rparr>"

lemma demo_ledger_ok: "ledger_ok demo_ledger"
  by (simp add: ledger_ok_defs demo_ledger_def demo_ref_def demo_running_def demo_parked_def
      sample_grant_def entry_def session_ok_def fiber_ok_def session_key_def no_handle_def)

theorem Statuses_reference_witness:
  "Statuses demo_ledger =
     [\<lparr>stGrantUID = ''g-1'', stRunning = 1, stParked = 1, stPooled = 0, stWUsedBytes = 4096,
       stLatest = \<lparr>fGrantUID = ''g-1'', fEpoch = 7, fSeq = 2\<rparr>\<rparr>]"
proof -
  have "wf_map (lGrants demo_ledger)" by (simp add: demo_ledger_def)
  from Statuses_reference [OF this] show ?thesis
    by (simp add: demo_ledger_def status_of_def demo_ref_def demo_running_def demo_parked_def entry_def)
qed

section \<open>What a resolution and the pool promise\<close>



text \<open>
  C18. \<open>PoolRoom\<close> never asks for a negative number of sandboxes, and filling the room it reports
  overshoots neither the grant's \<open>FiberWarm\<close> nor, when the grant caps its fibers, the slots that
  its live fibers leave under \<open>FiberMax\<close>. An unknown grant has no room.
\<close>

theorem PoolRoom_fits:
  "0 \<le> PoolRoom l uid \<and>
   (case map_of (lGrants l) uid of
      None \<Rightarrow> PoolRoom l uid = 0
    | Some p \<Rightarrow>
        ePooled (entry l p) + PoolRoom l uid \<le> max (gFiberWarm (eGrant (entry l p))) (ePooled (entry l p)) \<and>
        (gFiberMax (eGrant (entry l p)) \<le> 0 \<or>
         eLive (entry l p) + ePooled (entry l p) + PoolRoom l uid
           \<le> max (gFiberMax (eGrant (entry l p))) (eLive (entry l p) + ePooled (entry l p))))"
  by (auto simp: PoolRoom_def Let_def split: option.splits)

end
