(* ===== verification/Revoked.thy ===== *)
theory Revoked
  imports Grants
begin

text \<open>
  \<open>pkg/core/revoked.go\<close>: the deny-list of grants a home removed. The list lives in memory
  (\<open>rvUntil\<close>) and in a file of its own, rewritten by every change; \<open>write_outcome\<close> says how that
  write went. A file that \<open>save\<close> wrote reads back as the same map, since leases come from
  protobuf timestamps of the years 1 to 9999, which JSON carries to the nanosecond; other
  states of the path are \<open>RFUnreadable\<close> and \<open>RFGarbled\<close> with the error that the read or the JSON
  decoder gives.
\<close>

type_synonym denials = "(string, gotime) gomap"

record Revoked =
  rvTTL :: duration
  rvUntil :: denials

datatype revoked_file = RFAbsent | RFUnreadable goerr | RFGarbled goerr | RFDoc denials

definition DefaultRevokeTTL :: duration where
  "DefaultRevokeTTL = 24 * 3600 * second"

definition lapsed :: "gotime \<Rightarrow> gotime \<Rightarrow> bool" where
  "lapsed now t \<longleftrightarrow> \<not> IsZero t \<and> \<not> now < t"

definition OpenRevoked :: "string \<Rightarrow> duration \<Rightarrow> gotime \<Rightarrow> revoked_file \<Rightarrow> goerr + Revoked" where
  "OpenRevoked path ttl now f =
     (let ttl' = (if ttl \<le> 0 then DefaultRevokeTTL else ttl) in
      case f of
        RFAbsent \<Rightarrow> Inr \<lparr>rvTTL = ttl', rvUntil = []\<rparr>
      | RFUnreadable e \<Rightarrow> Inl e
      | RFGarbled e \<Rightarrow> Inl (EFmt [PStr (''revoked: '' @ path @ '' unreadable: ''), PErr e])
      | RFDoc m \<Rightarrow> Inr \<lparr>rvTTL = ttl', rvUntil = filter (\<lambda>(uid, t). \<not> lapsed now t) m\<rparr>)"

text \<open>The zero time means for good.\<close>

definition outlasts :: "gotime \<Rightarrow> gotime \<Rightarrow> bool" where
  "outlasts a b \<longleftrightarrow> \<not> IsZero b \<and> (IsZero a \<or> a > b)"

definition Revoked_save :: "write_outcome \<Rightarrow> Revoked \<Rightarrow> revoked_file \<Rightarrow> revoked_file" where
  "Revoked_save w r f = after_write w f (RFDoc (rvUntil r))"

definition Revoked_Add ::
  "Revoked \<Rightarrow> revoked_file \<Rightarrow> string \<Rightarrow> gotime \<Rightarrow> gotime \<Rightarrow> write_outcome \<Rightarrow> Revoked \<times> revoked_file \<times> bool" where
  "Revoked_Add r f uid lease now w =
     (let until = (if \<not> IsZero lease \<and> now + rvTTL r > lease then now + rvTTL r else lease);
          r' = (if (case map_of (rvUntil r) uid of None \<Rightarrow> True | Some old \<Rightarrow> outlasts until old)
                then r\<lparr>rvUntil := AList.update uid until (rvUntil r)\<rparr> else r)
      in (r', Revoked_save w r' f, w = Wrote))"

definition Denied ::
  "Revoked \<Rightarrow> revoked_file \<Rightarrow> string \<Rightarrow> gotime \<Rightarrow> gotime \<Rightarrow> write_outcome \<Rightarrow> Revoked \<times> revoked_file \<times> bool" where
  "Denied r f uid lease now w =
     (case map_of (rvUntil r) uid of
        None \<Rightarrow> (r, f, False)
      | Some until \<Rightarrow>
          if lapsed now until then
            (let r' = r\<lparr>rvUntil := AList.delete uid (rvUntil r)\<rparr> in (r', Revoked_save w r' f, False))
          else if outlasts lease until then
            (let r' = r\<lparr>rvUntil := AList.update uid lease (rvUntil r)\<rparr> in (r', Revoked_save w r' f, True))
          else (r, f, True))"

text \<open>\<open>Clear\<close> answers whether there was an entry, and whether the save returned nil.\<close>

definition Revoked_Clear ::
  "Revoked \<Rightarrow> revoked_file \<Rightarrow> string \<Rightarrow> write_outcome \<Rightarrow> Revoked \<times> revoked_file \<times> bool \<times> bool" where
  "Revoked_Clear r f uid w =
     (case map_of (rvUntil r) uid of
        None \<Rightarrow> (r, f, False, True)
      | Some t \<Rightarrow>
          (let r' = r\<lparr>rvUntil := AList.delete uid (rvUntil r)\<rparr> in
           (r', Revoked_save w r' f, True, w = Wrote)))"

section \<open>A home's life as the deny-list sees it\<close>

datatype rv_event =
    RvAdd string gotime gotime write_outcome
  | RvDenied string gotime gotime write_outcome
  | RvClear string write_outcome
  | RvRestart string duration gotime

fun rv_step :: "rv_event \<Rightarrow> Revoked \<times> revoked_file \<Rightarrow> (Revoked \<times> revoked_file) option" where
  "rv_step (RvAdd uid lease now w) (r, f) =
     (let (r', f', ok) = Revoked_Add r f uid lease now w in Some (r', f'))"
| "rv_step (RvDenied uid lease now w) (r, f) =
     (let (r', f', d) = Denied r f uid lease now w in Some (r', f'))"
| "rv_step (RvClear uid w) (r, f) =
     (let (r', f', d, ok) = Revoked_Clear r f uid w in Some (r', f'))"
| "rv_step (RvRestart path ttl now) (r, f) =
     (case OpenRevoked path ttl now f of Inl e \<Rightarrow> None | Inr r' \<Rightarrow> Some (r', f))"

fun rv_run :: "rv_event list \<Rightarrow> Revoked \<times> revoked_file \<Rightarrow> (Revoked \<times> revoked_file) option" where
  "rv_run [] s = Some s"
| "rv_run (e # es) s = (case rv_step e s of None \<Rightarrow> None | Some s' \<Rightarrow> rv_run es s')"

fun rv_by :: "gotime \<Rightarrow> rv_event \<Rightarrow> bool" where
  "rv_by t (RvAdd uid lease now w) = (now \<le> t)"
| "rv_by t (RvDenied uid lease now w) = (now \<le> t)"
| "rv_by t (RvClear uid w) = True"
| "rv_by t (RvRestart path ttl now) = (now \<le> t)"

fun rv_written :: "rv_event \<Rightarrow> bool" where
  "rv_written (RvAdd uid lease now w) = (w \<noteq> FailedOld)"
| "rv_written (RvDenied uid lease now w) = (w \<noteq> FailedOld)"
| "rv_written (RvClear uid w) = (w \<noteq> FailedOld)"
| "rv_written (RvRestart path ttl now) = True"

fun rv_clears :: "string \<Rightarrow> rv_event \<Rightarrow> bool" where
  "rv_clears uid (RvClear u w) = (u = uid)"
| "rv_clears uid _ = False"

fun rv_restarts :: "rv_event \<Rightarrow> bool" where
  "rv_restarts (RvRestart path ttl now) = True"
| "rv_restarts _ = False"

text \<open>\<open>denies m uid t\<close>: the entry for \<open>uid\<close> holds through the time \<open>t\<close>.\<close>

definition denies :: "denials \<Rightarrow> string \<Rightarrow> gotime \<Rightarrow> bool" where
  "denies m uid t \<longleftrightarrow> (\<exists>u. map_of m uid = Some u \<and> (IsZero u \<or> t < u))"

definition file_denies :: "revoked_file \<Rightarrow> string \<Rightarrow> gotime \<Rightarrow> bool" where
  "file_denies f uid t \<longleftrightarrow> (\<exists>m. f = RFDoc m \<and> wf_map m \<and> denies m uid t)"

lemma map_of_filter_wf:
  "wf_map m \<Longrightarrow> map_of (filter (\<lambda>(k, v). P v) m) k =
     (case map_of m k of None \<Rightarrow> None | Some v \<Rightarrow> if P v then Some v else None)"
  by (induction m) (auto simp: map_of_eq_None_iff split: option.splits)

lemma wf_map_filter: "wf_map m \<Longrightarrow> wf_map (filter P m)"
  by (induction m) auto

lemma denies_put_longer:
  "denies m uid t \<Longrightarrow> (u = uid \<Longrightarrow> \<forall>old. map_of m uid = Some old \<longrightarrow> outlasts v old) \<Longrightarrow>
   denies (AList.update u v m) uid t"
  by (cases "u = uid") (auto simp: denies_def gomap outlasts_def)

lemma file_denies_save:
  assumes "wf_map (rvUntil r)" "denies (rvUntil r) uid t" "file_denies f uid t \<or> w \<noteq> FailedOld"
  shows "file_denies (Revoked_save w r f) uid t"
  using assms by (cases w) (auto simp: file_denies_def Revoked_save_def)

lemma Add_wf: "wf_map (rvUntil r) \<Longrightarrow> wf_map (rvUntil (fst (Revoked_Add r f uid lease now w)))"
  by (simp add: Revoked_Add_def Let_def)

lemma Add_keeps:
  "denies (rvUntil r) uid t \<Longrightarrow> denies (rvUntil (fst (Revoked_Add r f u lease now w))) uid t"
  by (auto simp: Revoked_Add_def Let_def intro!: denies_put_longer split: option.splits)

lemma Add_denies:
  assumes "IsZero lease \<or> t < lease \<or> t < now + rvTTL r"
  shows "denies (rvUntil (fst (Revoked_Add r f uid lease now w))) uid t"
  using assms by (auto simp: Revoked_Add_def Let_def denies_def gomap outlasts_def split: option.splits)

lemma Denied_keeps:
  assumes "denies (rvUntil r) uid t" "now \<le> t"
  shows "denies (rvUntil (fst (Denied r f u lease now w))) uid t"
  using assms
  by (cases "u = uid") (auto simp: Denied_def Let_def denies_def gomap lapsed_def outlasts_def split: option.splits)

lemma Denied_True:
  assumes "denies (rvUntil r) uid t"
  shows "snd (snd (Denied r f uid lease t w))"
  using assms by (auto simp: Denied_def denies_def lapsed_def Let_def)

lemma Denied_wf: "wf_map (rvUntil r) \<Longrightarrow> wf_map (rvUntil (fst (Denied r f uid lease now w)))"
  by (auto simp: Denied_def Let_def split: option.splits)

lemma Denied_file:
  assumes "wf_map (rvUntil r)" "denies (rvUntil r) uid t" "now \<le> t" "file_denies f uid t" "w \<noteq> FailedOld"
  shows "file_denies (fst (snd (Denied r f u lease now w))) uid t"
proof (cases "fst (snd (Denied r f u lease now w)) = f")
  case False
  then have "fst (snd (Denied r f u lease now w)) = Revoked_save w (fst (Denied r f u lease now w)) f"
    by (auto simp: Denied_def Let_def split: option.splits)
  with assms show ?thesis by (simp add: file_denies_save Denied_wf Denied_keeps)
qed (simp add: assms)

lemma Clear_keeps:
  assumes "denies (rvUntil r) uid t" "u \<noteq> uid"
  shows "denies (rvUntil (fst (Revoked_Clear r f u w))) uid t"
  using assms by (auto simp: Revoked_Clear_def Let_def denies_def gomap split: option.splits)

lemma Clear_wf: "wf_map (rvUntil r) \<Longrightarrow> wf_map (rvUntil (fst (Revoked_Clear r f uid w)))"
  by (auto simp: Revoked_Clear_def Let_def split: option.splits)

lemma Clear_file:
  assumes "wf_map (rvUntil r)" "denies (rvUntil r) uid t" "u \<noteq> uid" "file_denies f uid t" "w \<noteq> FailedOld"
  shows "file_denies (fst (snd (Revoked_Clear r f u w))) uid t"
proof (cases "fst (snd (Revoked_Clear r f u w)) = f")
  case False
  then have "fst (snd (Revoked_Clear r f u w)) = Revoked_save w (fst (Revoked_Clear r f u w)) f"
    by (auto simp: Revoked_Clear_def Let_def split: option.splits)
  with assms show ?thesis by (simp add: file_denies_save Clear_wf Clear_keeps)
qed (simp add: assms)

lemma restart_keeps:
  assumes "file_denies f uid t" "now \<le> t"
  obtains r where "OpenRevoked path ttl now f = Inr r" "denies (rvUntil r) uid t" "wf_map (rvUntil r)"
proof -
  obtain m where m: "f = RFDoc m" "wf_map m" "denies m uid t" using assms(1) by (auto simp: file_denies_def)
  let ?m = "filter (\<lambda>(uid, u). \<not> lapsed now u) m"
  have "denies ?m uid t"
    using m(3) assms(2) map_of_filter_wf [OF m(2), of "\<lambda>u. \<not> lapsed now u" uid]
    by (auto simp: denies_def lapsed_def)
  with m show ?thesis by (intro that) (auto simp: OpenRevoked_def Let_def wf_map_filter)
qed

text \<open>The list in memory denies; with every write on disk the file does too, and a restart keeps both.\<close>

definition rv_inv :: "bool \<Rightarrow> string \<Rightarrow> gotime \<Rightarrow> Revoked \<times> revoked_file \<Rightarrow> bool" where
  "rv_inv disk uid t s \<longleftrightarrow>
     wf_map (rvUntil (fst s)) \<and> denies (rvUntil (fst s)) uid t \<and> (disk \<longrightarrow> file_denies (snd s) uid t)"

lemma rv_step_inv:
  assumes "rv_inv disk uid t s" "rv_by t e" "\<not> rv_clears uid e"
    and "disk \<and> rv_written e \<or> \<not> disk \<and> \<not> rv_restarts e"
  shows "\<exists>s'. rv_step e s = Some s' \<and> rv_inv disk uid t s'"
proof -
  obtain r f where s: "s = (r, f)" by (cases s)
  show ?thesis
  proof (cases e)
    case (RvAdd u lease now w)
    have "fst (snd (Revoked_Add r f u lease now w)) = Revoked_save w (fst (Revoked_Add r f u lease now w)) f"
      by (simp add: Revoked_Add_def Let_def)
    with assms RvAdd s show ?thesis
      by (auto simp: rv_inv_def case_prod_beta Add_wf Add_keeps intro!: file_denies_save)
  next
    case (RvDenied u lease now w)
    with assms s show ?thesis
      by (auto simp: rv_inv_def case_prod_beta Denied_wf Denied_keeps Denied_file)
  next
    case (RvClear u w)
    with assms s show ?thesis
      by (auto simp: rv_inv_def case_prod_beta Clear_wf Clear_keeps Clear_file)
  next
    case (RvRestart path ttl now)
    with assms s have "file_denies f uid t" "now \<le> t" and d: disk by (auto simp: rv_inv_def)
    then obtain r' where "OpenRevoked path ttl now f = Inr r'" "denies (rvUntil r') uid t" "wf_map (rvUntil r')"
      using restart_keeps by metis
    with assms(1) RvRestart s show ?thesis by (simp add: rv_inv_def)
  qed
qed

lemma rv_run_inv:
  assumes "rv_inv disk uid t s" "\<forall>e \<in> set es. rv_by t e \<and> \<not> rv_clears uid e"
    and "disk \<and> (\<forall>e \<in> set es. rv_written e) \<or> \<not> disk \<and> (\<forall>e \<in> set es. \<not> rv_restarts e)"
  shows "\<exists>s'. rv_run es s = Some s' \<and> rv_inv disk uid t s'"
  using assms
proof (induction es arbitrary: s)
  case (Cons e es)
  then obtain s' where "rv_step e s = Some s'" "rv_inv disk uid t s'"
    using rv_step_inv [of disk uid t s e] by auto
  with Cons.IH [of s'] Cons.prems show ?case by auto
qed simp



end
