(* ===== verification/Backpressure.thy ===== *)
theory Backpressure
  imports Core_Errors
begin

text \<open>
  \<open>pkg/core/health.go\<close>, whether the issuer is reachable, and \<open>pkg/core/ratelimit.go\<close>, the clone
  rate limit. The clock readings are arguments. The rate limit's \<open>float64\<close> values are rationals
  here, so its rounding is not modelled; \<open>Take\<close> reads the monotonic clock under the lock, so its
  readings do not go back.
\<close>

section \<open>SourceHealth\<close>

record SourceHealth =
  shStale :: duration
  shRecover :: duration
  shLastSync :: gotime
  shDegraded :: bool

text \<open>Go's integer division truncates towards zero.\<close>

definition half :: "duration \<Rightarrow> duration" where
  "half d = (if d \<ge> 0 then d div 2 else - ((- d) div 2))"

definition NewSourceHealth :: "duration \<Rightarrow> gotime \<Rightarrow> SourceHealth" where
  "NewSourceHealth stale now =
     \<lparr>shStale = stale, shRecover = half stale, shLastSync = now, shDegraded = False\<rparr>"

definition MarkSync :: "SourceHealth \<Rightarrow> gotime \<Rightarrow> SourceHealth" where
  "MarkSync h now = h\<lparr>shLastSync := now\<rparr>"

definition Healthy :: "SourceHealth \<Rightarrow> gotime \<Rightarrow> SourceHealth \<times> bool" where
  "Healthy h now =
     (let age = now - shLastSync h;
          h' = (if age \<ge> shStale h then h\<lparr>shDegraded := True\<rparr>
                else if age < shRecover h then h\<lparr>shDegraded := False\<rparr> else h)
      in (h', \<not> shDegraded h'))"

datatype health_event = HSync gotime | HCheck gotime

fun health_step :: "health_event \<Rightarrow> SourceHealth \<Rightarrow> SourceHealth" where
  "health_step (HSync now) h = MarkSync h now"
| "health_step (HCheck now) h = fst (Healthy h now)"

definition health_run :: "health_event list \<Rightarrow> SourceHealth \<Rightarrow> SourceHealth" where
  "health_run es h = fold health_step es h"

lemma health_run_frame:
  "shStale (health_run es h) = shStale h \<and> shRecover (health_run es h) = shRecover h"
  unfolding health_run_def
proof (induction es arbitrary: h)
  case (Cons e es)
  show ?case using Cons.IH [of "health_step e h"] by (cases e) (auto simp: MarkSync_def Healthy_def Let_def)
qed simp



section \<open>RateLimit\<close>

record RateLimit =
  rlBase :: rat
  rlRefW :: rat
  rlW :: rat
  rlTokens :: rat
  rlBurst :: rat
  rlLast :: gotime

definition DefaultBaseRate :: rat where
  "DefaultBaseRate = 200"

definition DefaultRefW :: rat where
  "DefaultRefW = 256 * 2 ^ 20"

definition NewRateLimit :: "rat \<Rightarrow> rat \<Rightarrow> gotime \<Rightarrow> RateLimit" where
  "NewRateLimit baseClonesPerSec refWBytes now =
     \<lparr>rlBase = baseClonesPerSec, rlRefW = refWBytes, rlW = 0, rlTokens = baseClonesPerSec,
      rlBurst = baseClonesPerSec, rlLast = now\<rparr>"

definition ObserveWorkingSet :: "RateLimit \<Rightarrow> rat \<Rightarrow> RateLimit" where
  "ObserveWorkingSet b w = b\<lparr>rlW := w\<rparr>"

definition rateLocked :: "RateLimit \<Rightarrow> rat" where
  "rateLocked b = (if rlRefW b \<le> 0 then rlBase b else rlBase b / (1 + rlW b / rlRefW b))"

definition Seconds :: "duration \<Rightarrow> rat" where
  "Seconds d = of_int d / of_int second"

definition Take :: "RateLimit \<Rightarrow> gotime \<Rightarrow> RateLimit \<times> goerr option" where
  "Take b now =
     (let t1 = rlTokens b + Seconds (now - rlLast b) * rateLocked b;
          t2 = (if t1 > rlBurst b then rlBurst b else t1);
          b1 = b\<lparr>rlTokens := t2, rlLast := now\<rparr>
      in if t2 < 1 then (b1, Some (ESentinel ErrRateLimit))
         else (b1\<lparr>rlTokens := t2 - 1\<rparr>, None))"

datatype rate_event = RTake gotime | RObserve rat

text \<open>A run of the limiter, with the number of clones it let through.\<close>

fun rate_run :: "rate_event list \<Rightarrow> RateLimit \<Rightarrow> RateLimit \<times> nat" where
  "rate_run [] b = (b, 0)"
| "rate_run (RObserve w # es) b = rate_run es (ObserveWorkingSet b w)"
| "rate_run (RTake now # es) b =
     (let (b1, r) = Take b now; (b2, n) = rate_run es b1 in (b2, if r = None then Suc n else n))"

fun rate_ordered :: "gotime \<Rightarrow> rate_event list \<Rightarrow> bool" where
  "rate_ordered t [] = True"
| "rate_ordered t (RObserve w # es) = (w \<ge> 0 \<and> rate_ordered t es)"
| "rate_ordered t (RTake now # es) = (t \<le> now \<and> rate_ordered now es)"

definition rate_ok :: "RateLimit \<Rightarrow> bool" where
  "rate_ok b \<longleftrightarrow> rlBase b \<ge> 0 \<and> rlW b \<ge> 0 \<and> 0 \<le> rlTokens b \<and> rlTokens b \<le> rlBurst b"

lemma rate_bounds:
  assumes "rlBase b \<ge> 0" "rlW b \<ge> 0"
  shows "0 \<le> rateLocked b" "rateLocked b \<le> rlBase b"
proof -
  have "0 \<le> rateLocked b \<and> rateLocked b \<le> rlBase b"
  proof (cases "rlRefW b \<le> 0")
    case False
    with assms have "1 \<le> 1 + rlW b / rlRefW b" by simp
    with assms False show ?thesis
      by (simp add: rateLocked_def divide_le_eq_1 mult_left_le field_simps)
  qed (use assms in \<open>simp add: rateLocked_def\<close>)
  then show "0 \<le> rateLocked b" "rateLocked b \<le> rlBase b" by auto
qed

lemma Seconds_nonneg: "0 \<le> d \<Longrightarrow> 0 \<le> Seconds d"
  by (simp add: Seconds_def)

lemma Take_ok:
  assumes "rate_ok b" "rlLast b \<le> now" "Take b now = (b', r)"
  shows "rate_ok b'" "rlLast b' = now" "rlBase b' = rlBase b" "rlBurst b' = rlBurst b"
    "rlTokens b' + (if r = None then 1 else 0) \<le> rlTokens b + rlBase b * Seconds (now - rlLast b)"
proof -
  let ?add = "Seconds (now - rlLast b) * rateLocked b"
  have b: "rlBase b \<ge> 0" "rlW b \<ge> 0" using assms(1) by (simp_all add: rate_ok_def)
  have add: "0 \<le> ?add" "?add \<le> rlBase b * Seconds (now - rlLast b)"
    using rate_bounds [OF b] Seconds_nonneg [of "now - rlLast b"] assms(2)
    by (simp_all add: mult_right_mono mult.commute)
  show "rate_ok b'" "rlLast b' = now" "rlBase b' = rlBase b" "rlBurst b' = rlBurst b"
    using assms add(1) by (auto simp: Take_def Let_def rate_ok_def split: if_splits)
  show "rlTokens b' + (if r = None then 1 else 0) \<le> rlTokens b + rlBase b * Seconds (now - rlLast b)"
    using assms add by (auto simp: Take_def Let_def rate_ok_def split: if_splits)
qed

lemma Seconds_add: "Seconds (a - b) + Seconds (b - c) = Seconds (a - c)"
  by (simp add: Seconds_def field_simps)

lemma rate_run_bound:
  assumes "rate_ok b" "rate_ordered (rlLast b) es" "rate_run es b = (b', n)"
  shows "rate_ok b' \<and> rlLast b \<le> rlLast b' \<and>
    of_nat n + rlTokens b' \<le> rlTokens b + rlBase b * Seconds (rlLast b' - rlLast b)"
  using assms
proof (induction es arbitrary: b n)
  case Nil
  then show ?case by (simp add: Seconds_def)
next
  case (Cons e es)
  show ?case
  proof (cases e)
    case (RObserve w)
    with Cons.prems Cons.IH [of "ObserveWorkingSet b w" n] show ?thesis
      by (simp add: ObserveWorkingSet_def rate_ok_def)
  next
    case (RTake now)
    obtain b1 r where t: "Take b now = (b1, r)" by fastforce
    obtain m where m: "rate_run es b1 = (b', m)" "n = (if r = None then Suc m else m)"
      using Cons.prems(3) RTake t by (auto split: prod.splits)
    note ok = Take_ok [OF Cons.prems(1) _ t]
    have le: "rlLast b \<le> now" using Cons.prems(2) RTake by simp
    have ih: "rate_ok b' \<and> rlLast b1 \<le> rlLast b' \<and>
        of_nat m + rlTokens b' \<le> rlTokens b1 + rlBase b1 * Seconds (rlLast b' - rlLast b1)"
      using Cons.IH [OF ok(1) [OF le] _ m(1)] Cons.prems(2) RTake ok(2) [OF le] by simp
    have "rlBase b * Seconds (rlLast b' - now) + rlBase b * Seconds (now - rlLast b) =
        rlBase b * Seconds (rlLast b' - rlLast b)"
      by (simp add: distrib_left [symmetric] Seconds_add)
    with ih ok(2-5) [OF le] le m(2) show ?thesis by (auto split: if_splits)
  qed
qed

text \<open>
  C38. The clone rate limit holds over every window: between two readings of the clock, whatever
  working sets are observed and however the clones are spaced, at most the tokens in the bucket
  plus \<open>base\<close> per second elapsed are let through. The bucket never holds a negative number of
  tokens and never more than its burst.
\<close>

theorem rate_limit_window:
  assumes "rate_ok b" "rate_ordered (rlLast b) es" "rate_run es b = (b', n)"
  shows "of_nat n \<le> rlBurst b + rlBase b * Seconds (rlLast b' - rlLast b) \<and>
    0 \<le> rlTokens b' \<and> rlTokens b' \<le> rlBurst b'"
  using rate_run_bound [OF assms] assms(1) by (auto simp: rate_ok_def)

theorem rate_limit_window_witness:
  "of_nat (snd (rate_run [RTake 0, RTake 0, RTake 0, RTake (second)] (NewRateLimit 2 0 0)))
     \<le> 2 + 2 * Seconds second \<and>
   snd (rate_run [RTake 0, RTake 0, RTake 0, RTake (second)] (NewRateLimit 2 0 0)) = 3"
proof -
  let ?b = "NewRateLimit 2 0 0" and ?es = "[RTake 0, RTake 0, RTake 0, RTake (second)]"
  have ok: "rate_ok ?b" "rate_ordered (rlLast ?b) ?es" by (simp_all add: rate_ok_def NewRateLimit_def)
  have run: "rate_run ?es ?b = (fst (rate_run ?es ?b), snd (rate_run ?es ?b))" by simp
  have "rlLast (fst (rate_run ?es ?b)) = second" "snd (rate_run ?es ?b) = 3"
    by (simp_all add: NewRateLimit_def Take_def Let_def rateLocked_def Seconds_def)
  with rate_limit_window [OF ok run] show ?thesis by (simp add: NewRateLimit_def)
qed



end
