(* ===== verification/Core_Types.thy ===== *)
theory Core_Types
  imports Ledger Revoked Backpressure Audit_Spool
begin

text \<open>
  The data of \<open>pkg/core/core.go\<close> and \<open>pkg/core/runtime.go\<close>: requests and outcomes, the seam to the
  runtime, and the core's state.

  Everything outside the core (the runtime and what it runs, the disk, the clock, the audit spool,
  the issuer's keys) is a world of some type \<open>'w\<close> that calls read and change: a call is a state
  transformer \<open>('w, 'a) state\<close>. A runtime is a record of such calls, and an interface it may or may
  not implement is an optional field, so a Go type assertion is a \<open>case\<close>. \<open>'w Home\<close> is what \<open>Core\<close> is
  configured with and never changes; \<open>'w Core\<close> is what it changes, the world included.

  Other goroutines run while a handler is inside a call to the world, or waits for a session's
  gate. What they do to the core meanwhile is \<open>hoOthers\<close>, an arbitrary function of the whole state
  (the world may hold a schedule, so different calls may see different interference), and
  \<open>hoWaitGate\<close>, what they do until the gate is free. The lemmas that need something of them say so.
\<close>

section \<open>Requests and outcomes\<close>

record CloneRequest =
  rqGrantJWT :: bytes
  rqSession :: string
  rqDeadline :: duration
  rqPayload :: bytes
  rqCallerThumbprint :: string
  rqCallerCert :: bytes

record CloneResponse =
  rsFiberID :: string
  rsEndpoint :: string
  rsFence :: Fence
  rsKind :: Action
  rsRoutingKey :: string
  rsServerKeySHA256 :: string
  rsServerCert :: bytes

definition response :: "string \<Rightarrow> string \<Rightarrow> Fence \<Rightarrow> Action \<Rightarrow> CloneResponse" where
  "response fid ep fence kind =
     \<lparr>rsFiberID = fid, rsEndpoint = ep, rsFence = fence, rsKind = kind, rsRoutingKey = [],
      rsServerKeySHA256 = [], rsServerCert = []\<rparr>"

definition no_response :: CloneResponse where
  "no_response = response [] [] no_fence ActCreate"

datatype StatusCode =
    OK
  | DeferredFallback
  | Shed
  | Invalid
  | Unauthenticated
  | NeedsTier
  | NotFound
  | NoWorkspace
  | OverBudget
  | Internal

definition MaxPayload :: nat where
  "MaxPayload = 4096"

definition DefaultCreateDeadline :: duration where
  "DefaultCreateDeadline = 50 * millisecond"

definition DefaultResumeDeadline :: duration where
  "DefaultResumeDeadline = 2 * second"

record ScopeClaim =
  scName :: string
  scValue :: string

record DeviceChannel =
  dcKind :: string
  dcDevices :: "string list"
  dcDetail :: string

definition no_channel :: DeviceChannel where
  "no_channel = \<lparr>dcKind = [], dcDevices = [], dcDetail = []\<rparr>"

text \<open>The zero \<open>Grant{}\<close>, which \<open>Ledger.Grant\<close> answers for a UID it does not hold.\<close>

definition no_grant :: Grant where
  "no_grant =
     \<lparr>gUID = [], gIssuer = [], gAudience = [], gTemplateDigest = [], gTenant = [], gFiberMax = 0, gFiberWarm = 0,
      gWBudgetBytes = 0, gMinTier = TierUnspecified, gLeaseExpiry = 0,
      gPolicy = \<lparr>pDurability = DurabilityUnspecified, pSessionClass = [], pAuditClass = [], pPSIShed = 0, pPSIPark = 0,
                 pIsolation = IsolationUnspecified, pEndpointMode = EndpointDirect\<rparr>,
      gDeviceBudget = \<lparr>dbBytes = 0, dbClass = []\<rparr>, gDiskBudgetBytes = 0, gCallerThumbprint = [], gToken = []\<rparr>"

section \<open>The runtime\<close>

datatype CloneSource = SourceZygote | SourceDelta

record CloneSpec =
  csGrant :: Grant
  csSource :: CloneSource
  csRef :: string
  csFence :: Fence
  csDeadline :: duration
  csPayload :: bytes
  csSession :: string
  csCallerCert :: bytes

record FiberStats =
  fsWUsedBytes :: u64
  fsDeviceUsedBytes :: u64

record FiberExit =
  exFiberID :: string
  exReason :: string
  exDetail :: string

record RemoteDelta =
  rdWBytes :: u64
  rdHome :: string
  rdHandle :: string

text \<open>\<open>FindDelta\<close> answers the delta, whether it found one, and its error.\<close>

record 'w DeltaFinder =
  dfFindDelta :: "Grant \<Rightarrow> string \<Rightarrow> ('w, RemoteDelta \<times> bool \<times> goerr option) state"
  dfClaimDelta :: "Grant \<Rightarrow> string \<Rightarrow> RemoteDelta \<Rightarrow> ('w, goerr + string) state"
  dfOwned :: "string \<Rightarrow> ('w, bool) state"

record 'w HandoffRouter =
  hrHandsOff :: "'w \<Rightarrow> bool"
  hrHandoffRoute :: "string \<Rightarrow> 'w \<Rightarrow> (string \<times> string \<times> bytes) option"

record 'w Pooler =
  plFill :: "Grant \<Rightarrow> duration \<Rightarrow> ('w, goerr option) state"
  plDrain :: "string \<Rightarrow> int \<Rightarrow> ('w, int) state"
  plPooled :: "string \<Rightarrow> 'w \<Rightarrow> int"

record 'w Runtime =
  rtTier :: Tier
  rtPrepareTemplate :: "Grant \<Rightarrow> ('w, goerr option) state"
  rtClone :: "CloneSpec \<Rightarrow> ('w, goerr + FiberHandle) state"
  rtPark :: "string \<Rightarrow> bool \<Rightarrow> ('w, string \<times> goerr option) state"
  rtRelease :: "string \<Rightarrow> bool \<Rightarrow> ('w, goerr option) state"
  rtList :: "('w, goerr + FiberHandle list) state"
  rtStats :: "string \<Rightarrow> ('w, goerr + FiberStats) state"
  rtDeltaFinder :: "'w DeltaFinder option"
  rtPublishDelta :: "(string \<Rightarrow> Grant \<Rightarrow> string \<Rightarrow> ('w, goerr + string) state) option"
  rtRetireDelta :: "(string \<Rightarrow> ('w, goerr option) state) option"
  rtDiscardDelta :: "(string \<Rightarrow> ('w, goerr option) state) option"
  rtDeleteDelta :: "(Grant \<Rightarrow> string \<Rightarrow> string \<Rightarrow> ('w, goerr + string \<times> bool) state) option"
  rtHasDelta :: "(string \<Rightarrow> 'w \<Rightarrow> bool) option"
  rtSweepDeltas :: "(string list \<Rightarrow> ('w, int \<times> goerr option) state) option"
  rtPooler :: "'w Pooler option"
  rtIsolatesTenants :: "('w \<Rightarrow> bool) option"
  rtHandoffRouter :: "'w HandoffRouter option"
  rtHoldsWorkspaces :: "('w \<Rightarrow> bool) option"
  rtAttachDevices :: "(string \<Rightarrow> DeviceChannel \<Rightarrow> ('w, unit) state) option"
  rtDeviceOffer :: "(string \<Rightarrow> 'w \<Rightarrow> string \<times> u64) option"
  rtDropTemplate :: "(string \<Rightarrow> ('w, unit) state) option"
  rtDefaultDeadlines :: "(string \<Rightarrow> 'w \<Rightarrow> duration \<times> duration) option"

section \<open>Snapshots\<close>

record Snapshot =
  snEpoch :: u64
  snSavedAt :: gotime
  snGrants :: "Grant list"
  snSessions :: "SessionSnapshot list"
  snUnreadable :: bool

definition no_snapshot :: Snapshot where
  "no_snapshot = \<lparr>snEpoch = 0, snSavedAt = 0, snGrants = [], snSessions = [], snUnreadable = False\<rparr>"

text \<open>What the store's path holds: a snapshot it wrote reads back as that snapshot.\<close>

datatype snapshot_file = SFAbsent | SFUnreadable goerr | SFGarbled | SFDoc Snapshot

record SnapshotStore =
  ssFile :: snapshot_file
  ssAsked :: nat
  ssCovered :: nat
  ssLastErr :: "goerr option"

section \<open>The core\<close>

record 'w heldDevices =
  hdChannel :: DeviceChannel
  hdRelease :: "('w, unit) state option"

record heldGrant =
  hgGrant :: Grant
  hgSessions :: "SessionSnapshot list"

record poolState =
  psBackoff :: duration
  psUntil :: gotime
  psNoPool :: bool

text \<open>
  \<open>cChanged\<close> is the capacity-one channel of each \<open>Watch\<close> subscriber, by its identity: whether a
  wake-up waits in it. \<open>cKick\<close> is the same for the refill loop. \<open>cShedding\<close> and
  \<open>cStuck\<close> are the pressure controller's maps.
\<close>

record 'w Core =
  cLedger :: Ledger
  cRateLimit :: RateLimit
  cHealth :: "SourceHealth option"
  cShedding :: "(string, bool) gomap"
  cStuck :: "(string, nat) gomap"
  cStore :: "SnapshotStore option"
  cEpoch :: "(file_state \<times> u64) option"
  cRevoked :: "(Revoked \<times> revoked_file) option"
  cDevices :: "(string, 'w heldDevices) gomap"
  cAdmitting :: "(string, nat) gomap"
  cChanged :: "(nat, bool) gomap"
  cPending :: "(string, FiberExit) gomap"
  cHeld :: "(string, heldGrant) gomap"
  cPools :: "(string, poolState) gomap"
  cKick :: bool
  cFilling :: bool
  cLastFill :: string
  cDraining :: bool
  cW :: 'w

text \<open>
  \<open>hoSelf\<close> stands for the channel that an admission of this goroutine makes and closes. \<open>hoWrite\<close> is
  how the next atomic file write goes, with its error. \<open>hoWaitAdmit\<close> is what others
  do until an admission of the UID in flight ends. \<open>hoPressure\<close> tells whether a pressure
  controller is configured.
\<close>

record 'w Home =
  hoSelf :: nat
  hoNodeID :: string
  hoSelfAdmitUID :: string
  hoOwnGrant :: "('w \<Rightarrow> bytes option) option"
  hoRequireBoundGrants :: bool
  hoRuntime :: "'w Runtime"
  hoAudit :: "(Durability \<Rightarrow> AuditRecord \<Rightarrow> ('w, goerr option) state) option"
  hoVerify :: "bytes \<Rightarrow> ('w, goerr + Grant) state"
  hoMobilityBudget :: "(Grant \<Rightarrow> u64) option"
  hoScope :: "('w \<Rightarrow> ScopeClaim list) option"
  hoDevices :: "(Grant \<Rightarrow> ('w, goerr + DeviceChannel \<times> ('w, unit) state option) state) option"
  hoPressure :: bool
  hoNow :: "'w \<Rightarrow> gotime"
  hoWrite :: "('w, write_outcome \<times> goerr) state"
  hoOthers :: "'w Core \<Rightarrow> 'w Core"
  hoWaitGate :: "string \<Rightarrow> 'w Core \<Rightarrow> 'w Core"
  hoWaitAdmit :: "string \<Rightarrow> 'w Core \<Rightarrow> 'w Core"

type_synonym ('w, 'a) act = "('w Core, 'a) state"

section \<open>Reading and changing the state\<close>

definition reads :: "('w Core \<Rightarrow> 'a) \<Rightarrow> ('w, 'a) act" where
  "reads f = State (\<lambda>c. (f c, c))"

definition changes :: "('w Core \<Rightarrow> 'w Core) \<Rightarrow> ('w, unit) act" where
  "changes f = State (\<lambda>c. ((), f c))"

text \<open>One call into the ledger, under its lock.\<close>

definition ledger :: "(Ledger \<Rightarrow> Ledger \<times> 'a) \<Rightarrow> ('w, 'a) act" where
  "ledger f = State (\<lambda>c. let (l, r) = f (cLedger c) in (r, c\<lparr>cLedger := l\<rparr>))"

definition looks :: "(Ledger \<Rightarrow> 'a) \<Rightarrow> ('w, 'a) act" where
  "looks f = reads (\<lambda>c. f (cLedger c))"

text \<open>One call to the world, with other goroutines running meanwhile.\<close>

definition calls :: "'w Home \<Rightarrow> ('w, 'a) state \<Rightarrow> ('w, 'a) act" where
  "calls ho m = State (\<lambda>c. let (r, w) = run_state m (cW c) in (r, hoOthers ho (c\<lparr>cW := w\<rparr>)))"

text \<open>The same for a call that takes no time.\<close>

definition world :: "('w, 'a) state \<Rightarrow> ('w, 'a) act" where
  "world m = State (\<lambda>c. let (r, w) = run_state m (cW c) in (r, c\<lparr>cW := w\<rparr>))"

definition clock :: "'w Home \<Rightarrow> ('w, gotime) act" where
  "clock ho = reads (\<lambda>c. hoNow ho (cW c))"

abbreviation ret :: "'a \<Rightarrow> ('w, 'a) act" where
  "ret \<equiv> State_Monad.return"

abbreviation skip :: "('w, unit) act" where
  "skip \<equiv> ret ()"

fun each :: "('a \<Rightarrow> ('w, unit) act) \<Rightarrow> 'a list \<Rightarrow> ('w, unit) act" where
  "each f [] = skip"
| "each f (x # xs) = do { f x; each f xs }"

end
