(* ===== verification/Core_Base.thy ===== *)
theory Core_Base
  imports Core_Types
begin

text \<open>
  The parts of \<open>pkg/core/core.go\<close>, \<open>snapshot.go\<close> and \<open>pool.go\<close> that the handlers share: audit records,
  snapshots, wake-ups, outcome codes, deltas, device channels and fiber exits. Log lines are not
  modelled.
\<close>

section \<open>Audit, watchers, outcomes\<close>

definition scoped :: "'w Home \<Rightarrow> AuditRecord \<Rightarrow> ('w, AuditRecord) act" where
  "scoped ho rec =
     (case hoScope ho of
        None \<Rightarrow> ret rec
      | Some scope \<Rightarrow> do {
          claims \<leftarrow> reads (\<lambda>c. scope (cW c));
          ret (if arScope rec = [] \<and> claims \<noteq> []
               then rec\<lparr>arScope := fold (\<lambda>cl m. AList.update (scName cl) (scValue cl) m) claims []\<rparr> else rec)
        })"

definition audit :: "'w Home \<Rightarrow> Durability \<Rightarrow> AuditRecord \<Rightarrow> ('w, goerr option) act" where
  "audit ho d rec =
     (case hoAudit ho of
        None \<Rightarrow> ret None
      | Some app \<Rightarrow> do {
          let d' = (if d = DurabilityUnspecified then BestEffort else d);
          rec' \<leftarrow> scoped ho rec;
          err \<leftarrow> calls ho (app d' rec');
          ret (if err \<noteq> None \<and> d' \<noteq> Sync then None else err)
        })"

definition durability :: "string \<Rightarrow> ('w, Durability) act" where
  "durability uid =
     looks (\<lambda>l. case Ledger_Grant l uid of Some g \<Rightarrow> pDurability (gPolicy g) | None \<Rightarrow> BestEffort)"

definition notify :: "('w, unit) act" where
  "notify = changes (\<lambda>c. c\<lparr>cChanged := map (\<lambda>(i, waiting). (i, True)) (cChanged c)\<rparr>)"

definition subscribe :: "nat \<Rightarrow> ('w, unit) act" where
  "subscribe i = changes (\<lambda>c. c\<lparr>cChanged := cChanged c @ [(i, False)]\<rparr>)"

fun remove_first :: "nat \<Rightarrow> (nat \<times> bool) list \<Rightarrow> (nat \<times> bool) list" where
  "remove_first i [] = []"
| "remove_first i ((j, b) # m) = (if i = j then m else (j, b) # remove_first i m)"

definition unsubscribe :: "nat \<Rightarrow> ('w, unit) act" where
  "unsubscribe i = changes (\<lambda>c. c\<lparr>cChanged := remove_first i (cChanged c)\<rparr>)"

definition Draining :: "('w, bool) act" where
  "Draining = reads cDraining"

definition missCode :: "'w Home \<Rightarrow> goerr \<Rightarrow> ('w, StatusCode) act" where
  "missCode ho err =
     (if errors_Is err ErrNeedsTier \<or> errors_Is err ErrNeedsDevice \<or> errors_Is err ErrDeviceMismatch \<or>
         errors_Is err ErrNeedsIsolation \<or> errors_Is err ErrNeedsHandoff \<or> errors_Is err ErrNeedsWorkspace \<or>
         errors_Is err ErrNoTenant
      then ret NeedsTier
      else do {
        now \<leftarrow> clock ho;
        h \<leftarrow> reads cHealth;
        case h of
          None \<Rightarrow> ret DeferredFallback
        | Some s \<Rightarrow> do {
            let (s', ok) = Healthy s now;
            changes (\<lambda>c. c\<lparr>cHealth := Some s'\<rparr>);
            ret (if \<not> ok then Shed else DeferredFallback)
          }
      })"

text \<open>\<open>a.Revoked != nil && a.Revoked.Denied(uid, lease, now)\<close>.\<close>

definition denied :: "'w Home \<Rightarrow> string \<Rightarrow> gotime \<Rightarrow> ('w, bool) act" where
  "denied ho uid lease = do {
     rv \<leftarrow> reads cRevoked;
     case rv of
       None \<Rightarrow> ret False
     | Some (r, f) \<Rightarrow> do {
         now \<leftarrow> clock ho;
         (w, e) \<leftarrow> world (hoWrite ho);
         let (r', f', b) = Denied r f uid lease now w;
         changes (\<lambda>c. c\<lparr>cRevoked := Some (r', f')\<rparr>);
         ret b
       }
   }"

definition epoch_moved :: "u64 \<Rightarrow> u64 \<Rightarrow> goerr" where
  "epoch_moved was now =
     wrapped ErrFiberUnknown (''epoch moved from '' @ FormatUint was @ '' to '' @ FormatUint now @ '' during clone'')"

definition swept :: "'w Home \<Rightarrow> Grant \<Rightarrow> Fence \<Rightarrow> ('w, StatusCode \<times> goerr) act" where
  "swept ho g fence = do {
     epoch \<leftarrow> looks lEpoch;
     if epoch \<noteq> fEpoch fence then do {
       code \<leftarrow> missCode ho (epoch_moved (fEpoch fence) epoch);
       ret (code, epoch_moved (fEpoch fence) epoch)
     } else do {
       b \<leftarrow> denied ho (gUID g) (gLeaseExpiry g);
       if b then do {
         code \<leftarrow> missCode ho (wrapped ErrGrantRevoked (gUID g @ '', during clone''));
         ret (code, wrapped ErrGrantRevoked (gUID g @ '', during clone''))
       } else do {
         code \<leftarrow> missCode ho (wrapped ErrGrantUnknown (gUID g @ '' revoked during clone''));
         ret (code, wrapped ErrGrantUnknown (gUID g @ '' revoked during clone''))
       }
     }
   }"

section \<open>Snapshots\<close>

definition Ledger_Snapshot :: "Ledger \<Rightarrow> gotime \<Rightarrow> Snapshot" where
  "Ledger_Snapshot l now =
     \<lparr>snEpoch = lEpoch l, snSavedAt = now,
      snGrants = map (\<lambda>(uid, p). eGrant (entry l p)) (lGrants l),
      snSessions = map (\<lambda>(key, s). \<lparr>ssName = sName s, ssGrantUID = sGrantUID s, ssState = sState s,
                                     ssFence = sFence s, ssDeltaRef = sDeltaRef s,
                                     ssFiberID = (if sState s = StateRunning then hID (sHandle s) else [])\<rparr>)
                       (lSessions l),
      snUnreadable = False\<rparr>"

text \<open>The snapshot that \<open>persist\<close> writes, over the ledger's own and the entries boot held.\<close>

definition with_held :: "(string, heldGrant) gomap \<Rightarrow> Snapshot \<Rightarrow> Snapshot" where
  "with_held held s =
     (let admitted = set (map gUID (snGrants s));
          known = set (map (\<lambda>x. session_key (ssGrantUID x) (ssName x)) (snSessions s));
          kept = filter (\<lambda>(uid, h). uid \<notin> admitted) (sort_key fst held)
      in s\<lparr>snGrants := snGrants s @ map (\<lambda>(uid, h). hgGrant h) kept,
           snSessions := snSessions s @
             concat (map (\<lambda>(uid, h). filter (\<lambda>x. session_key (ssGrantUID x) (ssName x) \<notin> known) (hgSessions h)) kept)\<rparr>)"

definition snapshot :: "'w Home \<Rightarrow> ('w, Snapshot) act" where
  "snapshot ho = reads (\<lambda>c. with_held (cHeld c) (Ledger_Snapshot (cLedger c) (hoNow ho (cW c))))"

definition SnapshotStore_write :: "write_outcome \<Rightarrow> SnapshotStore \<Rightarrow> Snapshot \<Rightarrow> SnapshotStore" where
  "SnapshotStore_write w st s = st\<lparr>ssFile := after_write w (ssFile st) (SFDoc s)\<rparr>"

text \<open>
  \<open>Persist\<close>. A caller counts itself in, waits for \<open>st.mu\<close> while others run, and writes unless a
  write that began after it was counted has covered it.
\<close>

definition Persist_write :: "'w Home \<Rightarrow> SnapshotStore \<Rightarrow> ('w, goerr option) act" where
  "Persist_write ho st = do {
     s \<leftarrow> snapshot ho;
     (w, e) \<leftarrow> world (hoWrite ho);
     let err = (if w = Wrote then None else Some e);
     changes (\<lambda>c. c\<lparr>cStore := Some ((SnapshotStore_write w st s)\<lparr>ssCovered := ssAsked st, ssLastErr := err\<rparr>)\<rparr>);
     ret err
   }"

definition Persist :: "'w Home \<Rightarrow> ('w, goerr option) act" where
  "Persist ho = do {
     c0 \<leftarrow> reads cStore;
     case c0 of
       None \<Rightarrow> ret None
     | Some st0 \<Rightarrow> do {
         let n = ssAsked st0 + 1;
         changes (\<lambda>c. c\<lparr>cStore := Some (st0\<lparr>ssAsked := n\<rparr>)\<rparr>);
         changes (hoOthers ho);
         c1 \<leftarrow> reads cStore;
         case c1 of
           None \<Rightarrow> ret None
         | Some st \<Rightarrow> if ssCovered st \<ge> n then ret (ssLastErr st) else Persist_write ho st
       }
   }"

definition persist :: "'w Home \<Rightarrow> ('w, unit) act" where
  "persist ho = do { err \<leftarrow> Persist ho; skip }"

definition SnapshotStore_Load :: "SnapshotStore \<Rightarrow> goerr + Snapshot" where
  "SnapshotStore_Load st =
     (case ssFile st of
        SFAbsent \<Rightarrow> Inr no_snapshot
      | SFUnreadable e \<Rightarrow> Inl e
      | SFGarbled \<Rightarrow> Inr (no_snapshot\<lparr>snUnreadable := True\<rparr>)
      | SFDoc s \<Rightarrow> Inr s)"

definition hold :: "Grant \<Rightarrow> ('w, unit) act" where
  "hold g = changes (\<lambda>c. c\<lparr>cHeld := AList.update (gUID g) \<lparr>hgGrant = g, hgSessions = []\<rparr> (cHeld c)\<rparr>)"

definition holdParked :: "SessionSnapshot \<Rightarrow> ('w, bool) act" where
  "holdParked s = do {
     h \<leftarrow> reads (\<lambda>c. map_of (cHeld c) (ssGrantUID s));
     case h of
       None \<Rightarrow> ret False
     | Some hg \<Rightarrow> do {
         changes (\<lambda>c. c\<lparr>cHeld := AList.update (ssGrantUID s) (hg\<lparr>hgSessions := hgSessions hg @ [s]\<rparr>) (cHeld c)\<rparr>);
         ret True
       }
   }"

definition restoreHeld :: "string \<Rightarrow> ('w, unit) act" where
  "restoreHeld uid = do {
     h \<leftarrow> reads (\<lambda>c. map_of (cHeld c) uid);
     changes (\<lambda>c. c\<lparr>cHeld := AList.delete uid (cHeld c)\<rparr>);
     case h of
       None \<Rightarrow> skip
     | Some hg \<Rightarrow> each (\<lambda>s. do { ok \<leftarrow> ledger (\<lambda>l. RestoreParked l s); skip }) (hgSessions hg)
   }"

section \<open>Deltas and devices\<close>

definition event_record :: "string \<Rightarrow> Fence \<Rightarrow> string \<Rightarrow> string \<Rightarrow> string \<Rightarrow> AuditRecord" where
  "event_record event fence session fid detail =
     (audit_record event detail)\<lparr>arFence := fence, arSession := session, arFiberID := fid\<rparr>"

text \<open>\<open>_ = a.audit(ctx, BestEffort, ...)\<close>.\<close>

definition note_audit :: "'w Home \<Rightarrow> AuditRecord \<Rightarrow> ('w, unit) act" where
  "note_audit ho rec = do { err \<leftarrow> audit ho BestEffort rec; skip }"

definition retireDelta :: "'w Home \<Rightarrow> Fence \<Rightarrow> string \<Rightarrow> string \<Rightarrow> ('w, unit) act" where
  "retireDelta ho fence session deltaRef =
     (case rtRetireDelta (hoRuntime ho) of
        None \<Rightarrow> skip
      | Some retire \<Rightarrow> do {
          err \<leftarrow> calls ho (retire deltaRef);
          if err \<noteq> None then skip else note_audit ho (event_record ''retire'' fence session [] deltaRef)
        })"

definition discardDelta :: "'w Home \<Rightarrow> Fence \<Rightarrow> string \<Rightarrow> string \<Rightarrow> ('w, unit) act" where
  "discardDelta ho fence session deltaRef = do {
     retireDelta ho fence session deltaRef;
     case rtDiscardDelta (hoRuntime ho) of
       None \<Rightarrow> skip
     | Some discard \<Rightarrow> do {
         err \<leftarrow> calls ho (discard deltaRef);
         if err \<noteq> None then skip else note_audit ho (event_record ''discard'' fence session [] deltaRef)
       }
   }"

definition run_release :: "'w Home \<Rightarrow> ('w, unit) state option \<Rightarrow> ('w, unit) act" where
  "run_release ho release = (case release of None \<Rightarrow> skip | Some m \<Rightarrow> calls ho m)"

definition releaseDevices :: "'w Home \<Rightarrow> string \<Rightarrow> ('w, unit) act" where
  "releaseDevices ho uid = do {
     held \<leftarrow> reads (\<lambda>c. map_of (cDevices c) uid);
     changes (\<lambda>c. c\<lparr>cDevices := AList.delete uid (cDevices c)\<rparr>);
     case held of None \<Rightarrow> skip | Some h \<Rightarrow> run_release ho (hdRelease h)
   }"

section \<open>Pools\<close>

definition refillBackoffMin :: duration where
  "refillBackoffMin = 100 * millisecond"

definition refillBackoffMax :: duration where
  "refillBackoffMax = 30 * second"

definition fillDeadlineFactor :: int where
  "fillDeadlineFactor = 4"

definition no_pool_state :: poolState where
  "no_pool_state = \<lparr>psBackoff = 0, psUntil = 0, psNoPool = False\<rparr>"

definition delay :: "gotime \<Rightarrow> poolState \<Rightarrow> poolState" where
  "delay now s =
     (let b = (if psBackoff s = 0 then refillBackoffMin
               else if psBackoff s < refillBackoffMax then min (psBackoff s * 2) refillBackoffMax
               else psBackoff s)
      in s\<lparr>psBackoff := b, psUntil := now + b\<rparr>)"

text \<open>\<open>a.poolState(uid)\<close> creates the entry; callers change it through the pointer.\<close>

definition pool_state :: "string \<Rightarrow> ('w, poolState) act" where
  "pool_state uid = do {
     p \<leftarrow> reads (\<lambda>c. map_of (cPools c) uid);
     case p of
       Some s \<Rightarrow> ret s
     | None \<Rightarrow> do { changes (\<lambda>c. c\<lparr>cPools := AList.update uid no_pool_state (cPools c)\<rparr>); ret no_pool_state }
   }"

definition put_pool :: "string \<Rightarrow> poolState \<Rightarrow> ('w, unit) act" where
  "put_pool uid s = changes (\<lambda>c. c\<lparr>cPools := AList.update uid s (cPools c)\<rparr>)"

definition forgetPool :: "string \<Rightarrow> ('w, unit) act" where
  "forgetPool uid = changes (\<lambda>c. c\<lparr>cPools := AList.delete uid (cPools c)\<rparr>)"

definition kickRefill :: "('w, unit) act" where
  "kickRefill = changes (\<lambda>c. c\<lparr>cKick := True\<rparr>)"

definition syncPooled :: "'w Home \<Rightarrow> string \<Rightarrow> ('w, unit) act" where
  "syncPooled ho uid =
     (case rtPooler (hoRuntime ho) of
        None \<Rightarrow> skip
      | Some p \<Rightarrow> do {
          n \<leftarrow> reads (\<lambda>c. plPooled p uid (cW c));
          changed \<leftarrow> ledger (\<lambda>l. SetPooled l uid n);
          if changed then notify else skip
        })"

definition handedOut :: "'w Home \<Rightarrow> string \<Rightarrow> ('w, unit) act" where
  "handedOut ho uid = do { syncPooled ho uid; kickRefill }"

definition pooledDied :: "'w Home \<Rightarrow> string \<Rightarrow> ('w, unit) act" where
  "pooledDied ho uid = do {
     st \<leftarrow> pool_state uid;
     now \<leftarrow> clock ho;
     put_pool uid (delay now st);
     syncPooled ho uid
   }"

definition DrainPool :: "'w Home \<Rightarrow> string \<Rightarrow> int \<Rightarrow> ('w, int) act" where
  "DrainPool ho uid n =
     (case rtPooler (hoRuntime ho) of
        None \<Rightarrow> ret 0
      | Some p \<Rightarrow> do {
          went \<leftarrow> calls ho (plDrain p uid n);
          (if went > 0 then syncPooled ho uid else skip);
          ret went
        })"

section \<open>Fibers\<close>

definition Core_Revoke :: "'w Home \<Rightarrow> string \<Rightarrow> ('w, unit) act" where
  "Core_Revoke ho uid = do {
     ledger (\<lambda>l. (RevokeGrant l uid, ()));
     releaseDevices ho uid;
     forgetPool uid
   }"

definition GrantDeadlines :: "'w Runtime \<Rightarrow> string \<Rightarrow> 'w \<Rightarrow> duration \<times> duration" where
  "GrantDeadlines rt uid w =
     (case rtDefaultDeadlines rt of
        None \<Rightarrow> (DefaultCreateDeadline, DefaultResumeDeadline)
      | Some adv \<Rightarrow>
          (let (c, r) = adv uid w in
           if c > 0 \<and> r > 0 then (c, r) else (DefaultCreateDeadline, DefaultResumeDeadline)))"

definition deadlines :: "'w Home \<Rightarrow> string \<Rightarrow> ('w, duration \<times> duration) act" where
  "deadlines ho uid = reads (\<lambda>c. GrantDeadlines (hoRuntime ho) uid (cW c))"

text \<open>
  \<open>commitHeld\<close>: the resolution after its \<open>commit\<close>, whether it committed, and the exit held for the
  fiber. \<open>commit\<close> asks \<open>Draining\<close> under the ledger's lock.
\<close>

definition commitHeld :: "resolution \<Rightarrow> Session \<Rightarrow> ('w, resolution \<times> bool \<times> FiberExit option) act" where
  "commitHeld r s = do {
     refuse \<leftarrow> reads cDraining;
     (r', committed) \<leftarrow> ledger (\<lambda>l. let (l', r', ok) = res_commit l r refuse s in (l', r', ok));
     ex \<leftarrow> reads (\<lambda>c. map_of (cPending c) (hID (sHandle s)));
     changes (\<lambda>c. c\<lparr>cPending := AList.delete (hID (sHandle s)) (cPending c)\<rparr>);
     ret (r', committed, ex)
   }"

definition routed :: "'w Home \<Rightarrow> CloneResponse \<Rightarrow> ('w, CloneResponse) act" where
  "routed ho r =
     (case rtHandoffRouter (hoRuntime ho) of
        None \<Rightarrow> ret r
      | Some hr \<Rightarrow> do {
          route \<leftarrow> reads (\<lambda>c. hrHandoffRoute hr (rsFiberID r) (cW c));
          ret (case route of
                 None \<Rightarrow> r
               | Some (key, pin, cert) \<Rightarrow> r\<lparr>rsRoutingKey := key, rsServerKeySHA256 := pin, rsServerCert := cert\<rparr>)
        })"

definition OnExit :: "'w Home \<Rightarrow> FiberExit \<Rightarrow> ('w, unit) act" where
  "OnExit ho ex = do {
     r \<leftarrow> ledger (\<lambda>l. OnFiberExit l (exFiberID ex));
     case r of
       None \<Rightarrow> changes (\<lambda>c. c\<lparr>cPending := AList.update (exFiberID ex) ex (cPending c)\<rparr>)
     | Some (fence, session, deltaRef) \<Rightarrow> do {
         (if deltaRef \<noteq> [] then discardDelta ho fence session deltaRef else skip);
         d \<leftarrow> durability (fGrantUID fence);
         err \<leftarrow> audit ho d (event_record (exReason ex) fence session (exFiberID ex) (exDetail ex));
         notify
       }
   }"

fun sample_each :: "'w Home \<Rightarrow> string list \<Rightarrow> u64 \<Rightarrow> ('w, u64) act" where
  "sample_each ho [] tot = ret tot"
| "sample_each ho (fid # ids) tot = do {
     st \<leftarrow> calls ho (rtStats (hoRuntime ho) fid);
     case st of
       Inl e \<Rightarrow> sample_each ho ids tot
     | Inr fs \<Rightarrow> do {
         ledger (\<lambda>l. (SetFiberW l fid (fsWUsedBytes fs), ()));
         sample_each ho ids (tot + fsWUsedBytes fs)
       }
   }"

definition sample :: "'w Home \<Rightarrow> ('w, unit) act" where
  "sample ho = do {
     ids \<leftarrow> looks RunningFibers;
     tot \<leftarrow> sample_each ho ids 0;
     if ids \<noteq> []
     then changes (\<lambda>c. c\<lparr>cRateLimit := ObserveWorkingSet (cRateLimit c) (of_nat (unat tot) / of_nat (length ids))\<rparr>)
     else skip
   }"

end
