(* ===== verification/Core_Admit.thy ===== *)
theory Core_Admit
  imports Core_Base
begin

text \<open>
  The life of a grant on a home: \<open>Admit\<close>, \<open>Remove\<close>, \<open>Redeliver\<close>, \<open>Yield\<close>, \<open>BumpEpoch\<close> of
  \<open>pkg/core/core.go\<close>, and \<open>Sweep\<close> and \<open>Reconcile\<close> of \<open>snapshot.go\<close>.

  A context matters to these handlers only where they wait: \<open>cxWaits\<close> is how many waits for another
  admission it outlives, and \<open>cxErr\<close> what \<open>ctx.Err()\<close> then is.
\<close>

record ctx =
  cxWaits :: nat
  cxErr :: goerr

section \<open>Tokens\<close>

definition wrong_audience :: "string \<Rightarrow> string \<Rightarrow> goerr" where
  "wrong_audience aud node = wrapped ErrWrongAudience (''aud='' @ go_quote aud @ '' node='' @ go_quote node)"

definition reverify :: "'w Home \<Rightarrow> string \<Rightarrow> bytes \<Rightarrow> ('w, goerr + Grant) act" where
  "reverify ho uid token = do {
     r \<leftarrow> calls ho (hoVerify ho token);
     ret (case r of
            Inl e \<Rightarrow> Inl (EFmt [PStr ''held token: '', PErr e])
          | Inr vg \<Rightarrow>
              if gUID vg \<noteq> uid then Inl (EFmt [PStr (''held token is for grant '' @ go_quote (gUID vg))])
              else if hoNodeID ho \<noteq> [] \<and> gAudience vg \<noteq> hoNodeID ho
              then Inl (wrong_audience (gAudience vg) (hoNodeID ho))
              else Inr (vg\<lparr>gToken := token\<rparr>))
   }"

definition ownGrant :: "'w Home \<Rightarrow> ('w \<Rightarrow> bytes option) \<Rightarrow> Grant \<Rightarrow> ('w, goerr + Grant) act" where
  "ownGrant ho own g = do {
     now \<leftarrow> clock ho;
     if Expired g now then ret (Inl (ESentinel ErrGrantExpired))
     else do {
       tok \<leftarrow> reads (\<lambda>c. own (cW c));
       case tok of
         None \<Rightarrow> ret (Inl (wrapped ErrGrantUnknown (gUID g @ '', the home holds no grant of its own'')))
       | Some t \<Rightarrow> do {
           r \<leftarrow> reverify ho (gUID g) t;
           ret (case r of
                  Inl e \<Rightarrow> Inl (EFmt [PErr (ESentinel ErrGrantUnknown),
                                 PStr ('': '' @ gUID g @ '', the home's own grant: ''), PErr e])
                | Inr og \<Rightarrow> Inr og)
         }
     }
   }"

section \<open>Admit\<close>

text \<open>The refusals that need no other state than the runtime and the clock.\<close>

definition admit_floor :: "'w Home \<Rightarrow> Grant \<Rightarrow> ('w, (StatusCode \<times> goerr) option) act" where
  "admit_floor ho g = do {
     let rt = hoRuntime ho;
     w \<leftarrow> reads cW;
     now \<leftarrow> clock ho;
     if gMinTier g > rtTier rt then
       ret (Some (NeedsTier, wrapped ErrNeedsTier
         (''grant needs '' @ Tier_String (gMinTier g) @ '', runtime is '' @ Tier_String (rtTier rt))))
     else if Isolation_Untrusted (pIsolation (gPolicy g)) \<and>
             (case rtIsolatesTenants rt of None \<Rightarrow> True | Some isolates \<Rightarrow> \<not> isolates w) then
       ret (Some (NeedsTier, wrapped ErrNeedsIsolation
         (''grant '' @ gUID g @ '' is '' @ Isolation_String (pIsolation (gPolicy g)))))
     else if pEndpointMode (gPolicy g) = EndpointHandoff \<and>
             (case rtHandoffRouter rt of None \<Rightarrow> True | Some hr \<Rightarrow> \<not> hrHandsOff hr w) then
       ret (Some (NeedsTier, wrapped ErrNeedsHandoff (''grant '' @ gUID g)))
     else if gDiskBudgetBytes g > 0 \<and>
             (case rtHoldsWorkspaces rt of None \<Rightarrow> True | Some holds \<Rightarrow> \<not> holds w) then
       ret (Some (NeedsTier, wrapped ErrNeedsWorkspace (''grant '' @ gUID g)))
     else if Expired g now then do {
       code \<leftarrow> missCode ho (ESentinel ErrGrantExpired);
       ret (Some (code, ESentinel ErrGrantExpired))
     }
     else ret None
   }"

definition stands_in :: "Grant option \<Rightarrow> Grant \<Rightarrow> bool" where
  "stands_in held g =
     (case held of
        None \<Rightarrow> False
      | Some h \<Rightarrow> \<not> renewsLease h g \<and> gCallerThumbprint h = gCallerThumbprint g \<and> \<not> changesFixedFields h g)"

text \<open>Waiting for admissions of the UID in flight, until this one is entered (\<open>None\<close>) or decided.\<close>

fun admit_enter :: "'w Home \<Rightarrow> goerr \<Rightarrow> nat \<Rightarrow> Grant \<Rightarrow> ('w, (StatusCode \<times> goerr option) option) act" where
  "admit_enter ho cerr waits g = do {
     inflight \<leftarrow> reads (\<lambda>c. map_of (cAdmitting c) (gUID g) \<noteq> None);
     if \<not> inflight then do { changes (\<lambda>c. c\<lparr>cAdmitting := AList.update (gUID g) (hoSelf ho) (cAdmitting c)\<rparr>); ret None }
     else case waits of
            0 \<Rightarrow> ret (Some (DeferredFallback, Some cerr))
          | Suc n \<Rightarrow> do {
              changes (hoWaitAdmit ho (gUID g));
              held \<leftarrow> looks (\<lambda>l. Ledger_Grant l (gUID g));
              if stands_in held g then ret (Some (OK, None)) else admit_enter ho cerr n g
            }
   }"

declare admit_enter.simps [simp del]

definition admit_leave :: "string \<Rightarrow> ('w, unit) act" where
  "admit_leave uid = changes (\<lambda>c. c\<lparr>cAdmitting := AList.delete uid (cAdmitting c)\<rparr>)"

definition attachDevices :: "'w Home \<Rightarrow> string \<Rightarrow> DeviceChannel \<Rightarrow> ('w, unit) act" where
  "attachDevices ho uid fc =
     (case rtAttachDevices (hoRuntime ho) of None \<Rightarrow> skip | Some attach \<Rightarrow> calls ho (attach uid fc))"

definition admit_devices :: "'w Home \<Rightarrow> Grant \<Rightarrow> ('w, goerr + 'w heldDevices) act" where
  "admit_devices ho g =
     (case hoDevices ho of
        None \<Rightarrow> ret (Inr \<lparr>hdChannel = no_channel, hdRelease = None\<rparr>)
      | Some provision \<Rightarrow> do {
          r \<leftarrow> calls ho (provision g);
          case r of
            Inl e \<Rightarrow> ret (Inl e)
          | Inr (fc, release) \<Rightarrow> do {
              attachDevices ho (gUID g) fc;
              ret (Inr \<lparr>hdChannel = fc, hdRelease = release\<rparr>)
            }
        })"

definition admit_refuse :: "'w Home \<Rightarrow> string \<Rightarrow> 'w heldDevices \<Rightarrow> ('w, unit) act" where
  "admit_refuse ho uid fresh = do {
     run_release ho (hdRelease fresh);
     old \<leftarrow> reads (\<lambda>c. map_of (cDevices c) uid);
     case old of None \<Rightarrow> skip | Some h \<Rightarrow> attachDevices ho uid (hdChannel h)
   }"

definition admit_detail :: "Grant \<Rightarrow> DeviceChannel \<Rightarrow> string" where
  "admit_detail g dc =
     gTemplateDigest g @
     (if dcKind dc \<noteq> [] then '' devices='' @ dcKind dc @ '' n='' @ format_nat (length (dcDevices dc)) @ '' '' @ dcDetail dc
      else [])"

definition admit_swap :: "'w Home \<Rightarrow> string \<Rightarrow> 'w heldDevices \<Rightarrow> ('w, unit) act" where
  "admit_swap ho uid fresh =
     (case hoDevices ho of
        None \<Rightarrow> skip
      | Some provision \<Rightarrow> do {
          old \<leftarrow> reads (\<lambda>c. map_of (cDevices c) uid);
          changes (\<lambda>c. c\<lparr>cDevices := AList.update uid fresh (cDevices c)\<rparr>);
          case old of None \<Rightarrow> skip | Some h \<Rightarrow> run_release ho (hdRelease h)
        })"

definition epoch_fence :: "string \<Rightarrow> ('w, Fence) act" where
  "epoch_fence uid = looks (\<lambda>l. \<lparr>fGrantUID = uid, fEpoch = lEpoch l, fSeq = 0\<rparr>)"

text \<open>The admission itself, once the template is warm and the devices fit.\<close>

definition admit_commit :: "'w Home \<Rightarrow> Grant \<Rightarrow> 'w heldDevices \<Rightarrow> ('w, unit) act" where
  "admit_commit ho g fresh = do {
     admit_swap ho (gUID g) fresh;
     ledger (\<lambda>l. (AdmitGrant l g, ()));
     restoreHeld (gUID g);
     kickRefill;
     fence \<leftarrow> epoch_fence (gUID g);
     note_audit ho (event_record ''admit'' fence [] [] (admit_detail g (hdChannel fresh)));
     persist ho;
     notify
   }"

definition device_fault :: "'w Home \<Rightarrow> Grant \<Rightarrow> 'w \<Rightarrow> goerr option" where
  "device_fault ho g w =
     (if dbBytes (gDeviceBudget g) > 0 then
        (let (cls, capacity) = (case rtDeviceOffer (hoRuntime ho) of None \<Rightarrow> ([], 0) | Some offer \<Rightarrow> offer (gUID g) w)
         in DeviceFits (dbClass (gDeviceBudget g)) cls capacity)
      else None)"

definition admit_prepared :: "'w Home \<Rightarrow> Grant \<Rightarrow> 'w heldDevices \<Rightarrow> ('w, StatusCode \<times> goerr option) act" where
  "admit_prepared ho g fresh = do {
     perr \<leftarrow> calls ho (rtPrepareTemplate (hoRuntime ho) g);
     case perr of
       Some e \<Rightarrow> do {
         admit_refuse ho (gUID g) fresh;
         code \<leftarrow> missCode ho (ESentinel ErrNotReady);
         ret (code, Some (wrapped2 ErrNotReady e))
       }
     | None \<Rightarrow> do {
         fault \<leftarrow> reads (\<lambda>c. device_fault ho g (cW c));
         case fault of
           Some e \<Rightarrow> do { admit_refuse ho (gUID g) fresh; ret (NeedsTier, Some e) }
         | None \<Rightarrow> do { admit_commit ho g fresh; ret (OK, None) }
       }
   }"

definition admit_vouched :: "'w Home \<Rightarrow> Grant \<Rightarrow> ('w, StatusCode \<times> goerr option) act" where
  "admit_vouched ho g = do {
     dv \<leftarrow> admit_devices ho g;
     case dv of
       Inl e \<Rightarrow> do {
         code \<leftarrow> missCode ho (ESentinel ErrNotReady);
         ret (code, Some (EFmt [PErr (ESentinel ErrNotReady), PStr '': devices: '', PErr e]))
       }
     | Inr fresh \<Rightarrow> admit_prepared ho g fresh
   }"

definition admit_work :: "'w Home \<Rightarrow> Grant \<Rightarrow> ('w, StatusCode \<times> goerr option) act" where
  "admit_work ho g = do {
     deny \<leftarrow> denied ho (gUID g) (gLeaseExpiry g);
     if deny then do {
       code \<leftarrow> missCode ho (ESentinel ErrGrantRevoked);
       ret (code, Some (wrapped ErrGrantRevoked (gUID g)))
     }
     else do {
       held \<leftarrow> looks (\<lambda>l. Ledger_Grant l (gUID g));
       if (case held of None \<Rightarrow> False | Some h \<Rightarrow> changesFixedFields h g)
       then ret (Invalid, Some (wrapped ErrGrantChanged (''grant '' @ gUID g)))
       else admit_vouched ho g
     }
   }"

definition Admit :: "'w Home \<Rightarrow> ctx \<Rightarrow> Grant \<Rightarrow> ('w, StatusCode \<times> goerr option) act" where
  "Admit ho cx g = do {
     low \<leftarrow> admit_floor ho g;
     case low of
       Some (code, e) \<Rightarrow> ret (code, Some e)
     | None \<Rightarrow> do {
         decided \<leftarrow> admit_enter ho (cxErr cx) (cxWaits cx) g;
         case decided of
           Some r \<Rightarrow> ret r
         | None \<Rightarrow> do {
             r \<leftarrow> admit_work ho g;
             admit_leave (gUID g);
             ret r
           }
       }
   }"

section \<open>Yield, Remove, Redeliver, Sweep\<close>

definition yield_release :: "'w Home \<Rightarrow> string \<Rightarrow> FiberInfo \<Rightarrow> Fence \<Rightarrow> ('w, unit) act" where
  "yield_release ho reason f fence = do {
     rerr \<leftarrow> calls ho (rtRelease (hoRuntime ho) (fiID f) False);
     (session, deltaRef) \<leftarrow> ledger (\<lambda>l. OnRelease l (fiID f));
     (if deltaRef \<noteq> [] then discardDelta ho fence (fiSession f) deltaRef else skip);
     note_audit ho (event_record ''yield'' fence (fiSession f) (fiID f) reason)
   }"

definition yield_one :: "'w Home \<Rightarrow> string \<Rightarrow> FiberInfo \<Rightarrow> ('w, unit) act" where
  "yield_one ho reason f = do {
     known \<leftarrow> looks (\<lambda>l. Ledger_Fiber l (fiID f));
     case known of
       None \<Rightarrow> skip
     | Some fence \<Rightarrow> yield_release ho reason f fence
   }"

definition Yield :: "'w Home \<Rightarrow> string \<Rightarrow> string \<Rightarrow> ('w, unit) act" where
  "Yield ho uid reason = do {
     Core_Revoke ho uid;
     fibers \<leftarrow> looks (\<lambda>l. FibersOf l uid);
     each (yield_one ho reason) fibers;
     (case rtDropTemplate (hoRuntime ho) of None \<Rightarrow> skip | Some dropTemplate \<Rightarrow> calls ho (dropTemplate uid));
     fence \<leftarrow> epoch_fence uid;
     note_audit ho (event_record ''revoke'' fence [] [] reason);
     persist ho;
     notify
   }"

definition remove_deny :: "'w Home \<Rightarrow> string \<Rightarrow> ('w, unit) act" where
  "remove_deny ho uid = do {
     rv \<leftarrow> reads cRevoked;
     case rv of
       None \<Rightarrow> skip
     | Some (r, f) \<Rightarrow> do {
         held \<leftarrow> looks (\<lambda>l. Ledger_Grant l uid);
         now \<leftarrow> clock ho;
         let lease = (case held of Some g \<Rightarrow> gLeaseExpiry g | None \<Rightarrow> now);
         (w, e) \<leftarrow> world (hoWrite ho);
         let (r', f', ok) = Revoked_Add r f uid lease now w;
         changes (\<lambda>c. c\<lparr>cRevoked := Some (r', f')\<rparr>);
         inflight \<leftarrow> reads (\<lambda>c. map_of (cAdmitting c) uid \<noteq> None);
         if inflight then changes (hoWaitAdmit ho uid) else skip
       }
   }"

definition Remove :: "'w Home \<Rightarrow> string \<Rightarrow> ('w, unit) act" where
  "Remove ho uid = do { remove_deny ho uid; Yield ho uid ''removed by the home'' }"

definition Redeliver :: "'w Home \<Rightarrow> string \<Rightarrow> ('w, unit) act" where
  "Redeliver ho uid = do {
     rv \<leftarrow> reads cRevoked;
     case rv of
       None \<Rightarrow> skip
     | Some (r, f) \<Rightarrow> do {
         (w, e) \<leftarrow> world (hoWrite ho);
         let (r', f', lifted, ok) = Revoked_Clear r f uid w;
         changes (\<lambda>c. c\<lparr>cRevoked := Some (r', f')\<rparr>);
         fence \<leftarrow> epoch_fence uid;
         if lifted
         then note_audit ho (event_record ''redeliver'' fence [] [] ''the home delivered the grant again'')
         else skip
       }
   }"

fun sweep_each :: "'w Home \<Rightarrow> gotime \<Rightarrow> Status list \<Rightarrow> ('w, nat) act" where
  "sweep_each ho now [] = ret 0"
| "sweep_each ho now (st # sts) = do {
     held \<leftarrow> looks (\<lambda>l. Ledger_Grant l (stGrantUID st));
     case held of
       None \<Rightarrow> sweep_each ho now sts
     | Some g \<Rightarrow>
         if Expired g now
         then do { Yield ho (gUID g) ''lease expired''; n \<leftarrow> sweep_each ho now sts; ret (Suc n) }
         else sweep_each ho now sts
   }"

definition Sweep :: "'w Home \<Rightarrow> ('w, nat) act" where
  "Sweep ho = do {
     now \<leftarrow> clock ho;
     sts \<leftarrow> looks Statuses;
     sweep_each ho now sts
   }"

end
