(* ===== verification/Core_Boot.thy ===== *)
theory Core_Boot
  imports Core_Admit
begin

text \<open>
  \<open>BumpEpoch\<close> of \<open>pkg/core/core.go\<close> and \<open>Reconcile\<close> of \<open>pkg/core/snapshot.go\<close>: the two moments at which
  every fence minted before becomes invalid.
\<close>

section \<open>BumpEpoch\<close>

definition bump_release :: "'w Home \<Rightarrow> string \<Rightarrow> string \<Rightarrow> Fence \<Rightarrow> ('w, unit) act" where
  "bump_release ho reason fid fence = do {
     rerr \<leftarrow> calls ho (rtRelease (hoRuntime ho) fid False);
     (session, deltaRef) \<leftarrow> ledger (\<lambda>l. OnRelease l fid);
     (if deltaRef \<noteq> [] then discardDelta ho fence session deltaRef else skip);
     d \<leftarrow> durability (fGrantUID fence);
     err \<leftarrow> audit ho d (event_record ''scope-revoked'' fence [] fid reason);
     skip
   }"

definition bump_one :: "'w Home \<Rightarrow> u64 \<Rightarrow> string \<Rightarrow> string \<Rightarrow> ('w, unit) act" where
  "bump_one ho epoch reason fid = do {
     known \<leftarrow> looks (\<lambda>l. Ledger_Fiber l fid);
     case known of
       None \<Rightarrow> skip
     | Some fence \<Rightarrow> if fEpoch fence \<ge> epoch then skip else bump_release ho reason fid fence
   }"

definition bump_sweep :: "'w Home \<Rightarrow> string \<Rightarrow> u64 \<Rightarrow> ('w, goerr + u64) act" where
  "bump_sweep ho reason epoch = do {
     ledger (\<lambda>l. (Ledger_BumpEpoch l epoch, ()));
     ids \<leftarrow> looks RunningFibers;
     each (bump_one ho epoch reason) ids;
     persist ho;
     notify;
     ret (Inr epoch)
   }"

definition Core_BumpEpoch :: "'w Home \<Rightarrow> string \<Rightarrow> ('w, goerr + u64) act" where
  "Core_BumpEpoch ho reason = do {
     es \<leftarrow> reads cEpoch;
     case es of
       None \<Rightarrow> ret (Inl (ENew ''fiberd: no epoch store to bump''))
     | Some (file, cur) \<Rightarrow> do {
         (w, e) \<leftarrow> world (hoWrite ho);
         let (file', cur', r) = EpochStore_Bump w file cur;
         changes (\<lambda>c. c\<lparr>cEpoch := Some (file', cur')\<rparr>);
         case r of
           None \<Rightarrow> ret (Inl (EFmt [PStr ''persist epoch: '', PErr e]))
         | Some epoch \<Rightarrow> bump_sweep ho reason epoch
       }
   }"

section \<open>Reconcile\<close>

record ReconcileReport =
  rrGrantsReadmitted :: nat
  rrGrantsExpired :: nat
  rrGrantsUnverified :: nat
  rrGrantsUnavailable :: nat
  rrParkedRestored :: nat
  rrParkedDropped :: nat
  rrParkedHeld :: nat
  rrOrphansKilled :: nat
  rrDeltasSwept :: int

definition no_report :: ReconcileReport where
  "no_report = \<lparr>rrGrantsReadmitted = 0, rrGrantsExpired = 0, rrGrantsUnverified = 0, rrGrantsUnavailable = 0,
     rrParkedRestored = 0, rrParkedDropped = 0, rrParkedHeld = 0, rrOrphansKilled = 0, rrDeltasSwept = 0\<rparr>"

definition reconcile_checked ::
  "'w Home \<Rightarrow> ctx \<Rightarrow> Grant \<Rightarrow> ReconcileReport \<Rightarrow> goerr + Grant \<Rightarrow> ('w, ReconcileReport) act" where
  "reconcile_checked ho cx g rep r =
     (case r of
        Inl e \<Rightarrow>
          if errors_Is e ErrVerifyUnavailable
          then do { hold g; ret (rep\<lparr>rrGrantsUnavailable := rrGrantsUnavailable rep + 1\<rparr>) }
          else do {
            fence \<leftarrow> epoch_fence (gUID g);
            note_audit ho (event_record ''refuse'' fence [] [] (''at boot: '' @ Error_text e));
            ret (rep\<lparr>rrGrantsUnverified := rrGrantsUnverified rep + 1\<rparr>)
          }
      | Inr vg \<Rightarrow> do {
          (code, e) \<leftarrow> Admit ho cx vg;
          ret (if e \<noteq> None then rep else rep\<lparr>rrGrantsReadmitted := rrGrantsReadmitted rep + 1\<rparr>)
        })"

definition reconcile_grant ::
  "'w Home \<Rightarrow> ctx \<Rightarrow> gotime \<Rightarrow> Grant \<Rightarrow> ReconcileReport \<Rightarrow> ('w, ReconcileReport) act" where
  "reconcile_grant ho cx now g rep =
     (if Expired g now then do {
        fence \<leftarrow> epoch_fence (gUID g);
        note_audit ho (event_record ''expire'' fence [] [] ''at boot'');
        ret (rep\<lparr>rrGrantsExpired := rrGrantsExpired rep + 1\<rparr>)
      }
      else if gToken g = [] then ret (rep\<lparr>rrGrantsUnverified := rrGrantsUnverified rep + 1\<rparr>)
      else do { r \<leftarrow> reverify ho (gUID g) (gToken g); reconcile_checked ho cx g rep r })"

fun reconcile_grants ::
  "'w Home \<Rightarrow> ctx \<Rightarrow> gotime \<Rightarrow> Grant list \<Rightarrow> ReconcileReport \<Rightarrow> ('w, ReconcileReport) act" where
  "reconcile_grants ho cx now [] rep = ret rep"
| "reconcile_grants ho cx now (g # gs) rep = do {
     rep' \<leftarrow> reconcile_grant ho cx now g rep;
     reconcile_grants ho cx now gs rep'
   }"

definition reconcile_session :: "'w Home \<Rightarrow> SessionSnapshot \<Rightarrow> ReconcileReport \<Rightarrow> ('w, ReconcileReport) act" where
  "reconcile_session ho s rep = do {
     there \<leftarrow> reads (\<lambda>c. case rtHasDelta (hoRuntime ho) of None \<Rightarrow> True | Some has \<Rightarrow> has (ssDeltaRef s) (cW c));
     if ssState s \<noteq> StateParked \<or> ssDeltaRef s = [] then ret rep
     else if \<not> there then ret (rep\<lparr>rrParkedDropped := rrParkedDropped rep + 1\<rparr>)
     else do {
       held \<leftarrow> holdParked s;
       if held then ret (rep\<lparr>rrParkedHeld := rrParkedHeld rep + 1\<rparr>)
       else do {
         ok \<leftarrow> ledger (\<lambda>l. RestoreParked l s);
         ret (if ok then rep\<lparr>rrParkedRestored := rrParkedRestored rep + 1\<rparr>
              else rep\<lparr>rrParkedDropped := rrParkedDropped rep + 1\<rparr>)
       }
     }
   }"

fun reconcile_sessions ::
  "'w Home \<Rightarrow> SessionSnapshot list \<Rightarrow> ReconcileReport \<Rightarrow> ('w, ReconcileReport) act" where
  "reconcile_sessions ho [] rep = ret rep"
| "reconcile_sessions ho (s # ss) rep = do {
     rep' \<leftarrow> reconcile_session ho s rep;
     reconcile_sessions ho ss rep'
   }"

definition reconcile_orphan :: "'w Home \<Rightarrow> FiberHandle \<Rightarrow> ReconcileReport \<Rightarrow> ('w, ReconcileReport) act" where
  "reconcile_orphan ho h rep = do {
     epoch \<leftarrow> looks lEpoch;
     let parsed = ParseFence (hID h);
     if (case parsed of Inl e \<Rightarrow> False | Inr f \<Rightarrow> fEpoch f \<ge> epoch) then ret rep
     else do {
       rerr \<leftarrow> calls ho (rtRelease (hoRuntime ho) (hID h) False);
       if rerr \<noteq> None then ret rep
       else do {
         note_audit ho (event_record ''orphan'' (case parsed of Inl e \<Rightarrow> no_fence | Inr f \<Rightarrow> f) [] (hID h)
                          ''killed at boot: prior epoch'');
         ret (rep\<lparr>rrOrphansKilled := rrOrphansKilled rep + 1\<rparr>)
       }
     }
   }"

fun reconcile_orphans :: "'w Home \<Rightarrow> FiberHandle list \<Rightarrow> ReconcileReport \<Rightarrow> ('w, ReconcileReport) act" where
  "reconcile_orphans ho [] rep = ret rep"
| "reconcile_orphans ho (h # hs) rep = do {
     rep' \<leftarrow> reconcile_orphan ho h rep;
     reconcile_orphans ho hs rep'
   }"

definition sweepDeltas :: "'w Home \<Rightarrow> Snapshot \<Rightarrow> ('w, int) act" where
  "sweepDeltas ho snap =
     (case rtSweepDeltas (hoRuntime ho) of
        None \<Rightarrow> ret 0
      | Some sweep \<Rightarrow>
          if snUnreadable snap then ret 0
          else do {
            s \<leftarrow> snapshot ho;
            let keep = map ssDeltaRef (filter (\<lambda>x. ssState x = StateParked \<and> ssDeltaRef x \<noteq> []) (snSessions s));
            (n, err) \<leftarrow> calls ho (sweep keep);
            ret n
          })"

definition discard_consumed :: "'w Home \<Rightarrow> SessionSnapshot \<Rightarrow> ('w, unit) act" where
  "discard_consumed ho s =
     (if ssState s = StateRunning \<and> ssDeltaRef s \<noteq> [] then discardDelta ho (ssFence s) (ssName s) (ssDeltaRef s)
      else skip)"

definition Reconcile :: "'w Home \<Rightarrow> ctx \<Rightarrow> Snapshot \<Rightarrow> ('w, ReconcileReport \<times> goerr option) act" where
  "Reconcile ho cx snap = do {
     now \<leftarrow> clock ho;
     rep1 \<leftarrow> reconcile_grants ho cx now (snGrants snap) no_report;
     rep2 \<leftarrow> reconcile_sessions ho (snSessions snap) rep1;
     running \<leftarrow> calls ho (rtList (hoRuntime ho));
     case running of
       Inl e \<Rightarrow> ret (rep2, Some (EFmt [PStr ''reconcile: list: '', PErr e]))
     | Inr hs \<Rightarrow> do {
         rep3 \<leftarrow> reconcile_orphans ho hs rep2;
         each (discard_consumed ho) (snSessions snap);
         n \<leftarrow> sweepDeltas ho snap;
         persist ho;
         notify;
         ret (rep3\<lparr>rrDeltasSwept := n\<rparr>, None)
       }
   }"

end
