(* ===== verification/Core_Clone.thy ===== *)
theory Core_Clone
  imports Core_Admit
begin

text \<open>
  \<open>Clone\<close> and \<open>locate\<close> of \<open>pkg/core/core.go\<close>, the warm path, in the source's phases: the frontend,
  self-admission, backpressure, mobility, the resolve, the runtime's work, the audit record, and
  the commit. A phase that ends the call answers \<open>Inl\<close> with the code and the error.
\<close>

type_synonym refusal = "StatusCode \<times> goerr"

section \<open>Frontend and self-admission\<close>

text \<open>\<open>caller_fault\<close> is the \<open>switch\<close> on the caller's key.\<close>

definition caller_fault :: "'w Home \<Rightarrow> Grant \<Rightarrow> string \<Rightarrow> sentinel option" where
  "caller_fault ho g thumbprint =
     (if gCallerThumbprint g \<noteq> [] \<and> gCallerThumbprint g \<noteq> thumbprint then Some ErrCallerMismatch
      else if gCallerThumbprint g = [] \<and> hoRequireBoundGrants ho then Some ErrUnboundGrant
      else if gCallerThumbprint g = [] \<and> pEndpointMode (gPolicy g) = EndpointHandoff then Some ErrHandoffUnbound
      else None)"

definition verify_failed :: "goerr \<Rightarrow> refusal" where
  "verify_failed e =
     (if errors_Is e ErrVerifyUnavailable then (Shed, EFmt [PStr ''capability: '', PErr e])
      else (Unauthenticated, EFmt [PStr ''capability: '', PErr e]))"

definition no_tenant :: "Grant \<Rightarrow> string \<Rightarrow> goerr" where
  "no_tenant g session = wrapped ErrNoTenant (''grant '' @ gUID g @ '', session '' @ go_quote session)"

definition clone_checks :: "'w Home \<Rightarrow> CloneRequest \<Rightarrow> bool \<Rightarrow> Grant \<Rightarrow> refusal + Grant" where
  "clone_checks ho req drain vg =
     (let g = vg\<lparr>gToken := rqGrantJWT req\<rparr> in
      if drain then Inl (DeferredFallback, ESentinel ErrDraining)
      else if hoNodeID ho \<noteq> [] \<and> gAudience g \<noteq> hoNodeID ho
      then Inl (Unauthenticated, wrong_audience (gAudience g) (hoNodeID ho))
      else case caller_fault ho g (rqCallerThumbprint req) of
             Some s \<Rightarrow> Inl (Unauthenticated, ESentinel s)
           | None \<Rightarrow>
               if rqSession req \<noteq> [] \<and> gTenant g = [] then Inl (NeedsTier, no_tenant g (rqSession req))
               else Inr g)"

definition clone_frontend :: "'w Home \<Rightarrow> CloneRequest \<Rightarrow> ('w, refusal + Grant) act" where
  "clone_frontend ho req =
     (if length (rqPayload req) > MaxPayload then ret (Inl (Invalid, ESentinel ErrPayloadTooLarge))
      else do {
        r \<leftarrow> calls ho (hoVerify ho (rqGrantJWT req));
        case r of
          Inl e \<Rightarrow> ret (Inl (verify_failed e))
        | Inr vg \<Rightarrow> do { drain \<leftarrow> Draining; ret (clone_checks ho req drain vg) }
      })"

definition clone_own :: "'w Home \<Rightarrow> Grant \<Rightarrow> ('w, goerr + Grant) act" where
  "clone_own ho g = (case hoOwnGrant ho of None \<Rightarrow> ret (Inr g) | Some own \<Rightarrow> ownGrant ho own g)"

definition clone_self_admit :: "'w Home \<Rightarrow> ctx \<Rightarrow> Grant \<Rightarrow> ('w, refusal option) act" where
  "clone_self_admit ho cx g = do {
     known \<leftarrow> looks (\<lambda>l. Ledger_Grant l (gUID g));
     case known of
       Some h \<Rightarrow> ret None
     | None \<Rightarrow>
         if hoSelfAdmitUID ho \<noteq> [] \<and> gUID g \<noteq> hoSelfAdmitUID ho
         then ret (Some (Unauthenticated, wrapped ErrWrongAudience
                (''uid='' @ go_quote (gUID g) @ '', this home self-admits only '' @ go_quote (hoSelfAdmitUID ho))))
         else do {
           own \<leftarrow> clone_own ho g;
           case own of
             Inl e \<Rightarrow> do { code \<leftarrow> missCode ho e; ret (Some (code, e)) }
           | Inr ag \<Rightarrow> do {
               (code, err) \<leftarrow> Admit ho cx ag;
               ret (case err of None \<Rightarrow> None | Some e \<Rightarrow> Some (code, e))
             }
         }
   }"

text \<open>The grant the clone runs under: the admitted one.\<close>

definition clone_held :: "'w Home \<Rightarrow> Grant \<Rightarrow> ('w, refusal + Grant) act" where
  "clone_held ho g = do {
     held \<leftarrow> looks (\<lambda>l. Ledger_Grant l (gUID g));
     case held of
       None \<Rightarrow> do {
         code \<leftarrow> missCode ho (ESentinel ErrGrantUnknown);
         ret (Inl (code, wrapped ErrGrantUnknown (gUID g)))
       }
     | Some h \<Rightarrow>
         ret (if gCallerThumbprint h \<noteq> gCallerThumbprint g
              then Inl (Unauthenticated, wrapped ErrCallerMismatch ''the token names another caller than the admitted grant'')
              else Inr h)
   }"

definition rate_take :: "'w Home \<Rightarrow> ('w, goerr option) act" where
  "rate_take ho = do {
     now \<leftarrow> clock ho;
     rl \<leftarrow> reads cRateLimit;
     let (rl', err) = Take rl now;
     changes (\<lambda>c. c\<lparr>cRateLimit := rl'\<rparr>);
     ret err
   }"

definition shedding :: "'w Home \<Rightarrow> string \<Rightarrow> ('w, bool) act" where
  "shedding ho uid =
     reads (\<lambda>c. hoPressure ho \<and> (case map_of (cShedding c) uid of Some b \<Rightarrow> b | None \<Rightarrow> False))"

section \<open>locate\<close>

definition forget_stale :: "'w Home \<Rightarrow> Grant \<Rightarrow> string \<Rightarrow> string \<Rightarrow> ('w, unit) act" where
  "forget_stale ho g session ref = do {
     ledger (\<lambda>l. (ForgetSession l (gUID g) session, ()));
     persist ho;
     fence \<leftarrow> epoch_fence (gUID g);
     discardDelta ho fence session ref;
     note_audit ho (event_record ''migrate-out'' fence session [] [])
   }"

text \<open>A delta that was claimed: it is registered, or found already here, or its grant is gone.\<close>

definition locate_claimed ::
  "'w Home \<Rightarrow> Grant \<Rightarrow> string \<Rightarrow> RemoteDelta \<Rightarrow> string \<Rightarrow> ('w, refusal option) act" where
  "locate_claimed ho g session rd ref = do {
     rerr \<leftarrow> ledger (\<lambda>l. case restoreParked l \<lparr>ssName = session, ssGrantUID = gUID g, ssState = StateParked,
                              ssFence = no_fence, ssDeltaRef = ref, ssFiberID = []\<rparr> of
                           Inl e \<Rightarrow> (l, Some e) | Inr l' \<Rightarrow> (l', None));
     case rerr of
       Some e \<Rightarrow>
         if \<not> errors_Is e ErrSessionHeld then do {
           fence \<leftarrow> epoch_fence (gUID g);
           (code, cerr) \<leftarrow> swept ho g fence;
           fence2 \<leftarrow> epoch_fence (gUID g);
           note_audit ho (event_record ''migrate-in'' fence2 session []
             (''from '' @ rdHome rd @ '', kept unregistered at '' @ ref @ '': '' @ Error_text cerr));
           ret (Some (code, cerr))
         }
         else do {
           (case rtDiscardDelta (hoRuntime ho) of
              None \<Rightarrow> skip
            | Some discard \<Rightarrow> do { derr \<leftarrow> calls ho (discard ref); skip });
           ret None
         }
     | None \<Rightarrow> do {
         persist ho;
         fence \<leftarrow> epoch_fence (gUID g);
         aerr \<leftarrow> audit ho (pDurability (gPolicy g)) (event_record ''migrate-in'' fence session []
           (''from '' @ rdHome rd @ '', '' @ FormatUint (rdWBytes rd) @ '' bytes''));
         ret (case aerr of None \<Rightarrow> None | Some e \<Rightarrow> Some (Internal, e))
       }
   }"

definition too_large :: "RemoteDelta \<Rightarrow> u64 \<Rightarrow> goerr" where
  "too_large rd budget =
     ERemoteMiss (wrapped ErrDeltaTooLarge
       (FormatUint (rdWBytes rd) @ '' > '' @ FormatUint budget @ '', parked on '' @ rdHome rd)) (rdHome rd)"

definition locate_remote :: "'w Home \<Rightarrow> 'w DeltaFinder \<Rightarrow> Grant \<Rightarrow> string \<Rightarrow> ('w, refusal option) act" where
  "locate_remote ho finder g session = do {
     (rd, found, ferr) \<leftarrow> calls ho (dfFindDelta finder g session);
     case ferr of
       Some e \<Rightarrow>
         if as_RemoteMiss e \<noteq> None then do { code \<leftarrow> missCode ho e; ret (Some (code, e)) } else ret None
     | None \<Rightarrow>
         if \<not> found then ret None
         else do {
           let budget = (case hoMobilityBudget ho of None \<Rightarrow> gWBudgetBytes g | Some mb \<Rightarrow> mb g);
           if budget > 0 \<and> rdWBytes rd > budget
           then do { code \<leftarrow> missCode ho (too_large rd budget); ret (Some (code, too_large rd budget)) }
           else do {
             cl \<leftarrow> calls ho (dfClaimDelta finder g session rd);
             case cl of
               Inl e \<Rightarrow> do {
                 let err = ERemoteMiss (EFmt [PErr (ESentinel ErrNotReady), PStr '': claim: '', PErr e]) (rdHome rd);
                 code \<leftarrow> missCode ho err;
                 ret (Some (code, err))
               }
             | Inr ref \<Rightarrow> locate_claimed ho g session rd ref
           }
         }
   }"

definition locate :: "'w Home \<Rightarrow> Grant \<Rightarrow> string \<Rightarrow> ('w, refusal option) act" where
  "locate ho g session =
     (case rtDeltaFinder (hoRuntime ho) of
        None \<Rightarrow> ret None
      | Some finder \<Rightarrow> do {
          st \<leftarrow> looks (\<lambda>l. Ledger_SessionState l (gUID g) session);
          case st of
            None \<Rightarrow> locate_remote ho finder g session
          | Some (state, ref) \<Rightarrow>
              if state \<noteq> StateParked then ret None
              else do {
                owned \<leftarrow> calls ho (dfOwned finder ref);
                if owned then ret None
                else do { forget_stale ho g session ref; locate_remote ho finder g session }
              }
        })"

section \<open>Clone\<close>

definition hold_gate :: "'w Home \<Rightarrow> string \<Rightarrow> string \<Rightarrow> ('w, string option) act" where
  "hold_gate ho uid session = do {
     let key = session_key uid session;
     ledger (\<lambda>l. (gate_enter l key, ()));
     changes (hoWaitGate ho key);
     ledger (\<lambda>l. (gate_lock l key, ()));
     ret (Some key)
   }"

definition release_gate :: "string option \<Rightarrow> ('w, unit) act" where
  "release_gate gate = ledger (\<lambda>l. (hold_release l gate, ()))"

definition clone_locate :: "'w Home \<Rightarrow> Grant \<Rightarrow> string \<Rightarrow> ('w, refusal + string option) act" where
  "clone_locate ho g session =
     (if session = [] then ret (Inr None)
      else do {
        gate \<leftarrow> hold_gate ho (gUID g) session;
        loc \<leftarrow> locate ho g session;
        case loc of
          None \<Rightarrow> ret (Inr gate)
        | Some refusal \<Rightarrow> do { release_gate gate; ret (Inl refusal) }
      })"

definition clone_spec :: "CloneRequest \<Rightarrow> Grant \<Rightarrow> resolution \<Rightarrow> duration \<times> duration \<Rightarrow> CloneSpec" where
  "clone_spec req g r dl =
     \<lparr>csGrant = g, csSource = (if rzAction r = ActResume then SourceDelta else SourceZygote),
      csRef = (if rzAction r = ActResume then rzRef r else []), csFence = rzFence r,
      csDeadline = (if rqDeadline req \<le> 0 then (if rzAction r = ActResume then snd dl else fst dl) else rqDeadline req),
      csPayload = rqPayload req, csSession = rqSession req, csCallerCert = rqCallerCert req\<rparr>"

definition runtime_refusal :: "goerr \<Rightarrow> refusal" where
  "runtime_refusal e =
     (if errors_Is e DeadlineExceeded then (DeferredFallback, ESentinel ErrDeadline)
      else if errors_Is e ErrPressure then (Shed, e)
      else (DeferredFallback, e))"

definition clone_run :: "'w Home \<Rightarrow> CloneRequest \<Rightarrow> Grant \<Rightarrow> resolution \<Rightarrow> ('w, refusal + FiberHandle) act" where
  "clone_run ho req g r = do {
     dl \<leftarrow> deadlines ho (gUID g);
     born \<leftarrow> calls ho (rtClone (hoRuntime ho) (clone_spec req g r dl));
     case born of
       Inl e \<Rightarrow> ret (Inl (runtime_refusal e))
     | Inr h \<Rightarrow> do {
         (if hPooled h then handedOut ho (gUID g) else skip);
         ret (Inr h)
       }
   }"

type_synonym outcome = "CloneResponse \<times> StatusCode \<times> goerr option"

definition refused :: "refusal \<Rightarrow> outcome" where
  "refused rf = (no_response, fst rf, Some (snd rf))"

text \<open>The birth record failed: the fiber is taken back, or committed when it could not be.\<close>

definition replay :: "'w Home \<Rightarrow> bool \<Rightarrow> FiberExit option \<Rightarrow> ('w, unit) act" where
  "replay ho committed ex = (case ex of Some x \<Rightarrow> (if committed then OnExit ho x else skip) | None \<Rightarrow> skip)"

definition clone_roll_back ::
  "'w Home \<Rightarrow> CloneRequest \<Rightarrow> resolution \<Rightarrow> FiberHandle \<Rightarrow> goerr \<Rightarrow> ('w, resolution \<times> outcome) act" where
  "clone_roll_back ho req r h err = do {
     rerr \<leftarrow> calls ho (rtRelease (hoRuntime ho) (hID h) False);
     if rerr \<noteq> None then do {
       (r', committed, ex) \<leftarrow> commitHeld r (clone_session r (rqSession req) h);
       replay ho committed ex;
       ret (r', refused (Internal, err))
     }
     else do {
       changes (\<lambda>c. c\<lparr>cPending := AList.delete (hID h) (cPending c)\<rparr>);
       ret (r, refused (Internal, err))
     }
   }"

text \<open>The commit was refused: the fiber was born under a grant or epoch that is gone, or into a drain.\<close>

definition clone_swept ::
  "'w Home \<Rightarrow> CloneRequest \<Rightarrow> Grant \<Rightarrow> resolution \<Rightarrow> FiberHandle \<Rightarrow> ('w, resolution \<times> outcome) act" where
  "clone_swept ho req g r h = do {
     sw \<leftarrow> swept ho g (rzFence r);
     drain \<leftarrow> Draining;
     let why = (if drain then (DeferredFallback, ESentinel ErrDraining) else sw);
     rerr \<leftarrow> calls ho (rtRelease (hoRuntime ho) (hID h) False);
     note_audit ho (event_record ''release'' (rzFence r) (rqSession req) (hID h) (Error_text (snd why)));
     ret (r, refused why)
   }"

definition clone_committed ::
  "'w Home \<Rightarrow> CloneRequest \<Rightarrow> resolution \<Rightarrow> FiberHandle \<Rightarrow> FiberExit option \<Rightarrow> ('w, CloneResponse) act" where
  "clone_committed ho req r h ex = do {
     (if rzAction r = ActResume then do {
        (if rqSession req \<noteq> [] then retireDelta ho (rzFence r) (rqSession req) (rzRef r) else skip);
        persist ho
      } else skip);
     notify;
     replay ho True ex;
     routed ho (response (hID h) (hEndpoint h) (rzFence r) (rzAction r))
   }"

definition clone_commit ::
  "'w Home \<Rightarrow> CloneRequest \<Rightarrow> Grant \<Rightarrow> resolution \<Rightarrow> FiberHandle \<Rightarrow> ('w, resolution \<times> outcome) act" where
  "clone_commit ho req g r h = do {
     (r', committed, ex) \<leftarrow> commitHeld r (clone_session r (rqSession req) h);
     if \<not> committed then clone_swept ho req g r' h
     else do {
       resp \<leftarrow> clone_committed ho req r h ex;
       ret (r', resp, OK, None)
     }
   }"

definition clone_resolved ::
  "'w Home \<Rightarrow> CloneRequest \<Rightarrow> Grant \<Rightarrow> bool \<Rightarrow> resolution \<Rightarrow> ('w, resolution \<times> outcome) act" where
  "clone_resolved ho req g shed r =
     (if rzAction r = ActAttach then do {
        aerr \<leftarrow> audit ho (pDurability (gPolicy g)) (event_record ''attach'' (rzFence r) (rqSession req) [] []);
        case aerr of
          Some e \<Rightarrow> ret (r, refused (Internal, e))
        | None \<Rightarrow> do {
            resp \<leftarrow> routed ho (response (Fence_String (rzFence r)) (rzRef r) (rzFence r) ActAttach);
            ret (r, resp, OK, None)
          }
      }
      else if shed then ret (r, refused (Shed, ESentinel ErrPressure))
      else do {
        born \<leftarrow> clone_run ho req g r;
        case born of
          Inl rf \<Rightarrow> ret (r, refused rf)
        | Inr h \<Rightarrow> do {
            aerr \<leftarrow> audit ho (pDurability (gPolicy g))
              (event_record (Action_String (rzAction r)) (rzFence r) (rqSession req) (hID h)
                 (if hPooled h then ''pooled'' else []));
            case aerr of
              Some e \<Rightarrow> clone_roll_back ho req r h e
            | None \<Rightarrow> clone_commit ho req g r h
          }
      })"

definition clone_resolve ::
  "'w Home \<Rightarrow> CloneRequest \<Rightarrow> Grant \<Rightarrow> bool \<Rightarrow> string option \<Rightarrow> ('w, outcome) act" where
  "clone_resolve ho req g shed gate = do {
     now \<leftarrow> clock ho;
     rz \<leftarrow> ledger (\<lambda>l. resolveHeld l now gate (gUID g) (rqSession req) (rtTier (hoRuntime ho)));
     case rz of
       Inl e \<Rightarrow> do {
         release_gate gate;
         code \<leftarrow> missCode ho e;
         ret (refused (code, e))
       }
     | Inr r \<Rightarrow> do {
         (r', out) \<leftarrow> clone_resolved ho req g shed r;
         ledger (\<lambda>l. (res_unlock l r', ()));
         ret out
       }
   }"

definition clone_admitted :: "'w Home \<Rightarrow> CloneRequest \<Rightarrow> Grant \<Rightarrow> ('w, outcome) act" where
  "clone_admitted ho req g = do {
     rerr \<leftarrow> rate_take ho;
     case rerr of
       Some e \<Rightarrow> ret (refused (Shed, e))
     | None \<Rightarrow> do {
         shed \<leftarrow> shedding ho (gUID g);
         loc \<leftarrow> clone_locate ho g (rqSession req);
         case loc of
           Inl rf \<Rightarrow> ret (refused rf)
         | Inr gate \<Rightarrow> clone_resolve ho req g shed gate
       }
   }"

definition Clone :: "'w Home \<Rightarrow> ctx \<Rightarrow> CloneRequest \<Rightarrow> ('w, outcome) act" where
  "Clone ho cx req = do {
     front \<leftarrow> clone_frontend ho req;
     case front of
       Inl rf \<Rightarrow> ret (refused rf)
     | Inr g \<Rightarrow> do {
         adm \<leftarrow> clone_self_admit ho cx g;
         case adm of
           Some rf \<Rightarrow> ret (refused rf)
         | None \<Rightarrow> do {
             held \<leftarrow> clone_held ho g;
             case held of
               Inl rf \<Rightarrow> ret (refused rf)
             | Inr hg \<Rightarrow> clone_admitted ho req hg
           }
       }
   }"

end
