(* ===== verification/Core_Park.thy ===== *)
theory Core_Park
  imports Core_Clone
begin

text \<open>
  \<open>Park\<close> and \<open>Release\<close> of \<open>pkg/core/core.go\<close>, \<open>Discard\<close> of \<open>discard.go\<close> and \<open>Drain\<close> of \<open>drain.go\<close>.
\<close>

section \<open>Park and Release\<close>

record park_result =
  prRef :: string
  prPublished :: bool
  prCode :: StatusCode
  prErr :: "goerr option"

definition park_refused :: "StatusCode \<Rightarrow> goerr \<Rightarrow> park_result" where
  "park_refused code e = \<lparr>prRef = [], prPublished = False, prCode = code, prErr = Some e\<rparr>"

definition park_publish :: "'w Home \<Rightarrow> Fence \<Rightarrow> string \<Rightarrow> string \<Rightarrow> ('w, bool) act" where
  "park_publish ho fence session ref =
     (case rtPublishDelta (hoRuntime ho) of
        None \<Rightarrow> ret False
      | Some publish \<Rightarrow>
          if session = [] then ret False
          else do {
            g \<leftarrow> looks (\<lambda>l. case Ledger_Grant l (fGrantUID fence) of Some g \<Rightarrow> g | None \<Rightarrow> no_grant);
            r \<leftarrow> calls ho (publish ref g session);
            case r of
              Inl e \<Rightarrow> ret False
            | Inr remote \<Rightarrow> do { note_audit ho (event_record ''publish'' fence session [] remote); ret True }
          })"

text \<open>The session is parked: what follows once the runtime has returned a ref.\<close>

definition park_settle ::
  "'w Home \<Rightarrow> Fence \<Rightarrow> string \<Rightarrow> string \<Rightarrow> goerr option \<Rightarrow> ('w, park_result) act" where
  "park_settle ho fence fid ref perr = do {
     (session, superseded) \<leftarrow> ledger (\<lambda>l. OnPark l fid ref);
     d \<leftarrow> durability (fGrantUID fence);
     aerr \<leftarrow> audit ho d (event_record ''park'' fence session fid ref);
     published \<leftarrow> park_publish ho fence session ref;
     (if superseded \<noteq> [] \<and> superseded \<noteq> ref then discardDelta ho fence session superseded else skip);
     persist ho;
     notify;
     ret (case perr of
            Some e \<Rightarrow> \<lparr>prRef = ref, prPublished = published, prCode = Internal, prErr = Some e\<rparr>
          | None \<Rightarrow>
              (case aerr of
                 Some e \<Rightarrow> \<lparr>prRef = ref, prPublished = published, prCode = Internal, prErr = Some e\<rparr>
               | None \<Rightarrow> \<lparr>prRef = ref, prPublished = published, prCode = OK, prErr = None\<rparr>))
   }"

definition nothing_parked :: "goerr option \<Rightarrow> park_result" where
  "nothing_parked perr =
     (case perr of
        Some e \<Rightarrow> if errors_Is e ErrDeltaQuota then park_refused Shed e else park_refused Internal e
      | None \<Rightarrow> park_refused Internal (ENew ''park: the runtime returned no delta ref''))"

definition park_held :: "'w Home \<Rightarrow> Fence \<Rightarrow> string \<Rightarrow> bool \<Rightarrow> ('w, park_result) act" where
  "park_held ho fence fid sync = do {
     (ref, perr) \<leftarrow> calls ho (rtPark (hoRuntime ho) fid sync);
     if ref = [] then ret (nothing_parked perr) else park_settle ho fence fid ref perr
   }"

definition park :: "'w Home \<Rightarrow> string \<Rightarrow> bool \<Rightarrow> ('w, park_result) act" where
  "park ho fid sync = do {
     known \<leftarrow> looks (\<lambda>l. Ledger_Fiber l fid);
     case known of
       None \<Rightarrow> ret (park_refused NotFound (ESentinel ErrFiberUnknown))
     | Some fence \<Rightarrow> do {
         session \<leftarrow> looks (\<lambda>l. FiberSession l fid);
         held \<leftarrow> looks (\<lambda>l. Ledger_Grant l (fGrantUID fence));
         if session = [] then ret (park_refused Invalid (wrapped ErrAnonymousPark (''fiber '' @ fid)))
         else if (case held of Some g \<Rightarrow> gTenant g = [] | None \<Rightarrow> False)
         then ret (park_refused NeedsTier (no_tenant (the held) session))
         else do {
           gate \<leftarrow> hold_gate ho (fGrantUID fence) session;
           r \<leftarrow> park_held ho fence fid sync;
           release_gate gate;
           ret r
         }
       }
   }"

definition Park :: "'w Home \<Rightarrow> string \<Rightarrow> bool \<Rightarrow> ('w, string \<times> StatusCode \<times> goerr option) act" where
  "Park ho fid sync = do {
     r \<leftarrow> park ho fid sync;
     ret (prRef r, prCode r, prErr r)
   }"

definition Release :: "'w Home \<Rightarrow> string \<Rightarrow> bool \<Rightarrow> ('w, StatusCode \<times> goerr option) act" where
  "Release ho fid discard = do {
     known \<leftarrow> looks (\<lambda>l. Ledger_Fiber l fid);
     case known of
       None \<Rightarrow> ret (NotFound, Some (ESentinel ErrFiberUnknown))
     | Some fence \<Rightarrow> do {
         rerr \<leftarrow> calls ho (rtRelease (hoRuntime ho) fid discard);
         case rerr of
           Some e \<Rightarrow> ret (Internal, Some e)
         | None \<Rightarrow> do {
             (session, deltaRef) \<leftarrow> ledger (\<lambda>l. OnRelease l fid);
             (if discard \<and> deltaRef \<noteq> [] then discardDelta ho fence session deltaRef else skip);
             d \<leftarrow> durability (fGrantUID fence);
             aerr \<leftarrow> audit ho d (event_record ''release'' fence [] fid []);
             notify;
             ret (case aerr of Some e \<Rightarrow> (Internal, Some e) | None \<Rightarrow> (OK, None))
           }
       }
   }"

section \<open>Discard\<close>

record DiscardRequest =
  dqGrantJWT :: bytes
  dqSession :: string
  dqCallerThumbprint :: string

definition token_fault :: "'w Home \<Rightarrow> Grant \<Rightarrow> string \<Rightarrow> refusal option" where
  "token_fault ho g thumbprint =
     (if hoNodeID ho \<noteq> [] \<and> gAudience g \<noteq> hoNodeID ho
      then Some (Unauthenticated, wrong_audience (gAudience g) (hoNodeID ho))
      else if gCallerThumbprint g \<noteq> [] \<and> gCallerThumbprint g \<noteq> thumbprint
      then Some (Unauthenticated, ESentinel ErrCallerMismatch)
      else if gCallerThumbprint g = [] \<and> hoRequireBoundGrants ho
      then Some (Unauthenticated, ESentinel ErrUnboundGrant)
      else None)"

text \<open>The grant that answers for the token: the admitted one, the home's own, or none.\<close>

definition answering :: "'w Home \<Rightarrow> Grant \<Rightarrow> ('w, goerr + Grant option) act" where
  "answering ho g = do {
     held \<leftarrow> looks (\<lambda>l. Ledger_Grant l (gUID g));
     case (held, hoOwnGrant ho) of
       (None, Some own) \<Rightarrow>
         if gUID g = hoSelfAdmitUID ho then do {
           r \<leftarrow> ownGrant ho own g;
           ret (case r of Inl e \<Rightarrow> Inl e | Inr og \<Rightarrow> Inr (Some og))
         }
         else ret (Inr None)
     | _ \<Rightarrow> ret (Inr held)
   }"

definition authenticate :: "'w Home \<Rightarrow> bytes \<Rightarrow> string \<Rightarrow> ('w, refusal + Grant) act" where
  "authenticate ho token thumbprint = do {
     r \<leftarrow> calls ho (hoVerify ho token);
     case r of
       Inl e \<Rightarrow> ret (Inl (verify_failed e))
     | Inr g \<Rightarrow>
         (case token_fault ho g thumbprint of
            Some rf \<Rightarrow> ret (Inl rf)
          | None \<Rightarrow> do {
              ans \<leftarrow> answering ho g;
              case ans of
                Inl e \<Rightarrow> do { code \<leftarrow> missCode ho e; ret (Inl (code, e)) }
              | Inr None \<Rightarrow> ret (Inr g)
              | Inr (Some held) \<Rightarrow>
                  ret (if gCallerThumbprint held \<noteq> gCallerThumbprint g
                       then Inl (Unauthenticated, wrapped ErrCallerMismatch ''the token names another caller than the admitted grant'')
                       else Inr held)
            })
   }"

definition named :: "Grant \<Rightarrow> string \<Rightarrow> string" where
  "named g session = gUID g @ CHR ''/'' # session"

definition discard_step :: "'w Home \<Rightarrow> (string \<Rightarrow> ('w, goerr option) state) option \<Rightarrow> string \<Rightarrow> ('w, goerr option) act" where
  "discard_step ho f ref = (case f of None \<Rightarrow> ret None | Some m \<Rightarrow> calls ho (m ref))"

definition discardParked :: "'w Home \<Rightarrow> Grant \<Rightarrow> Fence \<Rightarrow> string \<Rightarrow> string \<Rightarrow> ('w, StatusCode \<times> goerr option) act" where
  "discardParked ho g fence session ref = do {
     rerr \<leftarrow> discard_step ho (rtRetireDelta (hoRuntime ho)) ref;
     case rerr of
       Some e \<Rightarrow> ret (Internal, Some (EFmt [PStr (''discard '' @ named g session @ '': withdraw the published copy: ''), PErr e]))
     | None \<Rightarrow> do {
         derr \<leftarrow> discard_step ho (rtDiscardDelta (hoRuntime ho)) ref;
         ledger (\<lambda>l. (ForgetSession l (gUID g) session, ()));
         persist ho;
         aerr \<leftarrow> audit ho (pDurability (gPolicy g)) (event_record ''discard'' fence session [] ref);
         notify;
         ret (case derr of
                Some e \<Rightarrow> (Internal, Some (EFmt [PStr (''discard '' @ named g session @ '': forgotten, but its delta was not all removed: ''), PErr e]))
              | None \<Rightarrow> (case aerr of Some e \<Rightarrow> (Internal, Some e) | None \<Rightarrow> (OK, None)))
       }
   }"

definition unknown_session :: "Grant \<Rightarrow> string \<Rightarrow> string \<Rightarrow> StatusCode \<times> goerr option" where
  "unknown_session g session why = (NotFound, Some (wrapped ErrSessionUnknown (named g session @ why)))"

definition discard_delete ::
  "'w Home \<Rightarrow> (Grant \<Rightarrow> string \<Rightarrow> string \<Rightarrow> ('w, goerr + string \<times> bool) state) \<Rightarrow> Grant \<Rightarrow> Fence \<Rightarrow> string \<Rightarrow> string \<Rightarrow>
   ('w, StatusCode \<times> goerr option) act" where
  "discard_delete ho delete g fence session handle = do {
     r \<leftarrow> calls ho (delete g session handle);
     case r of
       Inl e \<Rightarrow> ret (Internal, Some (EFmt [PStr (''discard '' @ named g session @ '': ''), PErr e]))
     | Inr (remote, removed) \<Rightarrow>
         if \<not> removed then ret (unknown_session g session '' was claimed or parked again meanwhile'')
         else do {
           aerr \<leftarrow> audit ho (pDurability (gPolicy g)) (event_record ''discard'' fence session [] remote);
           ret (case aerr of Some e \<Rightarrow> (Internal, Some e) | None \<Rightarrow> (OK, None))
         }
   }"

definition discardRemote :: "'w Home \<Rightarrow> Grant \<Rightarrow> Fence \<Rightarrow> string \<Rightarrow> ('w, StatusCode \<times> goerr option) act" where
  "discardRemote ho g fence session =
     (case (rtDeltaFinder (hoRuntime ho), rtDeleteDelta (hoRuntime ho)) of
        (Some finder, Some delete) \<Rightarrow> do {
          (rd, found, ferr) \<leftarrow> calls ho (dfFindDelta finder g session);
          if \<not> found then
            ret (case ferr of
                   Some e \<Rightarrow> (Internal, Some (EFmt [PStr (''discard '' @ named g session @ '': find: ''), PErr e]))
                 | None \<Rightarrow> unknown_session g session [])
          else if rdHandle rd = [] then
            ret (Internal, Some (EFmt [PStr (''discard '' @ named g session @ '': ''),
              PErr (case ferr of Some e \<Rightarrow> e | None \<Rightarrow> ENew ''the store named no digest'')]))
          else discard_delete ho delete g fence session (rdHandle rd)
        }
      | _ \<Rightarrow> ret (unknown_session g session []))"

definition discard_held :: "'w Home \<Rightarrow> Grant \<Rightarrow> string \<Rightarrow> ('w, StatusCode \<times> goerr option) act" where
  "discard_held ho g session = do {
     fence \<leftarrow> epoch_fence (gUID g);
     st \<leftarrow> looks (\<lambda>l. Ledger_SessionState l (gUID g) session);
     case st of
       None \<Rightarrow> discardRemote ho g fence session
     | Some (state, ref) \<Rightarrow>
         if state = StateRunning then ret (Invalid, Some (wrapped ErrSessionRunning (named g session)))
         else do {
           owned \<leftarrow> (case rtDeltaFinder (hoRuntime ho) of None \<Rightarrow> ret True | Some finder \<Rightarrow> calls ho (dfOwned finder ref));
           if owned then discardParked ho g fence session ref
           else do {
             ledger (\<lambda>l. (ForgetSession l (gUID g) session, ()));
             persist ho;
             discardDelta ho fence session ref;
             note_audit ho (event_record ''migrate-out'' fence session [] []);
             notify;
             discardRemote ho g fence session
           }
         }
   }"

definition Discard :: "'w Home \<Rightarrow> DiscardRequest \<Rightarrow> ('w, StatusCode \<times> goerr option) act" where
  "Discard ho req =
     (if dqSession req = [] then ret (Invalid, Some (ESentinel ErrNoSession))
      else do {
        auth \<leftarrow> authenticate ho (dqGrantJWT req) (dqCallerThumbprint req);
        case auth of
          Inl rf \<Rightarrow> ret (fst rf, Some (snd rf))
        | Inr g \<Rightarrow> do {
            now \<leftarrow> clock ho;
            if Expired g now then do {
              code \<leftarrow> missCode ho (ESentinel ErrGrantExpired);
              ret (code, Some (ESentinel ErrGrantExpired))
            }
            else if gTenant g = [] then ret (NeedsTier, Some (no_tenant g (dqSession req)))
            else do {
              gate \<leftarrow> hold_gate ho (gUID g) (dqSession req);
              r \<leftarrow> discard_held ho g (dqSession req);
              release_gate gate;
              ret r
            }
          }
      })"

section \<open>Drain\<close>

record DrainReport =
  drParked :: nat
  drPublished :: nat
  drShed :: nat
  drFailed :: nat
  drLeft :: nat

definition no_drain :: DrainReport where
  "no_drain = \<lparr>drParked = 0, drPublished = 0, drShed = 0, drFailed = 0, drLeft = 0\<rparr>"

definition DrainReport_add :: "DrainReport \<Rightarrow> DrainReport \<Rightarrow> DrainReport" where
  "DrainReport_add r o' =
     \<lparr>drParked = drParked r + drParked o', drPublished = drPublished r + drPublished o', drShed = drShed r + drShed o',
      drFailed = drFailed r + drFailed o', drLeft = drLeft r + drLeft o'\<rparr>"

definition DrainReport_String :: "DrainReport \<Rightarrow> string" where
  "DrainReport_String r =
     ''parked='' @ format_nat (drParked r) @ '' published='' @ format_nat (drPublished r) @
     '' shed='' @ format_nat (drShed r) @ '' failed='' @ format_nat (drFailed r) @ '' left='' @ format_nat (drLeft r)"

definition drainOne :: "'w Home \<Rightarrow> FiberInfo \<Rightarrow> ('w, DrainReport) act" where
  "drainOne ho f =
     (if fiSession f = [] then do {
        (code, err) \<leftarrow> Release ho (fiID f) False;
        running \<leftarrow> looks (\<lambda>l. Ledger_Fiber l (fiID f));
        ret (if code = NotFound then no_drain
             else if code = OK then no_drain\<lparr>drShed := 1\<rparr>
             else if running \<noteq> None then no_drain\<lparr>drFailed := 1\<rparr>
             else no_drain\<lparr>drShed := 1\<rparr>)
      }
      else do {
        r \<leftarrow> park ho (fiID f) True;
        ret (if prCode r = NotFound then no_drain
             else if prRef r = [] then no_drain\<lparr>drFailed := 1\<rparr>
             else if \<not> prPublished r then no_drain\<lparr>drParked := 1\<rparr>
             else no_drain\<lparr>drParked := 1, drPublished := 1\<rparr>)
      })"

text \<open>
  \<open>drainList\<close>: the fibers not tried yet, named first, and the IDs tried with them. \<open>drainBatch\<close> starts
  its fibers in order until the context ends; the calls that its workers have under way at the
  same time are among \<open>hoOthers\<close>. \<open>ended\<close> is whether the context has ended.
\<close>

definition drainList :: "Ledger \<Rightarrow> string list \<Rightarrow> FiberInfo list \<times> string list" where
  "drainList l tried =
     (let fs = filter (\<lambda>f. fiID f \<notin> set tried) (concat (map (\<lambda>st. FibersOf l (stGrantUID st)) (Statuses l)))
      in (filter (\<lambda>f. fiSession f \<noteq> []) fs @ filter (\<lambda>f. fiSession f = []) fs, tried @ map fiID fs))"

fun drainBatch :: "'w Home \<Rightarrow> ('w \<Rightarrow> bool) \<Rightarrow> FiberInfo list \<Rightarrow> ('w, DrainReport) act" where
  "drainBatch ho ended [] = ret no_drain"
| "drainBatch ho ended (f # fs) = do {
     stop \<leftarrow> reads (\<lambda>c. ended (cW c));
     if stop then ret (no_drain\<lparr>drLeft := length (f # fs)\<rparr>)
     else do {
       o' \<leftarrow> drainOne ho f;
       rep \<leftarrow> drainBatch ho ended fs;
       ret (DrainReport_add o' rep)
     }
   }"

text \<open>The loop over lists, with fuel: \<open>None\<close> when it has not ended after that many lists.\<close>

fun drain_loop ::
  "'w Home \<Rightarrow> ('w \<Rightarrow> bool) \<Rightarrow> nat \<Rightarrow> string list \<Rightarrow> DrainReport \<Rightarrow> ('w, DrainReport option) act" where
  "drain_loop ho ended 0 tried rep = ret None"
| "drain_loop ho ended (Suc n) tried rep = do {
     (batch, tried') \<leftarrow> looks (\<lambda>l. drainList l tried);
     stop \<leftarrow> reads (\<lambda>c. ended (cW c));
     if batch = [] then ret (Some rep)
     else if stop then ret (Some (rep\<lparr>drLeft := drLeft rep + length batch\<rparr>))
     else do {
       o' \<leftarrow> drainBatch ho ended batch;
       drain_loop ho ended n tried' (DrainReport_add rep o')
     }
   }"

definition Drain :: "'w Home \<Rightarrow> ('w \<Rightarrow> bool) \<Rightarrow> nat \<Rightarrow> ('w, DrainReport option) act" where
  "Drain ho ended fuel = do {
     changes (\<lambda>c. c\<lparr>cDraining := True\<rparr>);
     r \<leftarrow> drain_loop ho ended fuel [] no_drain;
     case r of
       None \<Rightarrow> ret None
     | Some rep \<Rightarrow> do { persist ho; notify; ret (Some rep) }
   }"

end
