(* ===== verification/Core_Pressure.thy ===== *)
theory Core_Pressure
  imports Core_Park
begin

text \<open>
  The pressure ladder of \<open>pkg/core/pressure.go\<close>. PSI readings and watermarks are reals. The verbs the
  controller is given are fields of \<open>'w Ladder\<close>; \<open>core_ladder\<close> is how \<open>pkg/fiberd/fiberd.go\<close> wires them
  to the core's own.
\<close>

definition DefaultPSIShed :: real where
  "DefaultPSIShed = 10"

definition DefaultPSIPark :: real where
  "DefaultPSIPark = 25"

definition yieldAfter :: nat where
  "yieldAfter = 3"

record 'w Ladder =
  ldSource :: "string \<Rightarrow> 'w \<Rightarrow> goerr + real"
  ldDrain :: "(string \<Rightarrow> int \<Rightarrow> ('w, int) act) option"
  ldPark :: "(string \<Rightarrow> ('w, goerr option) act) option"
  ldRelease :: "(string \<Rightarrow> ('w, goerr option) act) option"
  ldYield :: "(string \<Rightarrow> ('w, unit) act) option"

fun max_pressure :: "(string \<Rightarrow> 'w \<Rightarrow> goerr + real) list \<Rightarrow> string \<Rightarrow> 'w \<Rightarrow> real \<Rightarrow> goerr option \<Rightarrow> bool \<Rightarrow> goerr + real" where
  "max_pressure [] uid w best lastErr got =
     (if \<not> got then Inl (case lastErr of None \<Rightarrow> ENew ''pressure: no source'' | Some e \<Rightarrow> e) else Inr best)"
| "max_pressure (s # ss) uid w best lastErr got =
     (case s uid w of
        Inl e \<Rightarrow> max_pressure ss uid w best (Some e) got
      | Inr v \<Rightarrow> max_pressure ss uid w (if v > best then v else best) lastErr True)"

definition MaxPressure :: "(string \<Rightarrow> 'w \<Rightarrow> goerr + real) list \<Rightarrow> string \<Rightarrow> 'w \<Rightarrow> goerr + real" where
  "MaxPressure ss uid w = max_pressure ss uid w 0 None False"

definition Shedding :: "(string, bool) gomap \<Rightarrow> string \<Rightarrow> bool" where
  "Shedding m uid = (case map_of m uid of Some b \<Rightarrow> b | None \<Rightarrow> False)"

definition setShedding :: "string \<Rightarrow> bool \<Rightarrow> ('w, bool) act" where
  "setShedding uid v = do {
     old \<leftarrow> reads (\<lambda>c. Shedding (cShedding c) uid);
     if old = v then ret False
     else do { changes (\<lambda>c. c\<lparr>cShedding := AList.update uid v (cShedding c)\<rparr>); ret True }
   }"

definition bumpStuck :: "string \<Rightarrow> ('w, nat) act" where
  "bumpStuck uid = do {
     n \<leftarrow> reads (\<lambda>c. case map_of (cStuck c) uid of Some n \<Rightarrow> n | None \<Rightarrow> 0);
     changes (\<lambda>c. c\<lparr>cStuck := AList.update uid (n + 1) (cStuck c)\<rparr>);
     ret (n + 1)
   }"

definition resetStuck :: "string \<Rightarrow> ('w, unit) act" where
  "resetStuck uid = changes (\<lambda>c. c\<lparr>cStuck := AList.delete uid (cStuck c)\<rparr>)"

definition watermarks :: "Grant \<Rightarrow> real \<times> real" where
  "watermarks g =
     (let shed = (if pPSIShed (gPolicy g) \<le> 0 then DefaultPSIShed else pPSIShed (gPolicy g));
          prk = (if pPSIPark (gPolicy g) \<le> 0 then DefaultPSIPark else pPSIPark (gPolicy g))
      in (shed, if prk < shed then shed else prk))"

text \<open>
  The victim is a fiber with the largest working set. \<open>sort.Slice\<close> leaves the order of equal ones
  open; this takes the first by ID.
\<close>

fun victim :: "FiberInfo list \<Rightarrow> FiberInfo option" where
  "victim [] = None"
| "victim (f # fs) = (case victim fs of None \<Rightarrow> Some f | Some v \<Rightarrow> Some (if fiWUsed v > fiWUsed f then v else f))"

definition try_verb :: "(string \<Rightarrow> ('w, goerr option) act) option \<Rightarrow> string \<Rightarrow> ('w, bool) act" where
  "try_verb verb fid = (case verb of None \<Rightarrow> ret False | Some f \<Rightarrow> do { err \<leftarrow> f fid; ret (err = None) })"

definition reclaim_fiber :: "'w Ladder \<Rightarrow> FiberInfo \<Rightarrow> ('w, bool) act" where
  "reclaim_fiber ld v = do {
     parked \<leftarrow> (if fiSession v \<noteq> [] then try_verb (ldPark ld) (fiID v) else ret False);
     if parked then ret True else try_verb (ldRelease ld) (fiID v)
   }"

definition reclaim :: "'w Ladder \<Rightarrow> string \<Rightarrow> ('w, bool) act" where
  "reclaim ld uid = do {
     went \<leftarrow> (case ldDrain ld of None \<Rightarrow> ret 0 | Some drain \<Rightarrow> drain uid 1);
     if went > 0 then ret True
     else do {
       fibers \<leftarrow> looks (\<lambda>l. FibersOf l uid);
       case victim fibers of None \<Rightarrow> ret False | Some v \<Rightarrow> reclaim_fiber ld v
     }
   }"

definition evaluate :: "'w Ladder \<Rightarrow> Grant \<Rightarrow> real \<Rightarrow> ('w, unit) act" where
  "evaluate ld g psi =
     (let (shed, prk) = watermarks g in
      if psi \<ge> prk then do {
        ch \<leftarrow> setShedding (gUID g) True;
        got \<leftarrow> reclaim ld (gUID g);
        if got then resetStuck (gUID g)
        else do {
          n \<leftarrow> bumpStuck (gUID g);
          case ldYield ld of
            Some yield \<Rightarrow> if n \<ge> yieldAfter then do { resetStuck (gUID g); yield (gUID g) } else skip
          | None \<Rightarrow> skip
        }
      }
      else if psi \<ge> shed then do { resetStuck (gUID g); ch \<leftarrow> setShedding (gUID g) True; skip }
      else do { resetStuck (gUID g); ch \<leftarrow> setShedding (gUID g) False; skip })"

definition tick_one :: "'w Ladder \<Rightarrow> Status \<Rightarrow> ('w, unit) act" where
  "tick_one ld st = do {
     held \<leftarrow> looks (\<lambda>l. Ledger_Grant l (stGrantUID st));
     case held of
       None \<Rightarrow> skip
     | Some g \<Rightarrow> do {
         psi \<leftarrow> reads (\<lambda>c. ldSource ld (gUID g) (cW c));
         case psi of Inl e \<Rightarrow> skip | Inr v \<Rightarrow> evaluate ld g v
       }
   }"

definition Tick :: "'w Ladder \<Rightarrow> ('w, unit) act" where
  "Tick ld = do { sts \<leftarrow> looks Statuses; each (tick_one ld) sts }"

definition core_ladder :: "'w Home \<Rightarrow> (string \<Rightarrow> 'w \<Rightarrow> goerr + real) \<Rightarrow> 'w Ladder" where
  "core_ladder ho src =
     \<lparr>ldSource = src,
      ldDrain = Some (DrainPool ho),
      ldPark = Some (\<lambda>fid. do { (ref, code, err) \<leftarrow> Park ho fid False; ret err }),
      ldRelease = Some (\<lambda>fid. do { (code, err) \<leftarrow> Release ho fid False; ret err }),
      ldYield = Some (\<lambda>uid. Yield ho uid ''pressure'')\<rparr>"

end
