(* ===== verification/Core_Pool.thy ===== *)
theory Core_Pool
  imports Core_Clone
begin

text \<open>
  The refill loop of \<open>pkg/core/pool.go\<close>: \<open>refillPass\<close> and \<open>fill\<close>. A pass answers when the earliest held
  grant may be tried again and the grant it started a fill for, whose \<open>fill\<close> is a goroutine of its
  own.
\<close>

definition earliest :: "gotime \<Rightarrow> gotime \<Rightarrow> gotime" where
  "earliest nxt until = (if IsZero nxt \<or> until < nxt then until else nxt)"

record passing =
  rfNext :: gotime
  rfBusy :: bool
  rfFill :: "Grant option"

text \<open>One turn of the pass; \<open>rate_take\<close> is the limiter's \<open>Take\<close>.\<close>

definition refill_start :: "'w Home \<Rightarrow> Grant \<Rightarrow> poolState \<Rightarrow> passing \<Rightarrow> ('w, passing) act" where
  "refill_start ho g ps rf = do {
     rerr \<leftarrow> rate_take ho;
     case rerr of
       Some e \<Rightarrow> do {
         now \<leftarrow> clock ho;
         put_pool (gUID g) (delay now ps);
         ret (rf\<lparr>rfNext := earliest (rfNext rf) (psUntil (delay now ps))\<rparr>)
       }
     | None \<Rightarrow> do {
         changes (\<lambda>c. c\<lparr>cFilling := True, cLastFill := gUID g\<rparr>);
         ret (rf\<lparr>rfBusy := True, rfFill := Some g\<rparr>)
       }
   }"

definition refill_turn :: "'w Home \<Rightarrow> Grant \<Rightarrow> passing \<Rightarrow> ('w, passing) act" where
  "refill_turn ho g rf = do {
     syncPooled ho (gUID g);
     shed \<leftarrow> shedding ho (gUID g);
     if shed then ret rf
     else do {
       ps \<leftarrow> pool_state (gUID g);
       now \<leftarrow> clock ho;
       room \<leftarrow> looks (\<lambda>l. PoolRoom l (gUID g));
       if psNoPool ps \<or> rfBusy rf then ret rf
       else if now < psUntil ps then ret (rf\<lparr>rfNext := earliest (rfNext rf) (psUntil ps)\<rparr>)
       else if room \<le> 0 then ret rf
       else refill_start ho g ps rf
     }
   }"

fun refill_each :: "'w Home \<Rightarrow> Status list \<Rightarrow> passing \<Rightarrow> ('w, passing) act" where
  "refill_each ho [] rf = ret rf"
| "refill_each ho (st # sts) rf = do {
     held \<leftarrow> looks (\<lambda>l. Ledger_Grant l (stGrantUID st));
     case held of
       None \<Rightarrow> refill_each ho sts rf
     | Some g \<Rightarrow>
         if gFiberWarm g \<le> 0 then refill_each ho sts rf
         else do { rf' \<leftarrow> refill_turn ho g rf; refill_each ho sts rf' }
   }"

text \<open>The statuses from the first UID above the last one filled, then the rest.\<close>

definition turns :: "string \<Rightarrow> Status list \<Rightarrow> Status list" where
  "turns lst sts =
     (if \<exists>st \<in> set sts. stGrantUID st > lst
      then dropWhile (\<lambda>st. \<not> stGrantUID st > lst) sts @ takeWhile (\<lambda>st. \<not> stGrantUID st > lst) sts
      else sts)"

definition refillPass :: "'w Home \<Rightarrow> ('w, gotime \<times> Grant option) act" where
  "refillPass ho = do {
     drain \<leftarrow> Draining;
     case rtPooler (hoRuntime ho) of
       None \<Rightarrow> ret (0, None)
     | Some p \<Rightarrow>
         if drain then ret (0, None)
         else do {
           sts \<leftarrow> looks Statuses;
           (lst, busy) \<leftarrow> reads (\<lambda>c. (cLastFill c, cFilling c));
           rf \<leftarrow> refill_each ho (turns lst sts) \<lparr>rfNext = 0, rfBusy = busy, rfFill = None\<rparr>;
           ret (rfNext rf, rfFill rf)
         }
   }"

definition fill_settle :: "gotime \<Rightarrow> goerr option \<Rightarrow> poolState \<Rightarrow> poolState" where
  "fill_settle now err ps =
     (case err of
        None \<Rightarrow> ps\<lparr>psBackoff := 0\<rparr>
      | Some e \<Rightarrow> if errors_Is e ErrNoPool then ps\<lparr>psNoPool := True\<rparr> else delay now ps)"

definition fill :: "'w Home \<Rightarrow> 'w Pooler \<Rightarrow> Grant \<Rightarrow> ('w, unit) act" where
  "fill ho p g = do {
     (create, resume) \<leftarrow> deadlines ho (gUID g);
     err \<leftarrow> calls ho (plFill p g (fillDeadlineFactor * create));
     now \<leftarrow> clock ho;
     changes (\<lambda>c. c\<lparr>cFilling := False,
       cPools := (case map_of (cPools c) (gUID g) of
                    None \<Rightarrow> cPools c
                  | Some ps \<Rightarrow> AList.update (gUID g) (fill_settle now err ps) (cPools c))\<rparr>);
     syncPooled ho (gUID g);
     kickRefill
   }"

end
