(* ===== verification/Core_Run.thy ===== *)
theory Core_Run
  imports Core_Boot Core_Pressure Core_Pool
begin

text \<open>
  The background loops of \<open>pkg/core/core.go\<close>: \<open>Run\<close>, one event of its \<open>select\<close> at a time, and \<open>Watch\<close>; and
  \<open>serve\<close>, which is any one call that the rest of fiberd makes into the core.
\<close>

section \<open>Run\<close>

text \<open>
  What \<open>Run\<close> keeps between two events: its retry timer, by the time it fires, and whether a fill
  that it started has yet to run (the goroutine of \<open>fill\<close>).
\<close>

record running =
  rnRetry :: "gotime option"
  rnFills :: "Grant list"

datatype run_event =
    ExitEvent FiberExit
  | PooledExitEvent string
  | KickEvent
  | RetryEvent
  | TickEvent
  | SweepEvent

definition refill :: "'w Home \<Rightarrow> running \<Rightarrow> ('w, running) act" where
  "refill ho rn = do {
     (at', started) \<leftarrow> refillPass ho;
     ret \<lparr>rnRetry = (if IsZero at' then rnRetry rn else Some at'),
          rnFills = rnFills rn @ (case started of None \<Rightarrow> [] | Some g \<Rightarrow> [g])\<rparr>
   }"

definition Run_start :: "'w Home \<Rightarrow> ('w, running) act" where
  "Run_start ho =
     (case rtPooler (hoRuntime ho) of
        None \<Rightarrow> ret \<lparr>rnRetry = None, rnFills = []\<rparr>
      | Some p \<Rightarrow> refill ho \<lparr>rnRetry = None, rnFills = []\<rparr>)"

fun Run_step :: "'w Home \<Rightarrow> run_event \<Rightarrow> running \<Rightarrow> ('w, running) act" where
  "Run_step ho (ExitEvent ex) rn = do { OnExit ho ex; ret rn }"
| "Run_step ho (PooledExitEvent uid) rn = do { pooledDied ho uid; refill ho rn }"
| "Run_step ho KickEvent rn = do { changes (\<lambda>c. c\<lparr>cKick := False\<rparr>); refill ho rn }"
| "Run_step ho RetryEvent rn = refill ho (rn\<lparr>rnRetry := None\<rparr>)"
| "Run_step ho TickEvent rn = do {
     sample ho;
     case rtPooler (hoRuntime ho) of None \<Rightarrow> ret rn | Some p \<Rightarrow> refill ho rn
   }"
| "Run_step ho SweepEvent rn = do { n \<leftarrow> Sweep ho; ret rn }"

text \<open>Which events \<open>select\<close> may take: a kick waits in its channel, the timer is due.\<close>

fun Run_ready :: "'w Home \<Rightarrow> run_event \<Rightarrow> running \<Rightarrow> 'w Core \<Rightarrow> bool" where
  "Run_ready ho KickEvent rn c \<longleftrightarrow> rtPooler (hoRuntime ho) \<noteq> None \<and> cKick c"
| "Run_ready ho RetryEvent rn c \<longleftrightarrow> (case rnRetry rn of None \<Rightarrow> False | Some t \<Rightarrow> t \<le> hoNow ho (cW c))"
| "Run_ready ho (PooledExitEvent uid) rn c \<longleftrightarrow> rtPooler (hoRuntime ho) \<noteq> None"
| "Run_ready ho _ rn c \<longleftrightarrow> True"

section \<open>Watch\<close>

text \<open>
  One \<open>Watch\<close> goroutine: it emits when a wake-up waits in its channel (which it takes first) and on
  its ticker, and answers \<open>None\<close> when its context ends.
\<close>

datatype watch_event = WakeEvent | WatchTick | WatchDone

definition watch_start :: "nat \<Rightarrow> ('w, Status list) act" where
  "watch_start i = do { subscribe i; looks Statuses }"

fun watch_step :: "nat \<Rightarrow> watch_event \<Rightarrow> ('w, Status list option) act" where
  "watch_step i WakeEvent = do {
     changes (\<lambda>c. c\<lparr>cChanged := map (\<lambda>(j, waiting). (j, if j = i then False else waiting)) (cChanged c)\<rparr>);
     sts \<leftarrow> looks Statuses;
     ret (Some sts)
   }"
| "watch_step i WatchTick = do { sts \<leftarrow> looks Statuses; ret (Some sts) }"
| "watch_step i WatchDone = do { unsubscribe i; ret None }"

section \<open>Calls\<close>

datatype 'w core_call =
    CallClone ctx CloneRequest
  | CallAdmit ctx Grant
  | CallRemove string
  | CallRedeliver string
  | CallBumpEpoch string
  | CallPark string bool
  | CallRelease string bool
  | CallDiscard DiscardRequest
  | CallDrain "'w \<Rightarrow> bool" nat
  | CallReconcile ctx Snapshot
  | CallRun run_event running
  | CallFill "'w Pooler" Grant
  | CallTick "string \<Rightarrow> 'w \<Rightarrow> goerr + real"
  | CallWatch nat watch_event

fun serve :: "'w Home \<Rightarrow> 'w core_call \<Rightarrow> ('w, unit) act" where
  "serve ho (CallClone cx req) = do { r \<leftarrow> Clone ho cx req; skip }"
| "serve ho (CallAdmit cx g) = do { r \<leftarrow> Admit ho cx g; skip }"
| "serve ho (CallRemove uid) = Remove ho uid"
| "serve ho (CallRedeliver uid) = Redeliver ho uid"
| "serve ho (CallBumpEpoch reason) = do { r \<leftarrow> Core_BumpEpoch ho reason; skip }"
| "serve ho (CallPark fid sync) = do { r \<leftarrow> Park ho fid sync; skip }"
| "serve ho (CallRelease fid discard) = do { r \<leftarrow> Release ho fid discard; skip }"
| "serve ho (CallDiscard req) = do { r \<leftarrow> Discard ho req; skip }"
| "serve ho (CallDrain ended fuel) = do { r \<leftarrow> Drain ho ended fuel; skip }"
| "serve ho (CallReconcile cx snap) = do { r \<leftarrow> Reconcile ho cx snap; skip }"
| "serve ho (CallRun ev rn) = do { r \<leftarrow> Run_step ho ev rn; skip }"
| "serve ho (CallFill p g) = fill ho p g"
| "serve ho (CallTick src) = Tick (core_ladder ho src)"
| "serve ho (CallWatch i ev) = do { r \<leftarrow> watch_step i ev; skip }"

text \<open>The grants that calls deliver, which the home has verified.\<close>

fun delivers :: "'w core_call \<Rightarrow> Grant option" where
  "delivers (CallAdmit cx g) = Some g"
| "delivers _ = None"

end
