(* ===== verification/Core_Exec.thy ===== *)
theory Core_Exec
  imports Core_Run
begin

text \<open>
  Running the core's programs by rewriting: one rule for each way to read and change the state, and
  bundles of the definitions they are made of. The congruence keeps the simplifier out of what is
  to run next until the state it runs on is known.
\<close>

lemma run_bind: "run_state (State_Monad.bind m f) s = (case run_state m s of (a, s') \<Rightarrow> run_state (f a) s')"
  by (cases m) (simp split: prod.splits)

lemma run_return: "run_state (State_Monad.return x) s = (x, s)"
  by (simp add: State_Monad.return_def)

lemma run_reads: "run_state (reads f) c = (f c, c)"
  by (simp add: reads_def)

lemma run_changes: "run_state (changes f) c = ((), f c)"
  by (simp add: changes_def)

lemma run_ledger: "run_state (ledger f) c = (case f (cLedger c) of (l, r) \<Rightarrow> (r, c\<lparr>cLedger := l\<rparr>))"
  by (simp add: ledger_def)

lemma run_looks: "run_state (looks f) c = (f (cLedger c), c)"
  by (simp add: looks_def run_reads)

lemma run_calls:
  "run_state (calls ho m) c = (case run_state m (cW c) of (r, w) \<Rightarrow> (r, hoOthers ho (c\<lparr>cW := w\<rparr>)))"
  by (simp add: calls_def)

lemma run_world: "run_state (world m) c = (case run_state m (cW c) of (r, w) \<Rightarrow> (r, c\<lparr>cW := w\<rparr>))"
  by (simp add: world_def)

lemma run_clock: "run_state (clock ho) c = (hoNow ho (cW c), c)"
  by (simp add: clock_def run_reads)

lemma bind_waits: "m = m' \<Longrightarrow> State_Monad.bind m f = State_Monad.bind m' f"
  by simp

lemmas run_rules =
  Let_def run_bind run_return run_reads run_changes run_ledger run_looks run_calls run_world run_clock

lemmas ledger_exec =
  no_handle_def NewLedger_def session_key_def entry_def set_entry_def add_live_def seq_high_def
  Ledger_BumpEpoch_def AdmitGrant_def Ledger_Grant_def GrantBoundTo_def RevokeGrant_def gate_enter_def
  gate_free_def gate_lock_def acquireSession_def releaseSession_def holdSession_def hold_release_def
  reserve_def mint_def reserve_mint_def resolveHeld_def clone_session_def commit_refused_def
  res_commit_def res_unlock_def SetPooled_def PoolRoom_def Ledger_SessionState_def ForgetSession_def
  Ledger_Fiber_def ref_session_def FiberSession_def FibersOf_def RunningFibers_def SetFiberW_def
  drop_fiber_def OnPark_def onGone_def OnRelease_def OnFiberExit_def restoreParked_def
  RestoreParked_def slot_statuses_def add_fiber_w_def add_parked_def Statuses_def



lemmas spool_exec =
  no_fence_def audit_record_def EventGap_def EventCheckpoint_def DefaultCheckpointEvery_def
  empty_file_def recordHash_def checkpointPayload_def file_newline_def file_put_def file_write_def
  sealed_def Spool_write_def Spool_writeGap_def Spool_checkpoint_def Spool_Append_def Spool_Close_def
  scanSpool_def opened_def torn_gap_def OpenSpool_def

lemmas base_exec =
  scoped_def audit_def durability_def notify_def subscribe_def unsubscribe_def Draining_def
  missCode_def denied_def epoch_moved_def swept_def Ledger_Snapshot_def with_held_def snapshot_def
  SnapshotStore_write_def Persist_write_def Persist_def persist_def SnapshotStore_Load_def hold_def
  holdParked_def restoreHeld_def event_record_def note_audit_def retireDelta_def discardDelta_def
  run_release_def releaseDevices_def refillBackoffMin_def refillBackoffMax_def fillDeadlineFactor_def
  no_pool_state_def delay_def pool_state_def put_pool_def forgetPool_def kickRefill_def syncPooled_def
  handedOut_def pooledDied_def DrainPool_def Core_Revoke_def GrantDeadlines_def deadlines_def
  commitHeld_def routed_def OnExit_def sample_def

lemmas admit_exec =
  wrong_audience_def reverify_def ownGrant_def admit_floor_def stands_in_def admit_leave_def
  attachDevices_def admit_devices_def admit_refuse_def admit_detail_def admit_swap_def epoch_fence_def
  admit_commit_def device_fault_def admit_prepared_def admit_vouched_def admit_work_def Admit_def
  yield_release_def yield_one_def Yield_def remove_deny_def Remove_def Redeliver_def Sweep_def admit_enter.simps

lemmas boot_exec =
  bump_release_def bump_one_def bump_sweep_def Core_BumpEpoch_def no_report_def reconcile_checked_def reconcile_grant_def
  reconcile_session_def reconcile_orphan_def sweepDeltas_def discard_consumed_def Reconcile_def

lemmas clone_exec =
  caller_fault_def verify_failed_def no_tenant_def clone_checks_def clone_frontend_def clone_own_def
  clone_self_admit_def clone_held_def rate_take_def shedding_def forget_stale_def locate_claimed_def
  too_large_def locate_remote_def locate_def hold_gate_def release_gate_def clone_locate_def
  clone_spec_def runtime_refusal_def clone_run_def refused_def replay_def clone_roll_back_def
  clone_swept_def clone_committed_def clone_commit_def clone_resolved_def clone_resolve_def
  clone_admitted_def Clone_def

lemmas park_exec =
  park_refused_def park_publish_def park_settle_def nothing_parked_def park_held_def park_def Park_def
  Release_def token_fault_def answering_def authenticate_def named_def discard_step_def
  discardParked_def unknown_session_def discard_delete_def discardRemote_def discard_held_def
  Discard_def no_drain_def DrainReport_add_def DrainReport_String_def drainOne_def drainList_def
  Drain_def

lemmas pool_exec =
  earliest_def refill_start_def refill_turn_def turns_def refillPass_def fill_settle_def fill_def

lemmas pressure_exec =
  DefaultPSIShed_def DefaultPSIPark_def yieldAfter_def MaxPressure_def Shedding_def setShedding_def
  bumpStuck_def resetStuck_def watermarks_def try_verb_def reclaim_fiber_def reclaim_def evaluate_def
  tick_one_def Tick_def core_ladder_def

lemmas run_exec =
  refill_def Run_start_def watch_start_def

lemmas grant_exec =
  less_eq_Tier_def less_Tier_def Isolation_Untrusted_def TrimPrefix_def ParseIsolation_def
  ParseEndpointMode_def ParseTier_def Expired_def SessionDomain_def DeviceFits_def renewsLease_def
  changesFixedFields_def

lemmas revoked_exec =
  DefaultRevokeTTL_def lapsed_def OpenRevoked_def outlasts_def Revoked_save_def Revoked_Add_def
  Denied_def Revoked_Clear_def

lemmas backpressure_exec =
  NewSourceHealth_def MarkSync_def Healthy_def DefaultBaseRate_def
  DefaultRefW_def NewRateLimit_def ObserveWorkingSet_def rateLocked_def Seconds_def Take_def


lemmas error_exec =
  hex_char_def quote_char_def go_quote_def wrapped_def wrapped2_def

lemmas core_exec =
  run_rules ledger_exec spool_exec base_exec admit_exec boot_exec clone_exec park_exec pool_exec
  pressure_exec run_exec grant_exec revoked_exec backpressure_exec error_exec

end
