(* ===== verification/Core_Logic.thy ===== *)
theory Core_Logic
  imports Core_Run
begin

text \<open>
  Reasoning about the core's handlers. \<open>hoare P m Q\<close>: from a state with \<open>P\<close>, \<open>m\<close> ends with \<open>Q\<close> of its
  answer and the state; \<open>keeps I m\<close>: \<open>m\<close> preserves \<open>I\<close>. The rules of the collection \<open>keeps\<close> take a
  handler apart down to its calls.

  The locale \<open>unseen\<close> is the interface between the handlers and a property of the core that the
  helpers cannot see (it reads only the ledger, the admissions in flight and the draining flag) and
  other goroutines preserve. Every helper keeps every such property, so a handler's proof is about
  its ledger calls only.
\<close>

section \<open>Triples\<close>

definition hoare :: "('s \<Rightarrow> bool) \<Rightarrow> ('s, 'a) state \<Rightarrow> ('a \<Rightarrow> 's \<Rightarrow> bool) \<Rightarrow> bool" where
  "hoare P m Q \<longleftrightarrow> (\<forall>s. P s \<longrightarrow> (case run_state m s of (r, s') \<Rightarrow> Q r s'))"

abbreviation keeps :: "('s \<Rightarrow> bool) \<Rightarrow> ('s, 'a) state \<Rightarrow> bool" where
  "keeps I m \<equiv> hoare I m (\<lambda>_. I)"

named_theorems keeps \<open>rules for triples, by the form of the program\<close>

lemma hoareD: "hoare P m Q \<Longrightarrow> P s \<Longrightarrow> run_state m s = (r, s') \<Longrightarrow> Q r s'"
  by (auto simp: hoare_def)

lemma hoare_run: "hoare P m Q \<Longrightarrow> P s \<Longrightarrow> Q (fst (run_state m s)) (snd (run_state m s))"
  by (auto simp: hoare_def split: prod.splits)

lemma hoare_conseq:
  assumes "hoare P m Q" "\<And>s. P' s \<Longrightarrow> P s" "\<And>r s. Q r s \<Longrightarrow> Q' r s"
  shows "hoare P' m Q'"
  using assms unfolding hoare_def by (fastforce split: prod.splits)

lemma hoare_ret: "(\<And>s. P s \<Longrightarrow> Q x s) \<Longrightarrow> hoare P (State_Monad.return x) Q"
  by (simp add: hoare_def)

lemma hoare_bind:
  "hoare P m R \<Longrightarrow> (\<And>x. hoare (R x) (f x) Q) \<Longrightarrow> hoare P (State_Monad.bind m f) Q"
  by (fastforce simp: hoare_def split: prod.splits)

lemma keeps_bind [keeps]: "keeps I m \<Longrightarrow> (\<And>x. hoare I (f x) Q) \<Longrightarrow> hoare I (State_Monad.bind m f) Q"
  by (rule hoare_bind)

lemma hoare_if [keeps]:
  "(b \<Longrightarrow> hoare P m Q) \<Longrightarrow> (\<not> b \<Longrightarrow> hoare P n Q) \<Longrightarrow> hoare P (if b then m else n) Q"
  by simp

lemma hoare_option [keeps]:
  "(x = None \<Longrightarrow> hoare P m Q) \<Longrightarrow> (\<And>y. x = Some y \<Longrightarrow> hoare P (f y) Q) \<Longrightarrow>
   hoare P (case x of None \<Rightarrow> m | Some y \<Rightarrow> f y) Q"
  by (cases x) simp_all

lemma hoare_sum [keeps]:
  "(\<And>y. x = Inl y \<Longrightarrow> hoare P (f y) Q) \<Longrightarrow> (\<And>y. x = Inr y \<Longrightarrow> hoare P (g y) Q) \<Longrightarrow>
   hoare P (case x of Inl y \<Rightarrow> f y | Inr y \<Rightarrow> g y) Q"
  by (cases x) simp_all

lemma hoare_prod [keeps]:
  "(\<And>a b. x = (a, b) \<Longrightarrow> hoare P (f a b) Q) \<Longrightarrow> hoare P (case x of (a, b) \<Rightarrow> f a b) Q"
  by (cases x) simp

lemma hoare_nat [keeps]:
  "(x = 0 \<Longrightarrow> hoare P m Q) \<Longrightarrow> (\<And>k. x = Suc k \<Longrightarrow> hoare P (f k) Q) \<Longrightarrow>
   hoare P (case x of 0 \<Rightarrow> m | Suc k \<Rightarrow> f k) Q"
  by (cases x) simp_all

lemma hoare_let [keeps]: "hoare P (f x) Q \<Longrightarrow> hoare P (let y = x in f y) Q"
  by simp

lemma keeps_ret [keeps]: "keeps I (State_Monad.return x)"
  by (simp add: hoare_def)

lemma keeps_reads [keeps]: "keeps I (reads f)"
  by (simp add: hoare_def reads_def)

lemma keeps_looks [keeps]: "keeps I (looks f)"
  by (simp add: hoare_def reads_def looks_def)

lemma keeps_clock [keeps]: "keeps I (clock ho)"
  by (simp add: clock_def keeps_reads)

lemma keeps_Draining [keeps]: "keeps I Draining"
  by (simp add: Draining_def keeps_reads)

lemma keeps_durability [keeps]: "keeps I (durability uid)"
  by (simp add: durability_def keeps_looks)

lemma keeps_epoch_fence [keeps]: "keeps I (epoch_fence uid)"
  by (simp add: epoch_fence_def keeps_looks)

lemma keeps_snapshot [keeps]: "keeps I (snapshot ho)"
  by (simp add: snapshot_def keeps_reads)

lemma keeps_each [keeps]: "(\<And>x. keeps I (f x)) \<Longrightarrow> keeps I (each f xs)"
  by (induction xs) (simp_all add: keeps_ret keeps_bind)

lemma hoare_reads: "(\<And>s. P s \<Longrightarrow> Q (f s) s) \<Longrightarrow> hoare P (reads f) Q"
  by (simp add: hoare_def reads_def)

lemma hoare_looks: "(\<And>s. P s \<Longrightarrow> Q (f (cLedger s)) s) \<Longrightarrow> hoare P (looks f) Q"
  by (simp add: hoare_def reads_def looks_def)

lemma hoare_changes: "(\<And>s. P s \<Longrightarrow> Q () (f s)) \<Longrightarrow> hoare P (changes f) Q"
  by (simp add: hoare_def changes_def)

lemma hoare_ledger:
  "(\<And>s l r. P s \<Longrightarrow> f (cLedger s) = (l, r) \<Longrightarrow> Q r (s\<lparr>cLedger := l\<rparr>)) \<Longrightarrow> hoare P (ledger f) Q"
  by (auto simp: hoare_def ledger_def split: prod.splits)

lemma hoare_calls:
  "(\<And>s r w. P s \<Longrightarrow> run_state m (cW s) = (r, w) \<Longrightarrow> Q r (hoOthers ho (s\<lparr>cW := w\<rparr>))) \<Longrightarrow> hoare P (calls ho m) Q"
  by (auto simp: hoare_def calls_def split: prod.splits)

section \<open>What the helpers cannot see\<close>

locale unseen =
  fixes ho :: "'w Home" and I :: "'w Core \<Rightarrow> bool"
  assumes local:
    "\<lbrakk>cLedger c = cLedger c'; cAdmitting c = cAdmitting c'; cDraining c = cDraining c'; I c\<rbrakk> \<Longrightarrow> I c'"
    and others: "I c \<Longrightarrow> I (hoOthers ho c)"
begin

lemma changes_keeps:
  assumes "\<And>c. cLedger (f c) = cLedger c \<and> cAdmitting (f c) = cAdmitting c \<and> cDraining (f c) = cDraining c"
  shows "keeps I (changes f)"
proof (rule hoare_changes)
  show "I (f c)" if "I c" for c using assms [of c] by (intro local [OF _ _ _ that]) simp_all
qed

lemma in_world: "I c \<Longrightarrow> I (c\<lparr>cW := w\<rparr>)"
  by (erule local [rotated 3]) simp_all

lemma world_keeps: "keeps I (world m)"
  unfolding hoare_def world_def by (simp add: Let_def in_world split: prod.splits)

lemma others_keeps: "keeps I (changes (hoOthers ho))"
  by (rule hoare_changes) (rule others)

lemma calls_keeps: "keeps I (calls ho m)"
  by (rule hoare_calls) (rule others [OF in_world])

lemmas base = calls_keeps world_keeps others_keeps changes_keeps

lemma audit_keeps: "keeps I (audit ho d rec)"
  unfolding audit_def scoped_def by (intro keeps base)

lemma note_audit_keeps: "keeps I (note_audit ho rec)"
  unfolding note_audit_def by (intro keeps audit_keeps)

lemma notify_keeps: "keeps I notify"
  unfolding notify_def by (intro base) simp

lemma persist_keeps: "keeps I (persist ho)"
  unfolding persist_def Persist_def Persist_write_def by (intro keeps base) simp_all

lemma missCode_keeps: "keeps I (missCode ho e)"
  unfolding missCode_def by (intro keeps base) simp_all

lemma denied_keeps: "keeps I (denied ho uid lease)"
  unfolding denied_def by (intro keeps base) simp_all

lemma swept_keeps: "keeps I (swept ho g f)"
  unfolding swept_def by (intro keeps missCode_keeps denied_keeps)

lemma retireDelta_keeps: "keeps I (retireDelta ho f s r)"
  unfolding retireDelta_def by (intro keeps base note_audit_keeps)

lemma discardDelta_keeps: "keeps I (discardDelta ho f s r)"
  unfolding discardDelta_def by (intro keeps base retireDelta_keeps note_audit_keeps)

lemma run_release_keeps: "keeps I (run_release ho r)"
  unfolding run_release_def by (intro keeps base)

lemma releaseDevices_keeps: "keeps I (releaseDevices ho uid)"
  unfolding releaseDevices_def by (intro keeps base run_release_keeps) simp

lemma forgetPool_keeps: "keeps I (forgetPool uid)"
  unfolding forgetPool_def by (intro base) simp

lemma kickRefill_keeps: "keeps I kickRefill"
  unfolding kickRefill_def by (intro base) simp

lemma routed_keeps: "keeps I (routed ho r)"
  unfolding routed_def by (intro keeps)

lemma deadlines_keeps: "keeps I (deadlines ho uid)"
  unfolding deadlines_def by (intro keeps)

lemma attachDevices_keeps: "keeps I (attachDevices ho uid fc)"
  unfolding attachDevices_def by (intro keeps base)

lemma admit_devices_keeps: "keeps I (admit_devices ho g)"
  unfolding admit_devices_def by (intro keeps base attachDevices_keeps)

lemma admit_refuse_keeps: "keeps I (admit_refuse ho uid fresh)"
  unfolding admit_refuse_def by (intro keeps run_release_keeps attachDevices_keeps)

lemma admit_swap_keeps: "keeps I (admit_swap ho uid fresh)"
  unfolding admit_swap_def by (intro keeps base run_release_keeps) simp

lemma admit_floor_keeps: "keeps I (admit_floor ho g)"
  unfolding admit_floor_def by (intro keeps missCode_keeps)

lemma reverify_keeps: "keeps I (reverify ho uid t)"
  unfolding reverify_def by (intro keeps base)

lemma ownGrant_keeps: "keeps I (ownGrant ho own g)"
  unfolding ownGrant_def by (intro keeps reverify_keeps)

lemma rate_take_keeps: "keeps I (rate_take ho)"
  unfolding rate_take_def by (intro keeps base) simp

lemma shedding_keeps: "keeps I (shedding ho uid)"
  unfolding shedding_def by (intro keeps)

lemma pool_state_keeps: "keeps I (pool_state uid)"
  unfolding pool_state_def by (intro keeps base) simp

lemma put_pool_keeps: "keeps I (put_pool uid s)"
  unfolding put_pool_def by (intro base) simp

lemmas helpers =
  audit_keeps note_audit_keeps notify_keeps persist_keeps missCode_keeps denied_keeps swept_keeps retireDelta_keeps
  discardDelta_keeps run_release_keeps releaseDevices_keeps forgetPool_keeps kickRefill_keeps routed_keeps
  deadlines_keeps attachDevices_keeps admit_devices_keeps admit_refuse_keeps admit_swap_keeps admit_floor_keeps
  reverify_keeps ownGrant_keeps rate_take_keeps shedding_keeps pool_state_keeps put_pool_keeps

end

end
