(* ===== verification/Ledger_Conc.thy ===== *)
theory Ledger_Conc
  imports Ledger
begin

text \<open>
  The ledger under concurrency. Goroutines interleave at the ledger's lock, so a run is any
  sequence of atomic ledger calls; a clone is several of them with the runtime's work in between:
  it waits for the session's gate, locks it, resolves, and later commits and unlocks, or only
  unlocks. \<open>sOps\<close> is what each goroutine in flight holds (\<open>Waiting\<close> for a gate, \<open>Holding\<close> one, or
  \<open>Resolved\<close> with what \<open>resolveHeld\<close> returned and the session's name), and \<open>sMinted\<close> records every
  fence minted so far, oldest first.

  A runtime names the fiber it births by the fence it is given, as \<open>Clone\<close> relies on when it answers an
  attach; that the name is then unused is proved (\<open>fresh_id\<close>), while fewer than 2^64 fences are minted.
  The steps leave everything else open: grants come and go, epochs move, fibers park, exit or are
  released, and parked sessions appear at any moment. The flag \<open>strict\<close> adds one discipline, that a
  UID is admitted anew only once no fiber of its earlier admission is left; the lemmas that need it
  say so, and \<open>overcommit_race\<close> is a run without it.
\<close>

datatype gop = Waiting string | Holding string | Resolved resolution string

record sys =
  sL :: Ledger
  sOps :: "(nat, gop) gomap"
  sMinted :: "Fence list"

lemma Fence_String_not_empty [simp]: "Fence_String f \<noteq> []"
  by (simp add: Fence_String_def)

definition sys_init :: "u64 \<Rightarrow> sys" where
  "sys_init epoch = \<lparr>sL = NewLedger epoch, sOps = [], sMinted = []\<rparr>"

definition fibers_under :: "Ledger \<Rightarrow> string \<Rightarrow> nat" where
  "fibers_under l uid = map_count (\<lambda>fid ref. rGrantUID ref = uid) (lFibers l)"

text \<open>\<open>resolved s i l r name\<close>: goroutine \<open>i\<close> has the resolution \<open>r\<close>, and a fence minted for it is recorded.\<close>

definition resolved :: "sys \<Rightarrow> nat \<Rightarrow> Ledger \<Rightarrow> resolution \<Rightarrow> string \<Rightarrow> sys" where
  "resolved s i l r name =
     s\<lparr>sL := l, sOps := AList.update i (Resolved r name) (sOps s),
       sMinted := sMinted s @ (if rzReserved r then [rzFence r] else [])\<rparr>"

definition may_admit :: "bool \<Rightarrow> Ledger \<Rightarrow> Grant \<Rightarrow> bool" where
  "may_admit strict l g =
     (case Ledger_Grant l (gUID g) of
        Some held \<Rightarrow> \<not> changesFixedFields held g
      | None \<Rightarrow> strict \<longrightarrow> fibers_under l (gUID g) = 0)"

inductive step :: "bool \<Rightarrow> sys \<Rightarrow> sys \<Rightarrow> bool" for strict where
  admit: "may_admit strict (sL s) g \<Longrightarrow> step strict s (s\<lparr>sL := AdmitGrant (sL s) g\<rparr>)"
| revoke: "step strict s (s\<lparr>sL := RevokeGrant (sL s) uid\<rparr>)"
| bump: "step strict s (s\<lparr>sL := Ledger_BumpEpoch (sL s) epoch\<rparr>)"
| park: "step strict s (s\<lparr>sL := fst (OnPark (sL s) fid deltaRef)\<rparr>)"
| gone: "step strict s (s\<lparr>sL := fst (onGone (sL s) fid)\<rparr>)"
| forget: "step strict s (s\<lparr>sL := ForgetSession (sL s) uid session\<rparr>)"
| restore: "restoreParked (sL s) ss = Inr l \<Longrightarrow> step strict s (s\<lparr>sL := l\<rparr>)"
| pooled: "step strict s (s\<lparr>sL := fst (SetPooled (sL s) uid n)\<rparr>)"
| measured: "step strict s (s\<lparr>sL := SetFiberW (sL s) fid b\<rparr>)"
| wait: "map_of (sOps s) i = None \<Longrightarrow>
    step strict s (s\<lparr>sL := gate_enter (sL s) key, sOps := AList.update i (Waiting key) (sOps s)\<rparr>)"
| lock: "map_of (sOps s) i = Some (Waiting key) \<Longrightarrow> gate_free (sL s) key \<Longrightarrow>
    step strict s (s\<lparr>sL := gate_lock (sL s) key, sOps := AList.update i (Holding key) (sOps s)\<rparr>)"
| drop: "map_of (sOps s) i = Some (Holding key) \<Longrightarrow>
    step strict s (s\<lparr>sL := releaseSession (sL s) key, sOps := AList.delete i (sOps s)\<rparr>)"
| resolve_named: "map_of (sOps s) i = Some (Holding (session_key uid name)) \<Longrightarrow> name \<noteq> [] \<Longrightarrow>
    resolveHeld (sL s) now (Some (session_key uid name)) uid name tier = (l, Inr r) \<Longrightarrow>
    step strict s (resolved s i l r name)"
| resolve_anonymous: "map_of (sOps s) i = None \<Longrightarrow>
    resolveHeld (sL s) now None uid [] tier = (l, Inr r) \<Longrightarrow>
    step strict s (resolved s i l r [])"
| commit: "map_of (sOps s) i = Some (Resolved r name) \<Longrightarrow> rzReserved r \<Longrightarrow> \<not> rzCommitted r \<Longrightarrow>
    hID h = Fence_String (rzFence r) \<Longrightarrow>
    res_commit (sL s) r refuse (clone_session r name h) = (l, r', ok) \<Longrightarrow>
    step strict s (s\<lparr>sL := l, sOps := AList.update i (Resolved r' name) (sOps s)\<rparr>)"
| unlock: "map_of (sOps s) i = Some (Resolved r name) \<Longrightarrow>
    step strict s (s\<lparr>sL := res_unlock (sL s) r, sOps := AList.delete i (sOps s)\<rparr>)"

inductive reach :: "bool \<Rightarrow> sys \<Rightarrow> bool" for strict where
  reach_init: "reach strict (sys_init epoch)"
| reach_step: "reach strict s \<Longrightarrow> step strict s s' \<Longrightarrow> reach strict s'"

inductive steps :: "bool \<Rightarrow> sys \<Rightarrow> sys \<Rightarrow> bool" for strict where
  steps_refl: "steps strict s s"
| steps_step: "steps strict s s' \<Longrightarrow> step strict s' s'' \<Longrightarrow> steps strict s s''"

lemma reach_steps: "reach strict s \<Longrightarrow> steps strict s s' \<Longrightarrow> reach strict s'"
  by (rotate_tac 1, induction rule: steps.induct) (auto intro: reach_step)

section \<open>The session gates\<close>

definition holds :: "string \<Rightarrow> gop \<Rightarrow> bool" where
  "holds k p = (case p of Waiting j \<Rightarrow> False | Holding j \<Rightarrow> j = k | Resolved r name \<Rightarrow> rzHold r = Some k)"

abbreviation waiters :: "(nat, gop) gomap \<Rightarrow> string \<Rightarrow> nat" where
  "waiters ops k \<equiv> map_count (\<lambda>i p. p = Waiting k) ops"

abbreviation holders :: "(nat, gop) gomap \<Rightarrow> string \<Rightarrow> nat" where
  "holders ops k \<equiv> map_count (\<lambda>i p. holds k p) ops"

text \<open>A gate is in the map exactly while someone waits for it or holds it, counts them, and is locked
  exactly while it has its one holder.\<close>

definition gate_ok :: "sessionGate option \<Rightarrow> nat \<Rightarrow> nat \<Rightarrow> bool" where
  "gate_ok gate w h =
     (case gate of
        None \<Rightarrow> w = 0 \<and> h = 0
      | Some gt \<Rightarrow> gtRefs gt = w + h \<and> 0 < gtRefs gt \<and> h = (if gtLocked gt then 1 else 0))"

definition gates_ok :: "Ledger \<Rightarrow> (nat, gop) gomap \<Rightarrow> bool" where
  "gates_ok l ops \<longleftrightarrow> (\<forall>k. gate_ok (map_of (lPerSession l) k) (waiters ops k) (holders ops k))"

lemma gate_lookups:
  "map_of (lPerSession (gate_enter l key)) k =
     (if k = key then Some (case map_of (lPerSession l) key of
        Some gt \<Rightarrow> gt\<lparr>gtRefs := Suc (gtRefs gt)\<rparr> | None \<Rightarrow> \<lparr>gtRefs = 1, gtLocked = False\<rparr>)
      else map_of (lPerSession l) k)"
  "map_of (lPerSession (gate_lock l key)) k =
     (if k = key then map_option (\<lambda>gt. gt\<lparr>gtLocked := True\<rparr>) (map_of (lPerSession l) key)
      else map_of (lPerSession l) k)"
  "map_of (lPerSession (releaseSession l key)) k =
     (if k = key then (case map_of (lPerSession l) key of None \<Rightarrow> None | Some gt \<Rightarrow>
        if gtRefs gt \<le> 1 then None else Some \<lparr>gtRefs = gtRefs gt - 1, gtLocked = False\<rparr>)
      else map_of (lPerSession l) k)"
  by (auto simp: gate_enter_def gate_lock_def releaseSession_def Let_def gomap split: option.splits)

lemma ops_put_counts:
  assumes "wf_map ops" "map_of ops i = Some p"
  shows "waiters (AList.update i q ops) k + (if p = Waiting k then 1 else 0) =
      waiters ops k + (if q = Waiting k then 1 else 0)"
    "holders (AList.update i q ops) k + (if holds k p then 1 else 0) =
      holders ops k + (if holds k q then 1 else 0)"
  using map_count_put_known [OF assms] by blast+

lemma ops_del_counts:
  assumes "wf_map ops" "map_of ops i = Some p"
  shows "waiters (AList.delete i ops) k + (if p = Waiting k then 1 else 0) = waiters ops k"
    "holders (AList.delete i ops) k + (if holds k p then 1 else 0) = holders ops k"
  using map_count_del [OF assms] by blast+

lemma gates_ok_same:
  assumes "gates_ok l ops" "lPerSession m = lPerSession l"
    "\<And>k. waiters ops' k = waiters ops k" "\<And>k. holders ops' k = holders ops k"
  shows "gates_ok m ops'"
  using assms by (simp add: gates_ok_def)

lemma gates_ok_wait:
  assumes "gates_ok l ops" "map_of ops i = None"
  shows "gates_ok (gate_enter l key) (AList.update i (Waiting key) ops)"
  unfolding gates_ok_def
proof
  fix k
  have "gate_ok (map_of (lPerSession l) k) (waiters ops k) (holders ops k)"
    using assms(1) by (simp add: gates_ok_def)
  then show "gate_ok (map_of (lPerSession (gate_enter l key)) k)
      (waiters (AList.update i (Waiting key) ops) k) (holders (AList.update i (Waiting key) ops) k)"
    by (auto simp: map_count_put_fresh [OF assms(2)] gate_lookups gate_ok_def holds_def
        split: option.splits if_splits)
qed

lemma gates_ok_lock:
  assumes "gates_ok l ops" "wf_map ops" "map_of ops i = Some (Waiting key)" "gate_free l key"
  shows "gates_ok (gate_lock l key) (AList.update i (Holding key) ops)"
  unfolding gates_ok_def
proof
  fix k
  have "gate_ok (map_of (lPerSession l) k) (waiters ops k) (holders ops k)"
    using assms(1) by (simp add: gates_ok_def)
  moreover have "0 < waiters ops key" by (rule map_count_pos [OF assms(3)]) simp
  ultimately show "gate_ok (map_of (lPerSession (gate_lock l key)) k)
      (waiters (AList.update i (Holding key) ops) k) (holders (AList.update i (Holding key) ops) k)"
    using ops_put_counts [OF assms(2,3), where q = "Holding key" and k = k] assms(4)
    by (auto simp: gate_lookups gate_ok_def holds_def gate_free_def split: option.splits if_splits)
qed

lemma gates_ok_release:
  assumes "gates_ok l ops" "wf_map ops" "map_of ops i = Some p" "holds key p" "p \<noteq> Waiting key"
    and one: "\<And>k. holds k p \<Longrightarrow> k = key" "\<And>k. p \<noteq> Waiting k"
  shows "gates_ok (releaseSession l key) (AList.delete i ops)"
  unfolding gates_ok_def
proof
  fix k
  have g: "gate_ok (map_of (lPerSession l) k) (waiters ops k) (holders ops k)"
    using assms(1) by (simp add: gates_ok_def)
  show "gate_ok (map_of (lPerSession (releaseSession l key)) k)
      (waiters (AList.delete i ops) k) (holders (AList.delete i ops) k)"
  proof (cases "k = key")
    case True
    with g ops_del_counts [OF assms(2,3), of k] assms(4) one(2) [of k] show ?thesis
      by (auto simp: gate_lookups gate_ok_def split: option.splits if_splits)
  next
    case False
    with one(1) [of k] have "\<not> holds k p" by blast
    with g ops_del_counts [OF assms(2,3), of k] False one(2) [of k] show ?thesis
      by (simp add: gate_lookups)
  qed
qed

lemma one_holder:
  assumes "gates_ok l ops" "wf_map ops" "map_of ops i = Some p" "map_of ops j = Some q"
    and "holds k p" "holds k q"
  shows "i = j"
proof (rule ccontr)
  assume "i \<noteq> j"
  then have "2 \<le> holders ops k"
    using map_count_two [OF assms(2-4), of "\<lambda>i p. holds k p"] assms(5,6) by simp
  moreover have "holders ops k \<le> 1"
    using assms(1) by (auto simp: gates_ok_def gate_ok_def split: option.splits dest: spec [of _ k])
  ultimately show False by simp
qed

section \<open>Resolutions in flight\<close>

definition not_running :: "Ledger \<Rightarrow> string \<Rightarrow> bool" where
  "not_running l k \<longleftrightarrow> (\<forall>t. map_of (lSessions l) k = Some t \<longrightarrow> sState t = StateParked)"

definition res_ok :: "Ledger \<Rightarrow> resolution \<Rightarrow> string \<Rightarrow> bool" where
  "res_ok l r name \<longleftrightarrow>
     rzKey r = session_key (rzGrantUID r) name \<and>
     rzHold r = (if name = [] then None else Some (rzKey r)) \<and>
     rzEntry r < length (lEntries l) \<and>
     (rzReserved r \<longrightarrow> fGrantUID (rzFence r) = rzGrantUID r \<and> fEpoch (rzFence r) \<le> lEpoch l) \<and>
     (rzReserved r \<and> \<not> rzCommitted r \<and> name \<noteq> [] \<longrightarrow> not_running l (rzKey r))"

text \<open>What every ledger call but a commit keeps: addresses stay valid, the epoch does not go back and
  no session starts to run.\<close>

definition quiet :: "Ledger \<Rightarrow> Ledger \<Rightarrow> bool" where
  "quiet l m \<longleftrightarrow> length (lEntries l) \<le> length (lEntries m) \<and> lEpoch l \<le> lEpoch m \<and>
     (\<forall>k. not_running l k \<longrightarrow> not_running m k)"

lemma res_ok_quiet: "quiet l m \<Longrightarrow> res_ok l r name \<Longrightarrow> res_ok m r name"
  by (auto simp: quiet_def res_ok_def)

lemma quiet_same_sessions:
  "length (lEntries l) \<le> length (lEntries m) \<Longrightarrow> lEpoch l \<le> lEpoch m \<Longrightarrow> lSessions m = lSessions l \<Longrightarrow> quiet l m"
  by (simp add: quiet_def not_running_def)

lemma RevokeGrant_frame [simp]:
  "lEpoch (RevokeGrant l uid) = lEpoch l" "lSessions (RevokeGrant l uid) = lSessions l"
  "lFibers (RevokeGrant l uid) = lFibers l" "lEntries (RevokeGrant l uid) = lEntries l"
  "lPerSession (RevokeGrant l uid) = lPerSession l"
  "lGrants (RevokeGrant l uid) = AList.delete uid (lGrants l)" "entry (RevokeGrant l uid) = entry l"
  by (auto simp: RevokeGrant_def Let_def entry_def fun_eq_iff split: option.splits)

lemma AdmitGrant_frame [simp]:
  "lEpoch (AdmitGrant l g) = lEpoch l" "lSessions (AdmitGrant l g) = lSessions l"
  "lFibers (AdmitGrant l g) = lFibers l" "lPerSession (AdmitGrant l g) = lPerSession l"
  "lSeqHigh (AdmitGrant l g) = lSeqHigh l"
  by (auto simp: AdmitGrant_def split: option.splits)

lemma SetPooled_frame [simp]:
  "lEpoch (fst (SetPooled l uid n)) = lEpoch l" "lSessions (fst (SetPooled l uid n)) = lSessions l"
  "lFibers (fst (SetPooled l uid n)) = lFibers l" "lPerSession (fst (SetPooled l uid n)) = lPerSession l"
  "lSeqHigh (fst (SetPooled l uid n)) = lSeqHigh l" "lGrants (fst (SetPooled l uid n)) = lGrants l"
  "length (lEntries (fst (SetPooled l uid n))) = length (lEntries l)"
  by (auto simp: SetPooled_def split: option.splits)

lemma BumpEpoch_frame [simp]:
  "lSessions (Ledger_BumpEpoch l e) = lSessions l" "lFibers (Ledger_BumpEpoch l e) = lFibers l"
  "lPerSession (Ledger_BumpEpoch l e) = lPerSession l" "lSeqHigh (Ledger_BumpEpoch l e) = lSeqHigh l"
  "lGrants (Ledger_BumpEpoch l e) = lGrants l" "lEntries (Ledger_BumpEpoch l e) = lEntries l"
  "entry (Ledger_BumpEpoch l e) = entry l" "lEpoch (Ledger_BumpEpoch l e) = max (lEpoch l) e"
  by (auto simp: Ledger_BumpEpoch_def entry_def fun_eq_iff max_def)

lemma ForgetSession_frame [simp]:
  "lEpoch (ForgetSession l uid n) = lEpoch l" "lFibers (ForgetSession l uid n) = lFibers l"
  "lPerSession (ForgetSession l uid n) = lPerSession l" "lSeqHigh (ForgetSession l uid n) = lSeqHigh l"
  "lGrants (ForgetSession l uid n) = lGrants l" "lEntries (ForgetSession l uid n) = lEntries l"
  "entry (ForgetSession l uid n) = entry l"
  by (auto simp: ForgetSession_def entry_def fun_eq_iff split: option.splits)

lemma OnPark_frame [simp]:
  "lEpoch (fst (OnPark l fid d)) = lEpoch l" "lGrants (fst (OnPark l fid d)) = lGrants l"
  "lPerSession (fst (OnPark l fid d)) = lPerSession l" "lSeqHigh (fst (OnPark l fid d)) = lSeqHigh l"
  "length (lEntries (fst (OnPark l fid d))) = length (lEntries l)"
  "map_of (lFibers (fst (OnPark l fid d))) = (map_of (lFibers l))(fid := None)"
  by (auto simp: OnPark_def Let_def gomap fun_eq_iff split: option.splits)

lemma onGone_frame [simp]:
  "lEpoch (fst (onGone l fid)) = lEpoch l" "lGrants (fst (onGone l fid)) = lGrants l"
  "lPerSession (fst (onGone l fid)) = lPerSession l" "lSeqHigh (fst (onGone l fid)) = lSeqHigh l"
  "length (lEntries (fst (onGone l fid))) = length (lEntries l)"
  "map_of (lFibers (fst (onGone l fid))) = (map_of (lFibers l))(fid := None)"
  by (auto simp: onGone_def Let_def gomap fun_eq_iff split: option.splits prod.splits)

lemma quiet_AdmitGrant: "quiet l (AdmitGrant l g)"
  by (rule quiet_same_sessions) (auto simp: AdmitGrant_def split: option.splits)

lemma quiet_gates: "same_but_gates l m \<Longrightarrow> quiet l m"
  by (rule quiet_same_sessions) (simp_all add: same_but_gates_frame)

lemma quiet_OnPark: "quiet l (fst (OnPark l fid d))"
  by (auto simp: quiet_def not_running_def OnPark_def Let_def gomap split: option.splits if_splits)

lemma quiet_onGone: "quiet l (fst (onGone l fid))"
  by (auto simp: quiet_def not_running_def onGone_def Let_def gomap split: option.splits if_splits prod.splits)

lemma quiet_ForgetSession: "quiet l (ForgetSession l uid n)"
  by (auto simp: quiet_def not_running_def ForgetSession_def gomap split: option.splits if_splits)

lemma quiet_restoreParked: "restoreParked l ss = Inr m \<Longrightarrow> quiet l m"
  by (auto simp: quiet_def not_running_def gomap dest!: restoreParked_shape split: if_splits)

lemma quiet_minted: "minted l p uid l' r \<Longrightarrow> quiet l l'"
  by (rule quiet_same_sessions) (simp_all add: minted_frame)

lemma quiet_res_unlock: "quiet l (res_unlock l r)"
proof -
  have "same_but_gates (if rzReserved r \<and> \<not> rzCommitted r then add_live l (rzEntry r) (- 1) else l) (res_unlock l r)"
    by (simp add: res_unlock_def)
  then show ?thesis by (intro quiet_same_sessions) (auto simp: same_but_gates_frame)
qed

lemmas quiet_ops = quiet_AdmitGrant quiet_OnPark quiet_onGone quiet_ForgetSession quiet_res_unlock
  quiet_gates [OF gates_only(1)] quiet_gates [OF gates_only(2)]
  quiet_gates [OF gates_only(3)]

section \<open>The invariant of every run\<close>

definition sys_ok :: "sys \<Rightarrow> bool" where
  "sys_ok s \<longleftrightarrow> wf_map (sOps s) \<and> ledger_ok (sL s) \<and> gates_ok (sL s) (sOps s) \<and>
     (\<forall>i r name. map_of (sOps s) i = Some (Resolved r name) \<longrightarrow> res_ok (sL s) r name)"

lemma sys_okD:
  assumes "sys_ok s"
  shows "wf_map (sOps s)" "ledger_ok (sL s)" "gates_ok (sL s) (sOps s)"
    "map_of (sOps s) i = Some (Resolved r name) \<Longrightarrow> res_ok (sL s) r name"
  using assms by (auto simp: sys_ok_def)

lemma sys_ok_ledger:
  assumes "sys_ok s" "ledger_ok m" "quiet (sL s) m" "lPerSession m = lPerSession (sL s)"
  shows "sys_ok (s\<lparr>sL := m\<rparr>)"
  using assms gates_ok_same [of "sL s" "sOps s" m "sOps s"]
  by (auto simp: sys_ok_def intro: res_ok_quiet)

lemma sys_ok_init: "sys_ok (sys_init e)"
  using ledger_ok_NewLedger [of e]
  by (simp add: sys_ok_def sys_init_def gates_ok_def gate_ok_def NewLedger_def)

text \<open>A goroutine's entry changes: the others' resolutions survive a quiet call.\<close>

lemma sys_ok_ops:
  assumes "sys_ok s" "ledger_ok m" "quiet (sL s) m" "gates_ok m ops" "wf_map ops"
    and "\<And>j p. map_of ops j = Some p \<Longrightarrow> map_of (sOps s) j = Some p \<or> (\<forall>r n. p = Resolved r n \<longrightarrow> res_ok m r n)"
  shows "sys_ok (s\<lparr>sL := m, sOps := ops\<rparr>)"
  using assms by (fastforce simp: sys_ok_def intro: res_ok_quiet)

lemma resolve_res_ok:
  assumes ok: "ledger_ok l" and res: "resolveHeld l now hold uid name tier = (l', Inr r)"
    and hold: "hold = (if name = [] then None else Some (session_key uid name))"
  shows "res_ok l' r name" "quiet l l'" "lPerSession l' = lPerSession l" "rzHold r = hold" "ledger_ok l'"
proof -
  have "res_ok l' r name \<and> quiet l l' \<and> lPerSession l' = lPerSession l \<and> rzHold r = hold"
    using ledger_okD(2) [OF ok] res
  proof (cases rule: resolveHeld_cases)
    case (attach p t r')
    then have "p < length (lEntries l)" using ledger_okD(6) [OF ok] by (auto simp: admits_def)
    with attach hold show ?thesis by (auto simp: res_ok_def intro: quiet_same_sessions)
  next
    case (resume p t r')
    then have "p < length (lEntries l)" using ledger_okD(6) [OF ok] by (auto simp: admits_def)
    moreover have "not_running l' (session_key uid name)" "name \<noteq> []"
      using resume minted_frame(3) [OF resume(2)]
      by (auto simp: not_running_def known_session_def split: if_splits)
    ultimately show ?thesis
      using resume hold minted_frame [OF resume(2)] quiet_minted [OF resume(2)]
      by (auto simp: res_ok_def minted_def)
  next
    case (create p r')
    then have "p < length (lEntries l)" using ledger_okD(6) [OF ok] by (auto simp: admits_def)
    moreover have "name \<noteq> [] \<longrightarrow> not_running l' (session_key uid name)"
      using create minted_frame(3) [OF create(2)]
      by (auto simp: not_running_def known_session_def split: if_splits)
    ultimately show ?thesis
      using create hold minted_frame [OF create(2)] quiet_minted [OF create(2)]
      by (auto simp: res_ok_def minted_def)
  qed simp
  then show "res_ok l' r name" "quiet l l'" "lPerSession l' = lPerSession l" "rzHold r = hold" by auto
  show "ledger_ok l'"
    using ledger_ok_resolveHeld [OF ok, of now hold uid name tier] res by simp
qed

lemma sys_ok_resolved_named:
  assumes ok: "sys_ok s" and i: "map_of (sOps s) i = Some (Holding (session_key uid name))"
    and n: "name \<noteq> []"
    and res: "resolveHeld (sL s) now (Some (session_key uid name)) uid name tier = (l, Inr r)"
  shows "sys_ok (resolved s i l r name)"
proof -
  note r = resolve_res_ok [OF sys_okD(2) [OF ok] res, simplified n, simplified]
  have h: "holds k (Resolved r name) = holds k (Holding (session_key uid name))" for k
    by (simp add: holds_def r(4))
  have g: "gates_ok l (AList.update i (Resolved r name) (sOps s))"
    by (rule gates_ok_same [OF sys_okD(3) [OF ok] r(3)])
      (use ops_put_counts [OF sys_okD(1) [OF ok] i, where q = "Resolved r name"] h in \<open>auto split: if_splits\<close>)
  have "sys_ok (s\<lparr>sL := l, sOps := AList.update i (Resolved r name) (sOps s)\<rparr>)"
    by (rule sys_ok_ops [OF ok r(5) r(2) g])
      (use r(1) sys_okD(1) [OF ok] in \<open>auto simp: gomap split: if_splits\<close>)
  then show ?thesis by (simp add: resolved_def sys_ok_def)
qed

lemma sys_ok_resolved_anonymous:
  assumes ok: "sys_ok s" and i: "map_of (sOps s) i = None"
    and res: "resolveHeld (sL s) now None uid [] tier = (l, Inr r)"
  shows "sys_ok (resolved s i l r [])"
proof -
  note r = resolve_res_ok [OF sys_okD(2) [OF ok] res, simplified]
  have g: "gates_ok l (AList.update i (Resolved r []) (sOps s))"
    by (rule gates_ok_same [OF sys_okD(3) [OF ok] r(3)])
      (auto simp: map_count_put_fresh [OF i] holds_def r(4))
  have "sys_ok (s\<lparr>sL := l, sOps := AList.update i (Resolved r []) (sOps s)\<rparr>)"
    by (rule sys_ok_ops [OF ok r(5) r(2) g])
      (use r(1) sys_okD(1) [OF ok] in \<open>auto simp: gomap split: if_splits\<close>)
  then show ?thesis by (simp add: resolved_def sys_ok_def)
qed

lemma clone_session_commits:
  assumes "res_ok l r name" "rzReserved r" "\<not> rzCommitted r" "hID h \<noteq> []"
    and "map_of (lFibers l) (hID h) = None"
  shows "commits l r (clone_session r name h)"
  using assms by (auto simp: commits_def clone_session_def res_ok_def not_running_def)

lemma sys_ok_commit:
  assumes ok: "sys_ok s" and i: "map_of (sOps s) i = Some (Resolved r name)"
    and rz: "rzReserved r" "\<not> rzCommitted r" and h: "hID h \<noteq> []" "map_of (lFibers (sL s)) (hID h) = None"
    and com: "res_commit (sL s) r refuse (clone_session r name h) = (l, r', True)"
  shows "sys_ok (s\<lparr>sL := l, sOps := AList.update i (Resolved r' name) (sOps s)\<rparr>)"
proof -
  let ?t = "clone_session r name h"
  have ro: "res_ok (sL s) r name" by (rule sys_okD(4) [OF ok i])
  have hid: "hID (sHandle ?t) \<noteq> []" using h by (simp add: clone_session_def)
  note sh = commit_shape [OF com hid]
  have lok: "ledger_ok l"
    by (rule ledger_ok_commit [OF sys_okD(2) [OF ok] clone_session_commits [OF ro rz h] com])
  have hh: "holds k (Resolved r' name) = holds k (Resolved r name)" for k
    by (simp add: holds_def sh(9))
  have "gates_ok l (AList.update i (Resolved r' name) (sOps s))"
    by (rule gates_ok_same [OF sys_okD(3) [OF ok] sh(4)])
      (use ops_put_counts [OF sys_okD(1) [OF ok] i, where q = "Resolved r' name"] hh in \<open>auto split: if_splits\<close>)
  moreover have "res_ok l r2 n2" if j: "map_of (AList.update i (Resolved r' name) (sOps s)) j = Some (Resolved r2 n2)"
    for j r2 n2
  proof (cases "j = i")
    case True
    with j ro show ?thesis by (auto simp: gomap res_ok_def sh(1,3,9))
  next
    case False
    with j have j': "map_of (sOps s) j = Some (Resolved r2 n2)" by (simp add: gomap)
    have r2: "res_ok (sL s) r2 n2" by (rule sys_okD(4) [OF ok j'])
    have "rzKey r2 \<noteq> rzKey r" if "n2 \<noteq> []" "name \<noteq> []"
      using one_holder [OF sys_okD(3) [OF ok] sys_okD(1) [OF ok] i j', of "rzKey r"] False that ro r2
      by (auto simp: holds_def res_ok_def)
    with r2 show ?thesis
      by (auto simp: res_ok_def not_running_def sh(1,3,8) clone_session_def gomap)
  qed
  ultimately show ?thesis using lok sys_okD(1) [OF ok] by (simp add: sys_ok_def)
qed

lemma sys_ok_refused:
  assumes ok: "sys_ok s" and i: "map_of (sOps s) i = Some p"
  shows "sys_ok (s\<lparr>sOps := AList.update i p (sOps s)\<rparr>)"
proof -
  have "gates_ok (sL s) (AList.update i p (sOps s))"
    by (rule gates_ok_same [OF sys_okD(3) [OF ok] refl])
      (use ops_put_counts [OF sys_okD(1) [OF ok] i, where q = p] in auto)
  with ok i show ?thesis by (auto simp: sys_ok_def gomap split: if_splits)
qed

lemma sys_ok_unlock:
  assumes ok: "sys_ok s" and i: "map_of (sOps s) i = Some (Resolved r name)"
  shows "sys_ok (s\<lparr>sL := res_unlock (sL s) r, sOps := AList.delete i (sOps s)\<rparr>)"
proof -
  let ?l = "if rzReserved r \<and> \<not> rzCommitted r then add_live (sL s) (rzEntry r) (- 1) else sL s"
  have ps: "lPerSession ?l = lPerSession (sL s)" by simp
  have g: "gates_ok ?l (sOps s)" by (rule gates_ok_same [OF sys_okD(3) [OF ok] ps]) simp_all
  have ro: "res_ok (sL s) r name" by (rule sys_okD(4) [OF ok i])
  have "gates_ok (res_unlock (sL s) r) (AList.delete i (sOps s))"
  proof (cases "rzHold r")
    case None
    have "gates_ok ?l (AList.delete i (sOps s))"
      by (rule gates_ok_same [OF g refl])
        (use ops_del_counts [OF sys_okD(1) [OF ok] i] None in \<open>auto simp: holds_def\<close>)
    with None show ?thesis by (simp add: res_unlock_def hold_release_def)
  next
    case (Some key)
    have "gates_ok (releaseSession ?l key) (AList.delete i (sOps s))"
      by (rule gates_ok_release [OF g sys_okD(1) [OF ok] i]) (simp_all add: holds_def Some)
    with Some show ?thesis by (simp add: res_unlock_def hold_release_def)
  qed
  then show ?thesis
    by (rule sys_ok_ops [OF ok ledger_ok_unlock [OF sys_okD(2) [OF ok]] quiet_res_unlock])
      (auto simp: gomap sys_okD(1) [OF ok] split: if_splits)
qed

lemma sys_ok_wait:
  assumes ok: "sys_ok s" and i: "map_of (sOps s) i = None"
  shows "sys_ok (s\<lparr>sL := gate_enter (sL s) key, sOps := AList.update i (Waiting key) (sOps s)\<rparr>)"
  by (rule sys_ok_ops [OF ok ledger_ok_gate_ops(1) [OF sys_okD(2) [OF ok]] quiet_ops(6)
        gates_ok_wait [OF sys_okD(3) [OF ok] i]])
    (auto simp: gomap sys_okD(1) [OF ok] split: if_splits)

lemma sys_ok_lock:
  assumes ok: "sys_ok s" and i: "map_of (sOps s) i = Some (Waiting key)" and free: "gate_free (sL s) key"
  shows "sys_ok (s\<lparr>sL := gate_lock (sL s) key, sOps := AList.update i (Holding key) (sOps s)\<rparr>)"
  by (rule sys_ok_ops [OF ok ledger_ok_gate_ops(2) [OF sys_okD(2) [OF ok]] quiet_ops(7)
        gates_ok_lock [OF sys_okD(3,1) [OF ok] i free]])
    (auto simp: gomap sys_okD(1) [OF ok] split: if_splits)

lemma sys_ok_drop:
  assumes ok: "sys_ok s" and i: "map_of (sOps s) i = Some (Holding key)"
  shows "sys_ok (s\<lparr>sL := releaseSession (sL s) key, sOps := AList.delete i (sOps s)\<rparr>)"
proof -
  have "gates_ok (releaseSession (sL s) key) (AList.delete i (sOps s))"
    by (rule gates_ok_release [OF sys_okD(3,1) [OF ok] i]) (simp_all add: holds_def)
  then show ?thesis
    by (rule sys_ok_ops [OF ok ledger_ok_gate_ops(3) [OF sys_okD(2) [OF ok]] quiet_ops(8)])
      (auto simp: gomap sys_okD(1) [OF ok] split: if_splits)
qed

text \<open>The gates alone need nothing of the runtime.\<close>

definition gates_run :: "sys \<Rightarrow> bool" where
  "gates_run s \<longleftrightarrow> wf_map (sOps s) \<and> gates_ok (sL s) (sOps s)"

lemma resolve_gates:
  "resolveHeld l now hold uid name tier = (l', Inr r) \<Longrightarrow> rzHold r = hold \<and> lPerSession l' = lPerSession l"
  by (auto simp: resolveHeld_def reserve_mint_def reserve_def mint_def Let_def
      split: option.splits if_splits SessionState.splits)

lemma commit_gates:
  "res_commit l r refuse t = (l', r', ok) \<Longrightarrow> rzHold r' = rzHold r \<and> lPerSession l' = lPerSession l"
  by (auto simp: res_commit_def Let_def split: if_splits)

lemma restore_gates: "restoreParked l ss = Inr m \<Longrightarrow> lPerSession m = lPerSession l"
  by (drule restoreParked_shape(3)) simp

lemma gates_run_ledger: "gates_run s \<Longrightarrow> lPerSession m = lPerSession (sL s) \<Longrightarrow> gates_run (s\<lparr>sL := m\<rparr>)"
  using gates_ok_same [of "sL s" "sOps s" m "sOps s"] by (simp add: gates_run_def)

lemma gates_run_put:
  assumes "gates_run s" "map_of (sOps s) i = Some p" "lPerSession m = lPerSession (sL s)"
    and "\<And>k. (q = Waiting k) = (p = Waiting k)" "\<And>k. holds k q = holds k p"
  shows "gates_run (s\<lparr>sL := m, sOps := AList.update i q (sOps s)\<rparr>)"
proof -
  have wf: "wf_map (sOps s)" and g: "gates_ok (sL s) (sOps s)" using assms(1) by (simp_all add: gates_run_def)
  have "gates_ok m (AList.update i q (sOps s))"
    by (rule gates_ok_same [OF g assms(3)])
      (use ops_put_counts [OF wf assms(2), where q = q] assms(4,5) in \<open>auto split: if_splits\<close>)
  with wf show ?thesis by (simp add: gates_run_def)
qed

lemma gates_run_resolved:
  assumes "gates_run s" "map_of (sOps s) i = None" "lPerSession l = lPerSession (sL s)" "rzHold r = None"
  shows "gates_run (resolved s i l r name)"
proof -
  have wf: "wf_map (sOps s)" and g: "gates_ok (sL s) (sOps s)" using assms(1) by (simp_all add: gates_run_def)
  have "gates_ok l (AList.update i (Resolved r name) (sOps s))"
    by (rule gates_ok_same [OF g assms(3)])
      (use map_count_put_fresh [OF assms(2)] assms(4) in \<open>auto simp: holds_def\<close>)
  with wf show ?thesis by (simp add: gates_run_def resolved_def)
qed

lemma gates_run_del:
  assumes "gates_run s" "map_of (sOps s) i = Some p" "\<And>k. p \<noteq> Waiting k"
    and "lPerSession l = lPerSession (sL s)" "\<And>k. holds k p \<longleftrightarrow> hold = Some k"
  shows "gates_run (s\<lparr>sL := hold_release l hold, sOps := AList.delete i (sOps s)\<rparr>)"
proof -
  have wf: "wf_map (sOps s)" and g: "gates_ok (sL s) (sOps s)" using assms(1) by (simp_all add: gates_run_def)
  have g': "gates_ok l (sOps s)" by (rule gates_ok_same [OF g assms(4)]) simp_all
  have "gates_ok (hold_release l hold) (AList.delete i (sOps s))"
  proof (cases hold)
    case None
    have "gates_ok l (AList.delete i (sOps s))"
      by (rule gates_ok_same [OF g' refl])
        (use ops_del_counts [OF wf assms(2)] None assms(3,5) in \<open>auto split: if_splits\<close>)
    with None show ?thesis by (simp add: hold_release_def)
  next
    case (Some key)
    have "gates_ok (releaseSession l key) (AList.delete i (sOps s))"
      by (rule gates_ok_release [OF g' wf assms(2)]) (use Some assms(3,5) in auto)
    with Some show ?thesis by (simp add: hold_release_def)
  qed
  with wf show ?thesis by (simp add: gates_run_def)
qed

lemma gates_run_step:
  assumes "step strict s s'" "gates_run s"
  shows "gates_run s'"
  using assms
proof (induction rule: step.induct)
  case (wait s i key)
  then show ?case by (simp add: gates_run_def gates_ok_wait)
next
  case (lock s i key)
  then show ?case by (simp add: gates_run_def gates_ok_lock)
next
  case (drop s i key)
  from gates_run_del [OF drop(2,1), of "sL s" "Some key"] show ?case by (simp add: holds_def hold_release_def)
next
  case (resolve_named s i uid name now tier l r)
  from gates_run_put [OF resolve_named(4,1), of l "Resolved r name"] resolve_gates [OF resolve_named(3)]
  show ?case by (simp add: holds_def resolved_def gates_run_def)
next
  case (resolve_anonymous s i now uid tier l r)
  then show ?case by (intro gates_run_resolved) (auto dest: resolve_gates)
next
  case (commit s i r name h refuse l r' ok)
  from gates_run_put [OF commit(6,1), of l "Resolved r' name"] commit_gates [OF commit(5)]
  show ?case by (simp add: holds_def)
next
  case (unlock s i r name)
  from gates_run_del [OF unlock(2,1), of "if rzReserved r \<and> \<not> rzCommitted r then add_live (sL s) (rzEntry r) (- 1) else sL s" "rzHold r"]
  show ?case by (simp add: holds_def res_unlock_def)
next
  case (restore s ss l)
  from gates_run_ledger [OF restore(2) restore_gates [OF restore(1)]] show ?case .
qed (rule gates_run_ledger; simp)+

lemma gates_run_reach: "reach strict s \<Longrightarrow> gates_run s"
proof (induction rule: reach.induct)
  case (reach_init epoch)
  show ?case by (simp add: gates_run_def sys_init_def gates_ok_def gate_ok_def NewLedger_def)
qed (rule gates_run_step)

text \<open>The name of a fiber to come is unused.\<close>

definition ids_fresh :: "sys \<Rightarrow> bool" where
  "ids_fresh s \<longleftrightarrow> (\<forall>i r name. map_of (sOps s) i = Some (Resolved r name) \<and> rzReserved r \<and> \<not> rzCommitted r \<longrightarrow>
     map_of (lFibers (sL s)) (Fence_String (rzFence r)) = None)"

lemma sys_ok_step:
  assumes "step strict s s'" "sys_ok s" "ids_fresh s"
  shows "sys_ok s'"
  using assms
proof (induction rule: step.induct)
  case (commit s i r name h refuse l r' ok)
  show ?case
  proof (cases ok)
    case True
    have "map_of (lFibers (sL s)) (hID h) = None" using commit(1-4,7) by (auto simp: ids_fresh_def)
    with commit True show ?thesis by (intro sys_ok_commit) simp_all
  next
    case False
    with commit commit_refused_unchanged [of "sL s" r refuse "clone_session r name h" l r']
    show ?thesis using sys_ok_refused [of s i "Resolved r name"] by simp
  qed
next
  case (unlock s i r name)
  then show ?case by (simp add: sys_ok_unlock)
next
  case (restore s ss l)
  show ?case
    by (rule sys_ok_ledger [OF restore(2) ledger_ok_restoreParked [OF sys_okD(2) [OF restore(2)] restore(1)]
        quiet_restoreParked [OF restore(1)]])
      (simp add: restoreParked_shape(3) [OF restore(1)])
qed (auto intro!: sys_ok_ledger sys_ok_wait sys_ok_lock sys_ok_drop sys_ok_resolved_named
    sys_ok_resolved_anonymous quiet_ops quiet_same_sessions
    ledger_ok_AdmitGrant ledger_ok_RevokeGrant ledger_ok_BumpEpoch ledger_ok_OnPark ledger_ok_onGone
    ledger_ok_ForgetSession ledger_ok_SetPooled ledger_ok_SetFiberW dest: sys_okD)

section \<open>Fences\<close>

text \<open>The last sequence number a UID's fences reached, in its entry or kept from a revoked one.\<close>

definition cur_seq :: "Ledger \<Rightarrow> string \<Rightarrow> u64" where
  "cur_seq l uid = (case map_of (lGrants l) uid of Some p \<Rightarrow> eNextSeq (entry l p) | None \<Rightarrow> seq_high l uid)"

lemma cur_seq_cong:
  assumes "lGrants m = lGrants l" "lSeqHigh m = lSeqHigh l"
    "\<And>p. map_of (lGrants l) uid = Some p \<Longrightarrow> eNextSeq (entry m p) = eNextSeq (entry l p)"
  shows "cur_seq m uid = cur_seq l uid"
  using assms by (simp add: cur_seq_def seq_high_def split: option.splits)

lemma cur_seq_AdmitGrant:
  assumes "grants_ok l"
  shows "cur_seq (AdmitGrant l g) uid = cur_seq l uid"
proof (cases "map_of (lGrants l) (gUID g)")
  case None
  then show ?thesis
    using assms
    by (auto simp: cur_seq_def seq_high_def AdmitGrant_def entry_def gomap nth_append grants_ok_def
        split: option.splits)
next
  case (Some p)
  with assms have "p < length (lEntries l)" by (auto simp: grants_ok_def)
  with Some show ?thesis
    by (auto simp: cur_seq_def seq_high_def AdmitGrant_def entry_set_entry split: option.splits)
qed

lemma cur_seq_RevokeGrant: "cur_seq (RevokeGrant l u) uid = cur_seq l uid"
  by (auto simp: cur_seq_def seq_high_def RevokeGrant_def Let_def gomap entry_def split: option.splits)

lemma eNextSeq_drop_fiber [simp]: "eNextSeq (entry (drop_fiber l fid ref) q) = eNextSeq (entry l q)"
  by (simp add: drop_fiber_def Let_def split: option.splits)

lemma cur_seq_drops:
  "cur_seq (fst (OnPark l fid d)) uid = cur_seq l uid" "cur_seq (fst (onGone l fid)) uid = cur_seq l uid"
proof -
  show "cur_seq (fst (OnPark l fid d)) uid = cur_seq l uid"
    by (rule cur_seq_cong) (simp_all add: OnPark_def Let_def split: option.splits)
  show "cur_seq (fst (onGone l fid)) uid = cur_seq l uid"
    by (rule cur_seq_cong) (simp_all add: onGone_def Let_def split: option.splits prod.splits)
qed

lemma cur_seq_others:
  "cur_seq (Ledger_BumpEpoch l e) uid = cur_seq l uid" "cur_seq (ForgetSession l u n) uid = cur_seq l uid"
  "cur_seq (SetFiberW l fid b) uid = cur_seq l uid"
proof -
  show "cur_seq (Ledger_BumpEpoch l e) uid = cur_seq l uid" by (rule cur_seq_cong) simp_all
  show "cur_seq (ForgetSession l u n) uid = cur_seq l uid" by (rule cur_seq_cong) simp_all
  show "cur_seq (SetFiberW l fid b) uid = cur_seq l uid" by (rule cur_seq_cong) simp_all
qed

lemma cur_seq_gates: "same_but_gates l m \<Longrightarrow> cur_seq m uid = cur_seq l uid"
  by (rule cur_seq_cong) (simp_all add: same_but_gates_frame)

lemma cur_seq_unlock: "cur_seq (res_unlock l r) uid = cur_seq l uid"
proof -
  let ?l = "if rzReserved r \<and> \<not> rzCommitted r then add_live l (rzEntry r) (- 1) else l"
  have "cur_seq (res_unlock l r) uid = cur_seq ?l uid"
    unfolding res_unlock_def by (rule cur_seq_gates) simp
  also have "\<dots> = cur_seq l uid" by (rule cur_seq_cong) simp_all
  finally show ?thesis .
qed

lemma cur_seq_SetPooled:
  assumes "grants_ok l"
  shows "cur_seq (fst (SetPooled l u n)) uid = cur_seq l uid"
proof (cases "map_of (lGrants l) u")
  case (Some p)
  with assms have "p < length (lEntries l)" by (auto simp: grants_ok_def)
  with Some show ?thesis by (intro cur_seq_cong) (auto simp: SetPooled_def entry_set_entry)
qed (simp add: SetPooled_def)

lemma cur_seq_minted:
  assumes "grants_ok l" "map_of (lGrants l) u = Some p" "minted l p u l' r"
  shows "cur_seq l' uid = cur_seq l uid + (if uid = u then 1 else 0)"
    "rzFence r = \<lparr>fGrantUID = u, fEpoch = lEpoch l, fSeq = cur_seq l u + 1\<rparr>"
proof -
  have p: "p < length (lEntries l)" using assms by (auto simp: grants_ok_def)
  show "cur_seq l' uid = cur_seq l uid + (if uid = u then 1 else 0)"
  proof (cases "uid = u")
    case True
    with assms(2) show ?thesis
      by (simp add: cur_seq_def minted_entry [OF assms(3) p] minted_frame [OF assms(3)])
  next
    case False
    then have "map_of (lGrants l) uid \<noteq> Some p" using grants_ok_inj [OF assms(1,2), of uid] by metis
    with False show ?thesis
      by (simp add: cur_seq_def seq_high_def minted_entry [OF assms(3) p] minted_frame [OF assms(3)]
          split: option.splits)
  qed
  show "rzFence r = \<lparr>fGrantUID = u, fEpoch = lEpoch l, fSeq = cur_seq l u + 1\<rparr>"
    using assms by (simp add: minted_def cur_seq_def)
qed

text \<open>
  A UID's fences are numbered 1, 2, 3, \<dots> in the order they are minted, across revocations and
  epochs, and the epochs do not go back.
\<close>

definition of_uid :: "string \<Rightarrow> Fence list \<Rightarrow> Fence list" where
  "of_uid uid fs = filter (\<lambda>f. fGrantUID f = uid) fs"

definition seqs_ok :: "sys \<Rightarrow> bool" where
  "seqs_ok s \<longleftrightarrow>
     (\<forall>uid. cur_seq (sL s) uid = of_nat (length (of_uid uid (sMinted s))) \<and>
       map fSeq (of_uid uid (sMinted s)) = map of_nat [1..<Suc (length (of_uid uid (sMinted s)))]) \<and>
     sorted (map fEpoch (sMinted s)) \<and> (\<forall>f \<in> set (sMinted s). fEpoch f \<le> lEpoch (sL s))"

lemma seqs_ok_same:
  assumes "seqs_ok s" "\<And>uid. cur_seq l uid = cur_seq (sL s) uid" "lEpoch (sL s) \<le> lEpoch l"
  shows "seqs_ok (s\<lparr>sL := l\<rparr>)" "seqs_ok (s\<lparr>sL := l, sOps := ops\<rparr>)"
  using assms by (auto simp: seqs_ok_def intro: order_trans)

lemma seqs_ok_resolved:
  assumes sq: "seqs_ok s" and ok: "ledger_ok (sL s)"
    and res: "resolveHeld (sL s) now hold uid name tier = (l, Inr r)"
  shows "seqs_ok (resolved s i l r name)"
proof -
  have mint: "seqs_ok (resolved s i l r name)"
    if m: "minted (sL s) p uid l r" and p: "admits (sL s) now uid tier p" for p
  proof -
    have g: "map_of (lGrants (sL s)) uid = Some p" using p by (simp add: admits_def)
    note c = cur_seq_minted [OF ledger_okD(2) [OF ok] g m]
    have "rzReserved r" using m by (simp add: minted_def)
    then show ?thesis
      using sq minted_frame(1) [OF m]
      by (auto simp: seqs_ok_def resolved_def of_uid_def c sorted_append)
  qed
  show ?thesis
    using ledger_okD(2) [OF ok] res
  proof (cases rule: resolveHeld_cases)
    case (attach p t r')
    with sq show ?thesis by (auto simp: resolved_def seqs_ok_def)
  qed (auto intro: mint)
qed

lemma seqs_ok_step:
  assumes "step strict s s'" "sys_ok s" "seqs_ok s"
  shows "seqs_ok s'"
  using assms
proof (induction rule: step.induct)
  case (commit s i r name h refuse l r' ok)
  have "cur_seq l uid = cur_seq (sL s) uid \<and> lEpoch l = lEpoch (sL s)" for uid
  proof (cases ok)
    case True
    have "hID (sHandle (clone_session r name h)) \<noteq> []" using commit by (simp add: clone_session_def)
    note sh = commit_shape [OF commit(5) [unfolded True [THEN eqTrueI]] this]
    have "cur_seq l uid = cur_seq (sL s) uid" by (rule cur_seq_cong) (simp_all add: sh)
    with sh(1) show ?thesis by simp
  next
    case False
    with commit(5) show ?thesis by (auto dest: commit_refused_unchanged)
  qed
  with commit show ?case by (intro seqs_ok_same) auto
next
  case (restore s ss l)
  have "cur_seq l uid = cur_seq (sL s) uid" for uid
    by (rule cur_seq_cong) (simp_all add: restoreParked_shape(3) [OF restore(1)])
  with restore show ?case by (intro seqs_ok_same) (simp_all add: restoreParked_shape(3) [OF restore(1)])
next
  case (resolve_named s i uid name now tier l r)
  then show ?case by (intro seqs_ok_resolved) (auto dest: sys_okD)
next
  case (resolve_anonymous s i now uid tier l r)
  then show ?case by (intro seqs_ok_resolved) (auto dest: sys_okD)
next
  case (unlock s i r name)
  then show ?case
    using quiet_res_unlock [of "sL s" r] by (intro seqs_ok_same) (auto simp: cur_seq_unlock quiet_def)
qed (intro seqs_ok_same; simp add: cur_seq_AdmitGrant cur_seq_RevokeGrant cur_seq_drops
    cur_seq_SetPooled cur_seq_others cur_seq_gates [OF gates_only(1)] cur_seq_gates [OF gates_only(2)]
    cur_seq_gates [OF gates_only(3)] ledger_okD(2) [OF sys_okD(2)])+

lemma seqs_ok_init: "seqs_ok (sys_init e)"
  by (simp add: seqs_ok_def sys_init_def NewLedger_def cur_seq_def seq_high_def of_uid_def)

lemma of_uid_nth:
  assumes "i < j" "j < length fs" "fGrantUID (fs ! i) = uid" "fGrantUID (fs ! j) = uid"
  obtains a b where "a < b" "b < length (of_uid uid fs)" "of_uid uid fs ! a = fs ! i" "of_uid uid fs ! b = fs ! j"
proof -
  have split: "fs = take i fs @ fs ! i # drop (Suc i) fs" using assms by (simp add: id_take_nth_drop)
  have "fs ! j \<in> set (of_uid uid (drop (Suc i) fs))"
    using assms nth_mem [of "j - Suc i" "drop (Suc i) fs"] by (auto simp: of_uid_def)
  then obtain c where c: "c < length (of_uid uid (drop (Suc i) fs))" "of_uid uid (drop (Suc i) fs) ! c = fs ! j"
    by (auto simp: in_set_conv_nth)
  let ?pre = "of_uid uid (take i fs)"
  have eq: "of_uid uid fs = ?pre @ fs ! i # of_uid uid (drop (Suc i) fs)"
    using assms(3) by (subst split) (simp add: of_uid_def)
  show ?thesis
    by (rule that [of "length ?pre" "Suc (length ?pre + c)"]) (use c in \<open>auto simp: eq nth_append\<close>)
qed

lemma length_of_uid: "length (of_uid uid fs) \<le> length fs"
  by (simp add: of_uid_def)

lemma u64_of_nat_less: "a < b \<Longrightarrow> b < 2 ^ 64 \<Longrightarrow> (of_nat a :: u64) < of_nat b"
  by (simp add: word_less_nat_alt unat_of_nat)

lemma mints_newer_ok:
  assumes sq: "seqs_ok s" and len: "length (sMinted s) < 2 ^ 64"
    and ij: "i < j" "j < length (sMinted s)" "fGrantUID (sMinted s ! i) = fGrantUID (sMinted s ! j)"
  shows "Newer (sMinted s ! j) (sMinted s ! i)"
proof -
  let ?fs = "sMinted s" and ?uid = "fGrantUID (sMinted s ! j)"
  obtain a b where ab: "a < b" "b < length (of_uid ?uid ?fs)"
    "of_uid ?uid ?fs ! a = ?fs ! i" "of_uid ?uid ?fs ! b = ?fs ! j"
    using of_uid_nth [OF ij(1,2,3) refl] .
  have m: "map fSeq (of_uid ?uid ?fs) = map of_nat [1..<Suc (length (of_uid ?uid ?fs))]"
    using sq by (simp add: seqs_ok_def)
  have nth: "fSeq (of_uid ?uid ?fs ! c) = of_nat (Suc c)" if "c < length (of_uid ?uid ?fs)" for c
    using arg_cong [OF m, of "\<lambda>xs. xs ! c"] that by (simp add: nth_upt del: upt_Suc)
  have "b < 2 ^ 64 - 1" using ab(2) length_of_uid [of ?uid ?fs] len by linarith
  then have "(of_nat (Suc a) :: u64) < of_nat (Suc b)" using ab(1) by (intro u64_of_nat_less) auto
  with ab nth [of a] nth [of b] have "fSeq (?fs ! i) < fSeq (?fs ! j)" by (simp del: of_nat_Suc)
  moreover have "fEpoch (?fs ! i) \<le> fEpoch (?fs ! j)"
    using sq ij sorted_nth_mono [of "map fEpoch ?fs" i j] by (simp add: seqs_ok_def)
  ultimately show ?thesis using ij(3) by (simp add: Newer_def order.strict_iff_order)
qed

lemma minted_distinct:
  assumes "seqs_ok s" "length (sMinted s) < 2 ^ 64"
  shows "distinct (sMinted s)"
proof -
  have "sMinted s ! i \<noteq> sMinted s ! j" if "i < j" "j < length (sMinted s)" for i j
    using mints_newer_ok [OF assms that] Newer_irrefl by metis
  then show ?thesis by (auto simp: distinct_conv_nth) (metis nat_neq_iff)
qed

text \<open>Who holds which fence: a running fiber, or a clone between its resolve and its commit.\<close>

datatype slot = SFiber string | SClone nat

fun held_fence :: "sys \<Rightarrow> slot \<Rightarrow> Fence option" where
  "held_fence s (SFiber fid) = map_option rFence (map_of (lFibers (sL s)) fid)"
| "held_fence s (SClone i) =
     (case map_of (sOps s) i of
        Some (Resolved r name) \<Rightarrow> if rzReserved r \<and> \<not> rzCommitted r then Some (rzFence r) else None
      | _ \<Rightarrow> None)"

definition fences_ok :: "sys \<Rightarrow> bool" where
  "fences_ok s \<longleftrightarrow>
     (\<forall>a f. held_fence s a = Some f \<longrightarrow> f \<in> set (sMinted s)) \<and>
     (\<forall>a b f. held_fence s a = Some f \<longrightarrow> held_fence s b = Some f \<longrightarrow> a = b)"

lemma fences_ok_fewer:
  assumes "fences_ok s" "sMinted s' = sMinted s"
    "\<And>a f. held_fence s' a = Some f \<Longrightarrow> held_fence s a = Some f"
  shows "fences_ok s'"
  using assms unfolding fences_ok_def by metis

lemma fences_ok_ledger:
  assumes "fences_ok s" "\<And>fid ref. map_of (lFibers l) fid = Some ref \<Longrightarrow>
    \<exists>ref'. map_of (lFibers (sL s)) fid = Some ref' \<and> rFence ref' = rFence ref"
  shows "fences_ok (s\<lparr>sL := l\<rparr>)"
proof (rule fences_ok_fewer [OF assms(1)])
  fix a f assume "held_fence (s\<lparr>sL := l\<rparr>) a = Some f"
  then show "held_fence s a = Some f" by (cases a) (auto dest: assms(2))
qed simp

lemma fences_ok_ops:
  assumes "fences_ok s" "lFibers l = lFibers (sL s)"
    "\<And>j p. map_of ops j = Some p \<Longrightarrow> map_of (sOps s) j = Some p \<or> (\<forall>r n. p \<noteq> Resolved r n)"
  shows "fences_ok (s\<lparr>sL := l, sOps := ops\<rparr>)"
proof (rule fences_ok_fewer [OF assms(1)])
  fix a f assume a: "held_fence (s\<lparr>sL := l, sOps := ops\<rparr>) a = Some f"
  show "held_fence s a = Some f"
  proof (cases a)
    case (SFiber fid)
    with a assms(2) show ?thesis by simp
  next
    case (SClone i)
    with a obtain r n where "map_of ops i = Some (Resolved r n)"
      by (auto split: option.splits gop.splits)
    with assms(3) [OF this] a SClone show ?thesis by auto
  qed
qed simp

lemma fences_ok_resolved:
  assumes f: "fences_ok s" and l: "lFibers l = lFibers (sL s)"
    and d: "distinct (sMinted (resolved s i l r name))"
    and i: "\<And>r n. map_of (sOps s) i \<noteq> Some (Resolved r n)"
  shows "fences_ok (resolved s i l r name)"
proof (cases "rzReserved r")
  case False
  show ?thesis
  proof (rule fences_ok_fewer [OF f])
    fix a g assume "held_fence (resolved s i l r name) a = Some g"
    with False l show "held_fence s a = Some g"
      by (cases a) (auto simp: resolved_def gomap split: if_splits)
  qed (simp add: resolved_def False)
next
  case True
  have new: "held_fence (resolved s i l r name) a = Some g \<Longrightarrow>
      held_fence s a = Some g \<or> a = SClone i \<and> g = rzFence r" for a g
    using l by (cases a) (auto simp: resolved_def gomap split: if_splits)
  have fresh: "rzFence r \<notin> set (sMinted s)" using d True by (simp add: resolved_def)
  have none: "held_fence s (SClone i) = None" using i by (auto split: option.splits gop.splits)
  have m: "set (sMinted (resolved s i l r name)) = insert (rzFence r) (set (sMinted s))"
    by (simp add: resolved_def True)
  have old: "g \<in> set (sMinted s)" if "held_fence s a = Some g" for a g
    using f that by (simp add: fences_ok_def)
  show ?thesis
    unfolding fences_ok_def m
  proof (intro conjI allI impI)
    fix a g assume "held_fence (resolved s i l r name) a = Some g"
    from new [OF this] old show "g \<in> insert (rzFence r) (set (sMinted s))" by blast
  next
    fix a b g
    assume ab: "held_fence (resolved s i l r name) a = Some g" "held_fence (resolved s i l r name) b = Some g"
    show "a = b"
    proof (cases "g = rzFence r")
      case True
      with new [OF ab(1)] new [OF ab(2)] old fresh show ?thesis by blast
    next
      case False
      with new [OF ab(1)] new [OF ab(2)] have "held_fence s a = Some g" "held_fence s b = Some g" by auto
      with f show ?thesis unfolding fences_ok_def by blast
    qed
  qed
qed

lemma fences_ok_commit:
  assumes f: "fences_ok s" and i: "map_of (sOps s) i = Some (Resolved r name)"
    and rz: "rzReserved r" "\<not> rzCommitted r" and h: "hID h \<noteq> []"
    and com: "res_commit (sL s) r refuse (clone_session r name h) = (l, r', True)"
  shows "fences_ok (s\<lparr>sL := l, sOps := AList.update i (Resolved r' name) (sOps s)\<rparr>)"
proof -
  let ?s = "s\<lparr>sL := l, sOps := AList.update i (Resolved r' name) (sOps s)\<rparr>"
  have hid: "hID (sHandle (clone_session r name h)) \<noteq> []" using h by (simp add: clone_session_def)
  note sh = commit_shape [OF com hid]
  have own: "held_fence s (SClone i) = Some (rzFence r)" using i rz by simp
  have new: "held_fence ?s a = Some g \<Longrightarrow>
      a \<noteq> SClone i \<and> (a \<noteq> SFiber (hID h) \<and> held_fence s a = Some g \<or> a = SFiber (hID h) \<and> g = rzFence r)" for a g
    by (cases a) (auto simp: sh gomap clone_session_def split: if_splits)
  have m: "sMinted ?s = sMinted s" by simp
  show ?thesis
    unfolding fences_ok_def m
  proof (intro conjI allI impI)
    fix a g assume "held_fence ?s a = Some g"
    with new own f show "g \<in> set (sMinted s)" unfolding fences_ok_def by blast
  next
    fix a b g assume "held_fence ?s a = Some g" "held_fence ?s b = Some g"
    with new [of a g] new [of b g] own f show "a = b" unfolding fences_ok_def by metis
  qed
qed

lemma resolve_fibers:
  assumes "ledger_ok l" "resolveHeld l now hold uid name tier = (l', Inr r)"
  shows "lFibers l' = lFibers l"
  using ledger_okD(2) [OF assms(1)] assms(2)
  by (cases rule: resolveHeld_cases) (simp_all add: minted_frame)

lemma same_gates_fibers: "same_but_gates l m \<Longrightarrow> lFibers m = lFibers l"
  by (rule same_but_gates_frame(5))

lemma unlock_fibers [simp]: "lFibers (res_unlock l r) = lFibers l"
  using same_gates_fibers [OF gates_only(4)] by (simp add: res_unlock_def)

lemma fences_ok_step:
  assumes "step strict s s'" "sys_ok s" "fences_ok s" "distinct (sMinted s')"
  shows "fences_ok s'"
  using assms
proof (induction rule: step.induct)
  case (commit s i r name h refuse l r' ok)
  show ?case
  proof (cases ok)
    case True
    with commit show ?thesis by (intro fences_ok_commit) simp_all
  next
    case False
    with commit commit_refused_unchanged [of "sL s" r refuse "clone_session r name h" l r']
    have "l = sL s" "r' = r" by auto
    with commit show ?thesis by (intro fences_ok_ops) (auto simp: gomap split: if_splits)
  qed
next
  case (resolve_named s i uid name now tier l r)
  then show ?case
    using resolve_fibers [OF sys_okD(2) resolve_named(3)] by (intro fences_ok_resolved) auto
next
  case (resolve_anonymous s i now uid tier l r)
  then show ?case
    using resolve_fibers [OF sys_okD(2) resolve_anonymous(2)] by (intro fences_ok_resolved) auto
next
  case (restore s ss l)
  then show ?case by (intro fences_ok_ledger) (auto simp: restoreParked_shape(3) [OF restore(1)])
next
  case (measured s fid b)
  then show ?case by (intro fences_ok_ledger) (auto simp: SetFiberW_lookup split: if_splits)
qed ((rule fences_ok_ops fences_ok_ledger; auto simp: gomap split: if_splits)+)

lemma fences_ok_init: "fences_ok (sys_init e)"
proof -
  have "held_fence (sys_init e) a = None" for a by (cases a) (simp_all add: sys_init_def NewLedger_def)
  then show ?thesis by (simp add: fences_ok_def)
qed

text \<open>Every fiber is named by its fence, so the fence of a clone in flight names no fiber.\<close>

definition names_ok :: "Ledger \<Rightarrow> bool" where
  "names_ok l \<longleftrightarrow> (\<forall>fid ref. map_of (lFibers l) fid = Some ref \<longrightarrow> fid = Fence_String (rFence ref))"

lemma names_ok_fewer:
  assumes "names_ok l" "\<And>fid ref. map_of (lFibers m) fid = Some ref \<Longrightarrow>
    \<exists>ref'. map_of (lFibers l) fid = Some ref' \<and> rFence ref' = rFence ref"
  shows "names_ok m"
  using assms unfolding names_ok_def by metis

lemma names_ok_same: "names_ok l \<Longrightarrow> lFibers m = lFibers l \<Longrightarrow> names_ok m"
  by (simp add: names_ok_def)

lemma names_ok_commit:
  assumes "names_ok l" "hID h = Fence_String (rzFence r)"
    "res_commit l r refuse (clone_session r name h) = (m, r', ok)"
  shows "names_ok m"
proof (cases ok)
  case True
  have "hID (sHandle (clone_session r name h)) \<noteq> []" using assms(2) by (simp add: clone_session_def)
  note sh = commit_shape [OF assms(3) [unfolded True [THEN eqTrueI]] this]
  show ?thesis
    unfolding names_ok_def
  proof (intro allI impI)
    fix fid ref assume f: "map_of (lFibers m) fid = Some ref"
    show "fid = Fence_String (rFence ref)"
    proof (cases "fid = hID h")
      case True
      with f assms(2) show ?thesis by (auto simp: sh gomap clone_session_def)
    next
      case False
      with f have "map_of (lFibers l) fid = Some ref" by (simp add: sh gomap clone_session_def)
      with assms(1) show ?thesis unfolding names_ok_def by blast
    qed
  qed
next
  case False
  with assms(1,3) show ?thesis by (auto dest: commit_refused_unchanged)
qed

lemma names_ok_step:
  assumes "step strict s s'" "sys_ok s" "names_ok (sL s)"
  shows "names_ok (sL s')"
  using assms
proof (induction rule: step.induct)
  case (commit s i r name h refuse l r' ok)
  from names_ok_commit [OF commit(7,4,5)] show ?case by simp
next
  case (resolve_named s i uid name now tier l r)
  from names_ok_same [OF resolve_named(5) resolve_fibers [OF sys_okD(2) [OF resolve_named(4)] resolve_named(3)]]
  show ?case by (simp add: resolved_def)
next
  case (resolve_anonymous s i now uid tier l r)
  from names_ok_same [OF resolve_anonymous(4)
      resolve_fibers [OF sys_okD(2) [OF resolve_anonymous(3)] resolve_anonymous(2)]]
  show ?case by (simp add: resolved_def)
next
  case (restore s ss l)
  from restore(3) show ?case by (rule names_ok_same) (simp add: restoreParked_shape(3) [OF restore(1)])
next
  case (measured s fid b)
  from measured(2) show ?case by (rule names_ok_fewer) (auto simp: SetFiberW_lookup split: if_splits)
next
  case (park s fid deltaRef)
  from park(2) show ?case by (rule names_ok_fewer) (auto split: if_splits)
next
  case (gone s fid)
  from gone(2) show ?case by (rule names_ok_fewer) (auto split: if_splits)
qed (erule names_ok_same; simp add: same_gates_fibers [OF gates_only(1)] same_gates_fibers [OF gates_only(2)]
    same_gates_fibers [OF gates_only(3)])+

lemma fresh_id:
  assumes "fences_ok s" "names_ok (sL s)"
  shows "ids_fresh s"
  unfolding ids_fresh_def
proof (intro allI impI)
  fix i r name
  assume r: "map_of (sOps s) i = Some (Resolved r name) \<and> rzReserved r \<and> \<not> rzCommitted r"
  let ?f = "rzFence r"
  have own: "held_fence s (SClone i) = Some ?f" using r by simp
  show "map_of (lFibers (sL s)) (Fence_String ?f) = None"
  proof (rule ccontr)
    assume "map_of (lFibers (sL s)) (Fence_String ?f) \<noteq> None"
    then obtain ref where ref: "map_of (lFibers (sL s)) (Fence_String ?f) = Some ref" by auto
    then have "Fence_String ?f = Fence_String (rFence ref)" using assms(2) unfolding names_ok_def by blast
    then have "held_fence s (SFiber (Fence_String ?f)) = Some ?f" using ref by (auto dest: Fence_String_inj)
    with own assms(1) show False unfolding fences_ok_def by blast
  qed
qed

lemma minted_grows: "step strict s s' \<Longrightarrow> length (sMinted s) \<le> length (sMinted s')"
  by (cases rule: step.cases) (auto simp: resolved_def)

definition run_ok :: "sys \<Rightarrow> bool" where
  "run_ok s \<longleftrightarrow> sys_ok s \<and> seqs_ok s \<and> fences_ok s \<and> names_ok (sL s)"

lemma run_ok_reach: "reach strict s \<Longrightarrow> length (sMinted s) < 2 ^ 64 \<Longrightarrow> run_ok s"
proof (induction rule: reach.induct)
  case (reach_init epoch)
  show ?case
    by (simp add: run_ok_def sys_ok_init seqs_ok_init fences_ok_init) (simp add: names_ok_def sys_init_def NewLedger_def)
next
  case (reach_step s s')
  have "length (sMinted s) \<le> length (sMinted s')" by (rule minted_grows [OF reach_step(2)])
  with reach_step have ok: "sys_ok s" "seqs_ok s" "fences_ok s" "names_ok (sL s)" by (simp_all add: run_ok_def)
  have sq: "seqs_ok s'" by (rule seqs_ok_step [OF reach_step(2) ok(1,2)])
  show ?case
    unfolding run_ok_def
    by (intro conjI sq sys_ok_step [OF reach_step(2) ok(1) fresh_id [OF ok(3,4)]]
        fences_ok_step [OF reach_step(2) ok(1,3) minted_distinct [OF sq reach_step(4)]]
        names_ok_step [OF reach_step(2) ok(1,4)])
qed

lemma reach_ok:
  assumes "reach strict s" "length (sMinted s) < 2 ^ 64"
  shows "sys_ok s" "seqs_ok s" "fences_ok s" "names_ok (sL s)" "ids_fresh s"
  using run_ok_reach [OF assms] fresh_id [of s] by (simp_all add: run_ok_def)

lemmas sys_ok_reach = reach_ok(1)
lemmas seqs_ok_reach = reach_ok(2)
lemmas fences_ok_reach = reach_ok(3)
lemmas ids_fresh_reach = reach_ok(5)

section \<open>What holds of every run\<close>

text \<open>
  C23. However clones, parks, releases, revocations, re-admissions and epoch moves interleave, a
  fence minted later for a UID is newer (\<open>Fence.Newer\<close>) than every fence minted for it before,
  as long as fewer than 2^64 were minted since boot; in particular no fence is ever minted twice.
\<close>

theorem mints_newer:
  assumes "reach strict s" "length (sMinted s) < 2 ^ 64"
    and "i < j" "j < length (sMinted s)" "fGrantUID (sMinted s ! i) = fGrantUID (sMinted s ! j)"
  shows "Newer (sMinted s ! j) (sMinted s ! i)"
  by (rule mints_newer_ok [OF seqs_ok_reach [OF assms(1,2)] assms(2-5)])

text \<open>
  C24. No two running fibers of a home carry the same fence, and none carries the fence of a clone
  that is still between its resolve and its commit, in any interleaving.
\<close>

theorem fence_identifies_fiber:
  assumes "reach strict s" "length (sMinted s) < 2 ^ 64"
    and "Ledger_Fiber (sL s) x = Some f"
  shows "(Ledger_Fiber (sL s) y = Some f \<longrightarrow> y = x) \<and>
    (map_of (sOps s) i = Some (Resolved r name) \<and> rzReserved r \<and> \<not> rzCommitted r \<longrightarrow> rzFence r \<noteq> f)"
proof -
  have ok: "fences_ok s" by (rule fences_ok_reach [OF assms(1,2)])
  have x: "held_fence s (SFiber x) = Some f" using assms(3) by (simp add: Ledger_Fiber_def)
  have "a = SFiber x" if "held_fence s a = Some f" for a
    using ok that x unfolding fences_ok_def by blast
  from this [of "SFiber y"] this [of "SClone i"] show ?thesis
    by (auto simp: Ledger_Fiber_def)
qed

text \<open>
  C21. A session never runs twice: in any interleaving, two fibers of the same named session are
  one fiber, a running session's handle names a fiber of the ledger that carries the session's own
  fence, and a fiber that names a session is that session's current fiber, as long as fewer than
  2^64 fences were minted since boot.
\<close>

theorem session_runs_once:
  assumes "reach strict s" "length (sMinted s) < 2 ^ 64"
  shows "(\<forall>x y ref ref'. map_of (lFibers (sL s)) x = Some ref \<and> map_of (lFibers (sL s)) y = Some ref' \<and>
            rSessionKey ref = rSessionKey ref' \<and> rSessionKey ref \<noteq> [] \<longrightarrow> x = y) \<and>
    (\<forall>k t. map_of (lSessions (sL s)) k = Some t \<and> sState t = StateRunning \<longrightarrow>
       Ledger_Fiber (sL s) (hID (sHandle t)) = Some (sFence t) \<and>
       FiberSession (sL s) (hID (sHandle t)) = sName t)"
proof -
  have ok: "ledger_ok (sL s)" by (rule sys_okD(2) [OF sys_ok_reach [OF assms]])
  have "x = y" if "map_of (lFibers (sL s)) x = Some ref" "map_of (lFibers (sL s)) y = Some ref'"
      "rSessionKey ref = rSessionKey ref'" "rSessionKey ref \<noteq> []" for x y ref ref'
    using ledger_okD(5) [OF ok that(1)] ledger_okD(5) [OF ok that(2)] that(3,4)
    by (auto simp: fiber_ok_def)
  moreover have "Ledger_Fiber (sL s) (hID (sHandle t)) = Some (sFence t) \<and>
      FiberSession (sL s) (hID (sHandle t)) = sName t"
    if k: "map_of (lSessions (sL s)) k = Some t" and run: "sState t = StateRunning" for k t
  proof -
    have so: "session_ok (sL s) k t" by (rule ledger_okD(4) [OF ok k])
    then obtain ref where "map_of (lFibers (sL s)) (hID (sHandle t)) = Some ref"
      "rSessionKey ref = k" "rFence ref = sFence t"
      using run by (auto simp: session_ok_def)
    moreover have "k \<noteq> []" using so by (simp add: session_ok_def)
    ultimately show ?thesis
      using k by (simp add: Ledger_Fiber_def FiberSession_def ref_session_def)
  qed
  ultimately show ?thesis by blast
qed


section \<open>Stale resolutions\<close>

text \<open>Once an entry is no longer its UID's current one, it never is again: re-admission allocates.\<close>

definition stale :: "Ledger \<Rightarrow> resolution \<Rightarrow> bool" where
  "stale l r \<longleftrightarrow> rzEntry r < length (lEntries l) \<and> fEpoch (rzFence r) \<le> lEpoch l \<and>
     (map_of (lGrants l) (rzGrantUID r) \<noteq> Some (rzEntry r) \<or> fEpoch (rzFence r) < lEpoch l)"

lemma stale_cong:
  "stale l r \<Longrightarrow> lGrants m = lGrants l \<Longrightarrow> length (lEntries m) = length (lEntries l) \<Longrightarrow> lEpoch l \<le> lEpoch m \<Longrightarrow>
   stale m r"
  by (auto simp: stale_def)

lemma stale_AdmitGrant: "stale l r \<Longrightarrow> stale (AdmitGrant l g) r"
  by (auto simp: stale_def AdmitGrant_def gomap split: option.splits)

lemma stale_RevokeGrant: "stale l r \<Longrightarrow> stale (RevokeGrant l uid) r"
  by (auto simp: stale_def gomap)

lemma unlock_frame:
  "lGrants (res_unlock l r) = lGrants l" "length (lEntries (res_unlock l r)) = length (lEntries l)"
  "lEpoch (res_unlock l r) = lEpoch l"
  using same_but_gates_frame [OF gates_only(4)] by (simp_all add: res_unlock_def)

lemma stale_step:
  assumes "step strict s s'" "sys_ok s" "stale (sL s) r"
  shows "stale (sL s') r"
  using assms
proof (induction rule: step.induct)
  case (commit s i r2 name h refuse l r' ok)
  have "lGrants l = lGrants (sL s) \<and> lEntries l = lEntries (sL s) \<and> lEpoch l = lEpoch (sL s)"
  proof (cases ok)
    case True
    have "hID (sHandle (clone_session r2 name h)) \<noteq> []" using commit by (simp add: clone_session_def)
    from commit_shape [OF commit(5) [unfolded True [THEN eqTrueI]] this] show ?thesis by simp
  next
    case False
    with commit(5) show ?thesis by (auto dest: commit_refused_unchanged)
  qed
  with commit show ?case by (auto intro: stale_cong)
next
  case (resolve_named s i uid name now tier l r2)
  have "lGrants l = lGrants (sL s) \<and> length (lEntries l) = length (lEntries (sL s)) \<and> lEpoch l = lEpoch (sL s)"
    using ledger_okD(2) [OF sys_okD(2) [OF resolve_named(4)]] resolve_named(3)
    by (cases rule: resolveHeld_cases) (simp_all add: minted_frame)
  with resolve_named show ?case by (auto simp: resolved_def intro: stale_cong)
next
  case (resolve_anonymous s i now uid tier l r2)
  have "lGrants l = lGrants (sL s) \<and> length (lEntries l) = length (lEntries (sL s)) \<and> lEpoch l = lEpoch (sL s)"
    using ledger_okD(2) [OF sys_okD(2) [OF resolve_anonymous(3)]] resolve_anonymous(2)
    by (cases rule: resolveHeld_cases) (simp_all add: minted_frame)
  with resolve_anonymous show ?case by (auto simp: resolved_def intro: stale_cong)
next
  case (restore s ss l)
  then show ?case by (auto simp: restoreParked_shape(3) [OF restore(1)] intro: stale_cong)
qed (auto simp: unlock_frame intro: stale_AdmitGrant stale_RevokeGrant stale_cong)

lemma stale_steps:
  assumes "steps strict s s'" "reach strict s" "length (sMinted s') < 2 ^ 64" "stale (sL s) r"
  shows "stale (sL s') r"
  using assms
proof (induction rule: steps.induct)
  case (steps_step s s' s'')
  have few: "length (sMinted s') < 2 ^ 64" by (rule le_less_trans [OF minted_grows [OF steps_step(2)] steps_step(5)])
  have "sys_ok s'" by (rule sys_ok_reach [OF reach_steps [OF steps_step(4,1)] few])
  then show ?case by (rule stale_step [OF steps_step(2) _ steps_step(3) [OF steps_step(4) few steps_step(6)]])
qed

text \<open>
  C22. A clone whose grant was revoked, or whose epoch moved, after it resolved never commits, however
  long it waits and even if the same UID is admitted again meanwhile: every later commit of that
  resolution is refused and leaves the ledger as it was, as long as fewer than 2^64 fences were
  minted since boot.
\<close>

theorem stale_clone_refused:
  assumes "reach strict s" "steps strict s s'" "length (sMinted s') < 2 ^ 64"
    and "map_of (sOps s) i = Some (Resolved r name)" "rzReserved r"
    and "Ledger_Grant (sL s) (rzGrantUID r) = None \<or> fEpoch (rzFence r) \<noteq> lEpoch (sL s)"
  shows "res_commit (sL s') r refuse (clone_session r name h) = (sL s', r, False)"
proof -
  have "length (sMinted s) \<le> length (sMinted s')"
    using assms(2) by (induction rule: steps.induct) (auto dest: minted_grows)
  then have "sys_ok s" using sys_ok_reach [OF assms(1)] assms(3) by simp
  then have "res_ok (sL s) r name" by (rule sys_okD(4) [OF _ assms(4)])
  with assms(5,6) have "stale (sL s) r" by (auto simp: stale_def res_ok_def Ledger_Grant_def)
  from stale_steps [OF assms(2,1,3) this] show ?thesis
    by (auto simp: stale_def res_commit_def commit_refused_def clone_session_def)
qed

section \<open>Capacity\<close>

definition open_at :: "nat \<Rightarrow> gop \<Rightarrow> bool" where
  "open_at p q = (case q of
     Resolved r name \<Rightarrow> rzReserved r \<and> \<not> rzCommitted r \<and> rzEntry r = p | _ \<Rightarrow> False)"

definition open_on :: "(nat, gop) gomap \<Rightarrow> nat \<Rightarrow> nat" where
  "open_on ops p = map_count (\<lambda>i q. open_at p q) ops"

text \<open>An admitted grant's \<open>live\<close> is its fibers and its clones in flight, and stays under \<open>FiberMax\<close>.\<close>

definition live_at :: "grantEntry \<Rightarrow> nat \<Rightarrow> nat \<Rightarrow> bool" where
  "live_at e f n \<longleftrightarrow> eLive e = int f + int n \<and>
     (gFiberMax (eGrant e) > 0 \<longrightarrow> int f + int n \<le> gFiberMax (eGrant e))"

definition live_ok :: "Ledger \<Rightarrow> (nat, gop) gomap \<Rightarrow> bool" where
  "live_ok l ops \<longleftrightarrow>
     (\<forall>uid p. map_of (lGrants l) uid = Some p \<longrightarrow> live_at (entry l p) (fibers_under l uid) (open_on ops p))"

lemma live_okD:
  "live_ok l ops \<Longrightarrow> map_of (lGrants l) uid = Some p \<Longrightarrow> live_at (entry l p) (fibers_under l uid) (open_on ops p)"
  by (simp add: live_ok_def)

lemma live_okI:
  assumes "\<And>uid p. map_of (lGrants l) uid = Some p \<Longrightarrow> live_at (entry l p) (fibers_under l uid) (open_on ops p)"
  shows "live_ok l ops"
  using assms by (simp add: live_ok_def)

lemma live_ok_cong:
  assumes "live_ok l ops" "lGrants m = lGrants l" "lFibers m = lFibers l"
    "\<And>p. open_on ops' p = open_on ops p"
    "\<And>uid p. map_of (lGrants l) uid = Some p \<Longrightarrow> eLive (entry m p) = eLive (entry l p)"
    "\<And>uid p. map_of (lGrants l) uid = Some p \<Longrightarrow> eGrant (entry m p) = eGrant (entry l p)"
  shows "live_ok m ops'"
proof (rule live_okI)
  fix uid p assume "map_of (lGrants m) uid = Some p"
  then have l: "map_of (lGrants l) uid = Some p" by (simp add: assms(2))
  show "live_at (entry m p) (fibers_under m uid) (open_on ops' p)"
    using live_okD [OF assms(1) l] assms(5,6) [OF l]
    by (simp add: live_at_def assms(4) fibers_under_def assms(3))
qed

lemma live_ok_admit:
  assumes live: "live_ok l ops" and ok: "ledger_ok l" and may: "may_admit True l g"
    and ops: "open_on ops (length (lEntries l)) = 0"
  shows "live_ok (AdmitGrant l g) ops"
proof (cases "map_of (lGrants l) (gUID g)")
  case None
  show ?thesis
  proof (rule live_okI)
    fix uid p assume up: "map_of (lGrants (AdmitGrant l g)) uid = Some p"
    have f: "fibers_under (AdmitGrant l g) uid = fibers_under l uid" by (simp add: fibers_under_def)
    show "live_at (entry (AdmitGrant l g) p) (fibers_under (AdmitGrant l g) uid) (open_on ops p)"
    proof (cases "uid = gUID g")
      case True
      with up None have p: "p = length (lEntries l)" by (simp add: AdmitGrant_def gomap)
      have "fibers_under l uid = 0" using may None True by (simp add: may_admit_def Ledger_Grant_def)
      moreover have "eLive (entry (AdmitGrant l g) p) = 0"
        using None p by (simp add: AdmitGrant_def entry_def)
      ultimately show ?thesis using p ops f by (simp add: live_at_def)
    next
      case False
      with up None have l: "map_of (lGrants l) uid = Some p" by (simp add: AdmitGrant_def gomap)
      have "entry (AdmitGrant l g) p = entry l p"
        using ledger_okD(6) [OF ok l] None by (simp add: AdmitGrant_def entry_def nth_append)
      with live_okD [OF live l] f show ?thesis by simp
    qed
  qed
next
  case (Some q)
  have fixed: "gFiberMax g = gFiberMax (eGrant (entry l q))"
    using may Some by (simp add: may_admit_def Ledger_Grant_def fixed_fields_kept)
  have e: "entry (AdmitGrant l g) p = (if p = q then (entry l q)\<lparr>eGrant := g\<rparr> else entry l p)" for p
    using ledger_okD(6) [OF ok Some] Some by (simp add: AdmitGrant_def entry_set_entry)
  show ?thesis
  proof (rule live_okI)
    fix uid p assume "map_of (lGrants (AdmitGrant l g)) uid = Some p"
    then have l: "map_of (lGrants l) uid = Some p" using Some by (simp add: AdmitGrant_def)
    show "live_at (entry (AdmitGrant l g) p) (fibers_under (AdmitGrant l g) uid) (open_on ops p)"
      using live_okD [OF live l] fixed by (auto simp: e live_at_def fibers_under_def)
  qed
qed

lemma live_ok_revoke: "live_ok l ops \<Longrightarrow> live_ok (RevokeGrant l uid) ops"
  by (auto simp: live_ok_def fibers_under_def gomap)

text \<open>Dropping a fiber takes one from its grant's count and one from its entry.\<close>

lemma live_ok_drop:
  assumes live: "live_ok l ops" and ok: "ledger_ok l" and ref: "map_of (lFibers l) fid = Some ref"
    and m: "lGrants m = lGrants l" "lFibers m = AList.delete fid (lFibers l)"
      "\<And>q. entry m q = entry (drop_fiber l fid ref) q"
  shows "live_ok m ops"
proof (rule live_okI)
  fix uid p assume "map_of (lGrants m) uid = Some p"
  then have up: "map_of (lGrants l) uid = Some p" by (simp add: m)
  have f: "fibers_under m uid + (if rGrantUID ref = uid then 1 else 0) = fibers_under l uid"
    using map_count_del [OF ledger_ok_wf(3) [OF ok] ref, of "\<lambda>x ref. rGrantUID ref = uid"]
    by (simp add: fibers_under_def m(2))
  have "map_of (lGrants l) (rGrantUID ref) = Some p \<longleftrightarrow> rGrantUID ref = uid"
    using up ledger_okD(6) [OF ok, of _ p] by metis
  then have e: "entry m p =
      (if rGrantUID ref = uid then (entry l p)\<lparr>eLive := eLive (entry l p) - 1\<rparr> else entry l p)"
    by (simp add: m(3) entry_drop_fiber [OF ledger_okD(2) [OF ok]])
  show "live_at (entry m p) (fibers_under m uid) (open_on ops p)"
    using live_okD [OF live up] f by (auto simp: e live_at_def split: if_splits)
qed

lemma live_ok_OnPark:
  assumes live: "live_ok l ops" and ok: "ledger_ok l"
  shows "live_ok (fst (OnPark l fid d)) ops"
proof (cases "map_of (lFibers l) fid")
  case (Some ref)
  have "lFibers (fst (OnPark l fid d)) = AList.delete fid (lFibers l)"
    "entry (fst (OnPark l fid d)) q = entry (drop_fiber l fid ref) q" for q
    using Some by (simp_all add: OnPark_def Let_def split: option.splits)
  then show ?thesis by (intro live_ok_drop [OF live ok Some]) simp_all
qed (simp add: OnPark_unknown live)

lemma live_ok_onGone:
  assumes live: "live_ok l ops" and ok: "ledger_ok l"
  shows "live_ok (fst (onGone l fid)) ops"
proof (cases "map_of (lFibers l) fid")
  case (Some ref)
  have "lFibers (fst (onGone l fid)) = AList.delete fid (lFibers l)"
    "entry (fst (onGone l fid)) q = entry (drop_fiber l fid ref) q" for q
    using Some by (simp_all add: onGone_def Let_def split: option.splits prod.splits)
  then show ?thesis by (intro live_ok_drop [OF live ok Some]) simp_all
qed (simp add: onGone_unknown live)

lemma open_on_put:
  assumes "wf_map ops" "map_of ops i = Some q"
  shows "open_on (AList.update i q' ops) p + (if open_at p q then 1 else 0) =
    open_on ops p + (if open_at p q' then 1 else 0)"
  using map_count_put_known [OF assms, of "\<lambda>i q. open_at p q"] by (simp add: open_on_def)

lemma open_on_put_fresh:
  "map_of ops i = None \<Longrightarrow> open_on (AList.update i q ops) p = open_on ops p + (if open_at p q then 1 else 0)"
  by (simp add: open_on_def map_count_put_fresh)

lemma open_on_del:
  assumes "wf_map ops" "map_of ops i = Some q"
  shows "open_on (AList.delete i ops) p + (if open_at p q then 1 else 0) = open_on ops p"
  using map_count_del [OF assms, of "\<lambda>i q. open_at p q"] by (simp add: open_on_def)

lemma open_on_bound:
  assumes "sys_ok s"
  shows "open_on (sOps s) (length (lEntries (sL s))) = 0"
proof -
  have "\<not> open_at (length (lEntries (sL s))) q" if "(i, q) \<in> set (sOps s)" for i q
  proof (cases q)
    case (Resolved r name)
    with that have "map_of (sOps s) i = Some (Resolved r name)"
      using sys_okD(1) [OF assms] by (simp add: map_of_is_SomeI)
    then have "res_ok (sL s) r name" by (rule sys_okD(4) [OF assms])
    with Resolved show ?thesis by (simp add: open_at_def res_ok_def)
  qed (simp_all add: open_at_def)
  then show ?thesis by (auto simp: open_on_def map_count_eq_0)
qed

lemma live_ok_minted:
  assumes live: "live_ok l ops" and ok: "ledger_ok l" and m: "minted l q u l' r" and g: "map_of (lGrants l) u = Some q"
    and ops: "\<And>p. open_on ops' p = open_on ops p + (if p = q then 1 else 0)"
  shows "live_ok l' ops'"
proof (rule live_okI)
  fix uid p assume "map_of (lGrants l') uid = Some p"
  then have up: "map_of (lGrants l) uid = Some p" by (simp add: minted_frame [OF m])
  have f: "fibers_under l' uid = fibers_under l uid" by (simp add: fibers_under_def minted_frame [OF m])
  have q: "q < length (lEntries l)" using ledger_okD(6) [OF ok g] by simp
  have "gFiberMax (eGrant (entry l q)) > 0 \<Longrightarrow> eLive (entry l q) < gFiberMax (eGrant (entry l q))"
    using m by (simp add: minted_def)
  with live_okD [OF live up] show "live_at (entry l' p) (fibers_under l' uid) (open_on ops' p)"
    by (auto simp: minted_entry [OF m q] ops f live_at_def)
qed

lemma live_ok_resolved:
  assumes live: "live_ok (sL s) (sOps s)" and ok: "sys_ok s"
    and res: "resolveHeld (sL s) now hold uid name tier = (l, Inr r)"
    and i: "map_of (sOps s) i = None \<or> (\<exists>k. map_of (sOps s) i = Some (Holding k))"
  shows "live_ok (sL (resolved s i l r name)) (sOps (resolved s i l r name))"
proof -
  have put: "open_on (AList.update i (Resolved r name) (sOps s)) p =
      open_on (sOps s) p + (if open_at p (Resolved r name) then 1 else 0)" for p
    using i
  proof
    assume "\<exists>k. map_of (sOps s) i = Some (Holding k)"
    then obtain k where "map_of (sOps s) i = Some (Holding k)" ..
    from open_on_put [OF sys_okD(1) [OF ok] this, of "Resolved r name" p] show ?thesis
      by (simp add: open_at_def)
  qed (simp add: open_on_put_fresh)
  have mint: "live_ok l (AList.update i (Resolved r name) (sOps s))"
    if m: "minted (sL s) p uid l r" and a: "admits (sL s) now uid tier p" and e: "rzEntry r = p" for p
  proof -
    have g: "map_of (lGrants (sL s)) uid = Some p" using a by (simp add: admits_def)
    show ?thesis
      by (rule live_ok_minted [OF live sys_okD(2) [OF ok] m g])
        (use m e in \<open>auto simp: put open_at_def minted_def\<close>)
  qed
  show ?thesis
    using ledger_okD(2) [OF sys_okD(2) [OF ok]] res
  proof (cases rule: resolveHeld_cases)
    case (attach p t r')
    then have "\<not> open_at q (Resolved r name)" for q by (simp add: open_at_def)
    with put have "open_on (AList.update i (Resolved r name) (sOps s)) q = open_on (sOps s) q" for q by simp
    with attach have "live_ok l (AList.update i (Resolved r name) (sOps s))"
      by (intro live_ok_cong [OF live]) simp_all
    then show ?thesis by (simp add: resolved_def)
  qed (auto simp: resolved_def intro: mint)
qed

lemma live_ok_commit:
  assumes live: "live_ok (sL s) (sOps s)" and ok: "sys_ok s"
    and i: "map_of (sOps s) i = Some (Resolved r name)" and rz: "rzReserved r" "\<not> rzCommitted r"
    and h: "hID h \<noteq> []" "map_of (lFibers (sL s)) (hID h) = None"
    and com: "res_commit (sL s) r refuse (clone_session r name h) = (l, r', True)"
  shows "live_ok l (AList.update i (Resolved r' name) (sOps s))"
proof -
  have hid: "hID (sHandle (clone_session r name h)) \<noteq> []" using h by (simp add: clone_session_def)
  note sh = commit_shape [OF com hid]
  have cur: "map_of (lGrants (sL s)) (rzGrantUID r) = Some (rzEntry r)"
    using sh(10) by (simp add: commit_refused_def)
  have o: "open_on (AList.update i (Resolved r' name) (sOps s)) p + (if p = rzEntry r then 1 else 0) =
      open_on (sOps s) p" for p
    using open_on_put [OF sys_okD(1) [OF ok] i, of "Resolved r' name" p] rz
    by (auto simp: open_at_def sh(9) split: if_splits)
  have f: "fibers_under l uid = fibers_under (sL s) uid + (if uid = rzGrantUID r then 1 else 0)" for uid
    using map_count_put_fresh [OF h(2), of "\<lambda>fid ref. rGrantUID ref = uid"]
    by (auto simp: fibers_under_def sh(7) clone_session_def)
  show ?thesis
  proof (rule live_okI)
    fix uid p assume "map_of (lGrants l) uid = Some p"
    then have up: "map_of (lGrants (sL s)) uid = Some p" by (simp add: sh)
    have "uid = rzGrantUID r \<longleftrightarrow> p = rzEntry r"
      using up cur ledger_okD(6) [OF sys_okD(2) [OF ok], of _ p] by (metis option.inject)
    with live_okD [OF live up] o [of p] f [of uid]
    show "live_at (entry l p) (fibers_under l uid) (open_on (AList.update i (Resolved r' name) (sOps s)) p)"
      by (auto simp: live_at_def sh(6) split: if_splits)
  qed
qed

lemma live_ok_unlock:
  assumes live: "live_ok (sL s) (sOps s)" and ok: "sys_ok s"
    and i: "map_of (sOps s) i = Some (Resolved r name)"
  shows "live_ok (res_unlock (sL s) r) (AList.delete i (sOps s))"
proof (rule live_okI)
  fix uid p assume "map_of (lGrants (res_unlock (sL s) r)) uid = Some p"
  then have up: "map_of (lGrants (sL s)) uid = Some p" by (simp add: unlock_frame)
  have len: "rzEntry r < length (lEntries (sL s))"
    using sys_okD(4) [OF ok i] by (simp add: res_ok_def)
  have e: "entry (res_unlock (sL s) r) p =
      (if open_at p (Resolved r name) then (entry (sL s) p)\<lparr>eLive := eLive (entry (sL s) p) - 1\<rparr>
       else entry (sL s) p)"
    using same_but_gates_frame(7) [OF gates_only(4)]
    by (auto simp: res_unlock_def open_at_def entry_add_live [OF len])
  have f: "fibers_under (res_unlock (sL s) r) uid = fibers_under (sL s) uid"
    by (simp add: fibers_under_def)
  show "live_at (entry (res_unlock (sL s) r) p) (fibers_under (res_unlock (sL s) r) uid)
      (open_on (AList.delete i (sOps s)) p)"
    using live_okD [OF live up] open_on_del [OF sys_okD(1) [OF ok] i, of p]
    by (auto simp: live_at_def e f split: if_splits)
qed

lemma live_ok_gate:
  assumes live: "live_ok (sL s) (sOps s)" and g: "same_but_gates (sL s) m"
    and o: "\<And>p. open_on ops p = open_on (sOps s) p"
  shows "live_ok m ops"
  by (rule live_ok_cong [OF live]) (simp_all add: same_but_gates_frame [OF g] o)

lemma live_ok_SetPooled:
  assumes "live_ok l ops" "ledger_ok l"
  shows "live_ok (fst (SetPooled l uid n)) ops"
proof (cases "map_of (lGrants l) uid")
  case (Some p)
  then have "p < length (lEntries l)" using ledger_okD(6) [OF assms(2)] by simp
  with Some show ?thesis by (intro live_ok_cong [OF assms(1)]) (auto simp: SetPooled_def entry_set_entry)
qed (simp add: SetPooled_def assms)

lemma fibers_under_SetFiberW: "wf_map (lFibers l) \<Longrightarrow> fibers_under (SetFiberW l fid b) uid = fibers_under l uid"
proof (cases "map_of (lFibers l) fid")
  case (Some ref)
  assume "wf_map (lFibers l)"
  from map_count_put_known [OF this Some, of "\<lambda>x ref. rGrantUID ref = uid" "ref\<lparr>rWUsed := b\<rparr>"] Some
  show ?thesis by (auto simp: fibers_under_def SetFiberW_def split: if_splits)
qed (simp add: SetFiberW_def)

lemma live_ok_SetFiberW:
  assumes "live_ok l ops" "ledger_ok l"
  shows "live_ok (SetFiberW l fid b) ops"
  using assms fibers_under_SetFiberW [OF ledger_ok_wf(3) [OF assms(2)]] by (simp add: live_ok_def)

lemma live_ok_step:
  assumes "step True s s'" "sys_ok s" "ids_fresh s" "live_ok (sL s) (sOps s)"
  shows "live_ok (sL s') (sOps s')"
  using assms
proof (induction rule: step.induct)
  case (commit s i r name h refuse l r' ok)
  show ?case
  proof (cases ok)
    case True
    have h: "hID h \<noteq> []" "map_of (lFibers (sL s)) (hID h) = None"
      using commit(1-4,7) by (auto simp: ids_fresh_def)
    with True commit live_ok_commit [OF commit(8,6,1-3) h] show ?thesis by simp
  next
    case False
    with commit(5) have "l = sL s" "r' = r" by (auto dest: commit_refused_unchanged)
    moreover have "open_on (AList.update i (Resolved r name) (sOps s)) p = open_on (sOps s) p" for p
      using open_on_put [OF sys_okD(1) [OF commit(6)] commit(1), of "Resolved r name" p] by simp
    ultimately show ?thesis using commit(8) by (simp add: live_ok_def)
  qed
next
  case (wait s i key)
  then show ?case by (simp add: live_ok_gate open_on_put_fresh open_at_def)
next
  case (lock s i key)
  then show ?case
    using open_on_put [OF sys_okD(1) [OF lock(3)] lock(1), of "Holding key"]
    by (simp add: live_ok_gate open_at_def)
next
  case (drop s i key)
  then show ?case
    using open_on_del [OF sys_okD(1) [OF drop(2)] drop(1)] by (simp add: live_ok_gate open_at_def)
next
  case (restore s ss l)
  then show ?case
    by (auto simp: restoreParked_shape(3) [OF restore(1)] intro!: live_ok_cong [of "sL s" "sOps s"])
next
  case (bump s epoch)
  then show ?case by (auto intro: live_ok_cong)
next
  case (forget s uid session)
  then show ?case by (auto intro: live_ok_cong)
qed (auto intro: live_ok_admit open_on_bound live_ok_revoke live_ok_OnPark live_ok_onGone live_ok_SetPooled
    live_ok_SetFiberW live_ok_resolved live_ok_unlock dest: sys_okD)

lemma live_ok_reach: "reach True s \<Longrightarrow> length (sMinted s) < 2 ^ 64 \<Longrightarrow> live_ok (sL s) (sOps s)"
proof (induction rule: reach.induct)
  case (reach_init epoch)
  show ?case by (simp add: live_ok_def sys_init_def NewLedger_def)
next
  case (reach_step s s')
  have few: "length (sMinted s) < 2 ^ 64" by (rule le_less_trans [OF minted_grows [OF reach_step(2)] reach_step(4)])
  show ?case
    by (rule live_ok_step [OF reach_step(2) reach_ok(1,5) [OF reach_step(1) few] reach_step(3) [OF few]])
qed

text \<open>
  C25. While a UID is admitted anew only once none of its earlier fibers is left, an admitted
  grant's \<open>live\<close> counter is exactly its running fibers plus its clones between resolve and
  unlock, in any interleaving of fewer than 2^64 mints; so a grant with \<open>FiberMax\<close> set never has
  more fibers than that.
\<close>

theorem capacity_respected:
  assumes "reach True s" "length (sMinted s) < 2 ^ 64" "map_of (lGrants (sL s)) uid = Some p"
  shows "eLive (entry (sL s) p) = int (fibers_under (sL s) uid) + int (open_on (sOps s) p) \<and>
    (gFiberMax (eGrant (entry (sL s) p)) > 0 \<longrightarrow>
       int (fibers_under (sL s) uid) \<le> gFiberMax (eGrant (entry (sL s) p)))"
  using live_okD [OF live_ok_reach [OF assms(1,2)] assms(3)] by (auto simp: live_at_def)

section \<open>Runs that can be evaluated\<close>

text \<open>Each step as a function that takes it when its guard holds and stays put otherwise.\<close>

definition do_admit :: "bool \<Rightarrow> Grant \<Rightarrow> sys \<Rightarrow> sys" where
  "do_admit strict g s = (if may_admit strict (sL s) g then s\<lparr>sL := AdmitGrant (sL s) g\<rparr> else s)"

definition do_revoke :: "string \<Rightarrow> sys \<Rightarrow> sys" where
  "do_revoke uid s = s\<lparr>sL := RevokeGrant (sL s) uid\<rparr>"

definition do_gone :: "string \<Rightarrow> sys \<Rightarrow> sys" where
  "do_gone fid s = s\<lparr>sL := fst (onGone (sL s) fid)\<rparr>"

definition do_gate :: "nat \<Rightarrow> string \<Rightarrow> sys \<Rightarrow> sys" where
  "do_gate i key s =
     (if map_of (sOps s) i = None
      then s\<lparr>sL := gate_enter (sL s) key, sOps := AList.update i (Waiting key) (sOps s)\<rparr> else s)"

definition do_lock :: "nat \<Rightarrow> string \<Rightarrow> sys \<Rightarrow> sys" where
  "do_lock i key s =
     (if map_of (sOps s) i = Some (Waiting key) \<and> gate_free (sL s) key
      then s\<lparr>sL := gate_lock (sL s) key, sOps := AList.update i (Holding key) (sOps s)\<rparr> else s)"

definition do_resolve :: "nat \<Rightarrow> string \<Rightarrow> string \<Rightarrow> Tier \<Rightarrow> sys \<Rightarrow> sys" where
  "do_resolve i uid name tier s =
     (if (if name = [] then map_of (sOps s) i = None
          else map_of (sOps s) i = Some (Holding (session_key uid name)))
      then (case resolveHeld (sL s) 1 (if name = [] then None else Some (session_key uid name)) uid name tier of
              (l, Inr r) \<Rightarrow> resolved s i l r name
            | (l, Inl e) \<Rightarrow> s)
      else s)"

definition do_commit :: "nat \<Rightarrow> sys \<Rightarrow> sys" where
  "do_commit i s =
     (case map_of (sOps s) i of
        Some (Resolved r name) \<Rightarrow>
          if rzReserved r \<and> \<not> rzCommitted r
          then (case res_commit (sL s) r False
                   (clone_session r name \<lparr>hID = Fence_String (rzFence r), hEndpoint = [], hPooled = False\<rparr>) of
                  (l, r', ok) \<Rightarrow> s\<lparr>sL := l, sOps := AList.update i (Resolved r' name) (sOps s)\<rparr>)
          else s
      | _ \<Rightarrow> s)"

definition do_unlock :: "nat \<Rightarrow> sys \<Rightarrow> sys" where
  "do_unlock i s =
     (case map_of (sOps s) i of
        Some (Resolved r name) \<Rightarrow> s\<lparr>sL := res_unlock (sL s) r, sOps := AList.delete i (sOps s)\<rparr>
      | _ \<Rightarrow> s)"

definition do_clone :: "nat \<Rightarrow> string \<Rightarrow> sys \<Rightarrow> sys" where
  "do_clone i uid s = do_unlock i (do_commit i (do_resolve i uid [] TierWarm s))"

lemma reach_do:
  assumes "reach strict s"
  shows "reach strict (do_admit strict g s)" "reach strict (do_revoke uid s)" "reach strict (do_gone fid s)"
    "reach strict (do_gate i key s)" "reach strict (do_lock i key s)"
    "reach strict (do_resolve i uid name tier s)" "reach strict (do_commit i s)"
    "reach strict (do_unlock i s)"
proof -
  show "reach strict (do_admit strict g s)" "reach strict (do_revoke uid s)" "reach strict (do_gone fid s)"
    "reach strict (do_gate i key s)" "reach strict (do_lock i key s)"
    using assms by (auto simp: do_admit_def do_revoke_def do_gone_def do_gate_def do_lock_def
        intro: reach_step step.intros)
  show "reach strict (do_resolve i uid name tier s)"
    using assms by (auto simp: do_resolve_def split: prod.splits sum.splits intro: reach_step step.intros)
  show "reach strict (do_commit i s)"
    using assms
    by (auto simp: do_commit_def split: prod.splits option.splits gop.splits intro!: reach_step [OF _ step.commit])
  show "reach strict (do_unlock i s)"
    using assms
    by (auto simp: do_unlock_def split: option.splits gop.splits intro: reach_step step.intros)
qed

lemma reach_do_clone: "reach strict s \<Longrightarrow> reach strict (do_clone i uid s)"
  by (simp add: do_clone_def reach_do)

definition race_state :: sys where
  "race_state =
     (let g = sample_grant\<lparr>gFiberMax := 1\<rparr>;
          yielding = do_revoke ''g-1'' (do_clone 0 ''g-1'' (do_admit False g (sys_init 7)));
          readmitted = do_gone ''g-1/7/1'' (do_admit False g yielding)
      in do_clone 2 ''g-1'' (do_clone 1 ''g-1'' readmitted))"

text \<open>
  C27. The counter is not tied to the admission a fiber belongs to: \<open>onGone\<close> and \<open>OnPark\<close> decrement
  whatever entry the UID has when they run, and a Clone can re-admit a UID between the revocation
  and the releases of a yield. This run does so with \<open>FiberMax\<close> 1: the old fiber's release takes
  the new entry's \<open>live\<close> to -1, and the grant ends up with two running fibers.
\<close>

theorem overcommit_race:
  "reach False race_state \<and>
   map_option gFiberMax (Ledger_Grant (sL race_state) ''g-1'') = Some 1 \<and>
   fibers_under (sL race_state) ''g-1'' = 2"
proof (intro conjI)
  show "reach False race_state"
    by (simp add: race_state_def Let_def reach_do reach_do_clone reach_init)
qed code_simp+

text \<open>Two anonymous fibers and one named one, for the witnesses.\<close>

definition demo_sys :: sys where
  "demo_sys = do_clone 1 ''g-1'' (do_clone 0 ''g-1'' (do_admit True sample_grant (sys_init 7)))"

definition demo_named :: sys where
  "demo_named =
     do_commit 0 (do_resolve 0 ''g-1'' ''run'' TierWarm
       (do_lock 0 ''g-1/run'' (do_gate 0 ''g-1/run'' (do_admit True sample_grant (sys_init 7)))))"

lemma reach_demo: "reach True demo_sys" "reach True demo_named"
  by (simp_all add: demo_sys_def demo_named_def reach_do reach_do_clone reach_init)

lemma few_minted: "length (sMinted demo_sys) < 2 ^ 64" "length (sMinted demo_named) < 2 ^ 64"
proof -
  have "length (sMinted demo_sys) = 2" "length (sMinted demo_named) = 1" by code_simp+
  then show "length (sMinted demo_sys) < 2 ^ 64" "length (sMinted demo_named) < 2 ^ 64" by simp_all
qed

theorem mints_newer_witness: "Newer (sMinted demo_sys ! 1) (sMinted demo_sys ! 0)"
proof (rule mints_newer [OF reach_demo(1) few_minted(1)])
  show "1 < length (sMinted demo_sys)" by code_simp
  show "fGrantUID (sMinted demo_sys ! 0) = fGrantUID (sMinted demo_sys ! 1)" by code_simp
qed simp

theorem fence_identifies_fiber_witness:
  "Ledger_Fiber (sL demo_sys) ''g-1/7/2'' \<noteq> Ledger_Fiber (sL demo_sys) ''g-1/7/1''"
proof -
  have f: "Ledger_Fiber (sL demo_sys) ''g-1/7/1'' = Some \<lparr>fGrantUID = ''g-1'', fEpoch = 7, fSeq = 1\<rparr>" by code_simp
  from fence_identifies_fiber [OF reach_demo(1) few_minted(1) f, of "''g-1/7/2''"] f show ?thesis by auto
qed

theorem session_runs_once_witness:
  "FiberSession (sL demo_named) ''g-1/7/1'' = ''run''"
proof -
  let ?t = "the (map_of (lSessions (sL demo_named)) ''g-1/run'')"
  have t: "map_of (lSessions (sL demo_named)) ''g-1/run'' = Some ?t" "sState ?t = StateRunning"
    "hID (sHandle ?t) = ''g-1/7/1''" "sName ?t = ''run''" by code_simp+
  from session_runs_once [OF reach_demo(2) few_minted(2), THEN conjunct2, rule_format, OF conjI [OF t(1,2)]]
  show ?thesis unfolding t(3,4) by (rule conjunct2)
qed


definition demo_revoked :: sys where
  "demo_revoked =
     do_revoke ''g-1'' (do_resolve 0 ''g-1'' [] TierWarm (do_admit False sample_grant (sys_init 7)))"

definition demo_resolution :: resolution where
  "demo_resolution =
     \<lparr>rzAction = ActCreate, rzFence = \<lparr>fGrantUID = ''g-1'', fEpoch = 7, fSeq = 1\<rparr>, rzRef = [],
      rzGrantUID = ''g-1'', rzKey = ''g-1/'', rzEntry = 0, rzReserved = True, rzCommitted = False,
      rzHold = None\<rparr>"

theorem stale_clone_refused_witness:
  "snd (snd (res_commit (sL (do_admit False sample_grant demo_revoked)) demo_resolution False
     (clone_session demo_resolution [] \<lparr>hID = ''f1'', hEndpoint = [], hPooled = False\<rparr>))) = False"
proof -
  have r: "map_of (sOps demo_revoked) 0 = Some (Resolved demo_resolution [])" "rzReserved demo_resolution"
    "Ledger_Grant (sL demo_revoked) (rzGrantUID demo_resolution) = None"
    "may_admit False (sL demo_revoked) sample_grant" by code_simp+
  have reach: "reach False demo_revoked" by (simp add: demo_revoked_def reach_do reach_init)
  have "step False demo_revoked (do_admit False sample_grant demo_revoked)"
    using step.admit [OF r(4)] r(4) by (simp add: do_admit_def)
  then have st: "steps False demo_revoked (do_admit False sample_grant demo_revoked)"
    using steps_step [OF steps_refl] by blast
  have "length (sMinted (do_admit False sample_grant demo_revoked)) = 1" by code_simp
  then have few: "length (sMinted (do_admit False sample_grant demo_revoked)) < 2 ^ 64" by simp
  from stale_clone_refused [OF reach st few r(1,2) disjI1 [OF r(3)]] show ?thesis by simp
qed

theorem capacity_respected_witness:
  "eLive (entry (sL demo_sys) 0) = 2 \<and> fibers_under (sL demo_sys) ''g-1'' \<le> 2"
proof -
  have g: "map_of (lGrants (sL demo_sys)) ''g-1'' = Some 0"
    "gFiberMax (eGrant (entry (sL demo_sys) 0)) = 2" "eLive (entry (sL demo_sys) 0) = 2" by code_simp+
  from capacity_respected [OF reach_demo(1) few_minted(1) g(1)] g(2,3) show ?thesis by auto
qed

end
