(* ===== verification/Core_Protocol.thy ===== *)
theory Core_Protocol
  imports Core_Logic Ledger_Conc
begin

text \<open>
  What the core promises of a property that may depend on where its goroutine stands. A goroutine
  stands somewhere in the protocol of the session gates (\<open>gop option\<close> of theory \<open>Ledger_Conc\<close>) and
  in the one of admissions (\<open>phase\<close>: \<open>Entered\<close> its UID in \<open>a.admitting\<close>, then \<open>Vouched\<close> that the grant does
  not change the fixed fields of the one held). The locale \<open>protocol\<close> states what a property has to
  survive: the calls that the core makes into the ledger, each where the protocols allow it, and
  what other goroutines do meanwhile. Inside, every handler is shown to keep every such property,
  and to be back outside of both protocols at its end.
\<close>

datatype phase = Idle | Entered string | Vouched Grant

abbreviation on_ledger :: "'w Core \<Rightarrow> Ledger \<Rightarrow> 'w Core" where
  "on_ledger c l \<equiv> c\<lparr>cLedger := l\<rparr>"

text \<open>A grant that a token vouches for on this home.\<close>

definition vouches :: "'w Home \<Rightarrow> bytes \<Rightarrow> Grant \<Rightarrow> bool" where
  "vouches ho token g \<longleftrightarrow>
     (\<exists>vg w w'. run_state (hoVerify ho token) w = (Inr vg, w') \<and> g = vg\<lparr>gToken := token\<rparr> \<and>
        (hoNodeID ho = [] \<or> gAudience vg = hoNodeID ho))"

lemma vouchesI:
  "run_state (hoVerify ho token) w = (Inr vg, w') \<Longrightarrow> hoNodeID ho = [] \<or> gAudience vg = hoNodeID ho \<Longrightarrow>
   vouches ho token (vg\<lparr>gToken := token\<rparr>)"
  unfolding vouches_def by blast

locale protocol =
  fixes ho :: "'w Home" and good :: "Grant \<Rightarrow> bool" and I :: "gop option \<Rightarrow> phase \<Rightarrow> 'w Core \<Rightarrow> bool"
  assumes local:
    "\<lbrakk>cLedger c = cLedger c'; cAdmitting c = cAdmitting c'; cDraining c = cDraining c'; I own ph c\<rbrakk> \<Longrightarrow> I own ph c'"
    and draining: "I own ph c \<Longrightarrow> I own ph (c\<lparr>cDraining := True\<rparr>)"
    and others: "I own ph c \<Longrightarrow> I own ph (hoOthers ho c)"
    and wait_admit: "I own Idle c \<Longrightarrow> I own Idle (hoWaitAdmit ho uid c)"
    and wait_gate: "I (Some (Waiting key)) Idle c \<Longrightarrow>
      I (Some (Waiting key)) Idle (hoWaitGate ho key c) \<and> gate_free (cLedger (hoWaitGate ho key c)) key"
    and names: "run_state (rtClone (hoRuntime ho) spec) w = (Inr h, w') \<Longrightarrow> hID h = Fence_String (csFence spec)"
    and good: "vouches ho token g \<Longrightarrow> good g"
    and revoke: "I own ph c \<Longrightarrow> I own ph (on_ledger c (RevokeGrant (cLedger c) uid))"
    and bump: "I own ph c \<Longrightarrow> I own ph (on_ledger c (Ledger_BumpEpoch (cLedger c) e))"
    and parks: "I own ph c \<Longrightarrow> I own ph (on_ledger c (fst (OnPark (cLedger c) fid ref)))"
    and gone: "I own ph c \<Longrightarrow> I own ph (on_ledger c (fst (onGone (cLedger c) fid)))"
    and forget: "I own ph c \<Longrightarrow> I own ph (on_ledger c (ForgetSession (cLedger c) uid session))"
    and restore: "I own ph c \<Longrightarrow> restoreParked (cLedger c) ss = Inr l \<Longrightarrow> I own ph (on_ledger c l)"
    and pooled: "I own ph c \<Longrightarrow> I own ph (on_ledger c (fst (SetPooled (cLedger c) uid n)))"
    and measured: "I own ph c \<Longrightarrow> I own ph (on_ledger c (SetFiberW (cLedger c) fid b))"
    and enter: "I own Idle c \<Longrightarrow> map_of (cAdmitting c) uid = None \<Longrightarrow>
      I own (Entered uid) (c\<lparr>cAdmitting := AList.update uid (hoSelf ho) (cAdmitting c)\<rparr>)"
    and vouch: "I own (Entered (gUID g)) c \<Longrightarrow>
      (\<And>h. Ledger_Grant (cLedger c) (gUID g) = Some h \<Longrightarrow> \<not> changesFixedFields h g) \<Longrightarrow> I own (Vouched g) c"
    and admits: "I own (Vouched g) c \<Longrightarrow> good g \<Longrightarrow> I own (Entered (gUID g)) (on_ledger c (AdmitGrant (cLedger c) g))"
    and withdraw: "I own (Vouched g) c \<Longrightarrow> I own (Entered (gUID g)) c"
    and leave: "I own (Entered uid) c \<Longrightarrow> I own Idle (c\<lparr>cAdmitting := AList.delete uid (cAdmitting c)\<rparr>)"
    and waits: "I None ph c \<Longrightarrow> I (Some (Waiting key)) ph (on_ledger c (gate_enter (cLedger c) key))"
    and locks: "I (Some (Waiting key)) ph c \<Longrightarrow> gate_free (cLedger c) key \<Longrightarrow>
      I (Some (Holding key)) ph (on_ledger c (gate_lock (cLedger c) key))"
    and drops: "I (Some (Holding key)) ph c \<Longrightarrow> I None ph (on_ledger c (releaseSession (cLedger c) key))"
    and resolves: "I (if name = [] then None else Some (Holding (session_key uid name))) ph c \<Longrightarrow>
      resolveHeld (cLedger c) now (if name = [] then None else Some (session_key uid name)) uid name tier = (l, Inr r) \<Longrightarrow>
      I (Some (Resolved r name)) ph (on_ledger c l)"
    and commits: "I (Some (Resolved r name)) ph c \<Longrightarrow> rzReserved r \<Longrightarrow> \<not> rzCommitted r \<Longrightarrow>
      hID h = Fence_String (rzFence r) \<Longrightarrow>
      res_commit (cLedger c) r refuse (clone_session r name h) = (l, r', ok) \<Longrightarrow>
      I (Some (Resolved r' name)) ph (on_ledger c l)"
    and unlocks: "I (Some (Resolved r name)) ph c \<Longrightarrow> I None ph (on_ledger c (res_unlock (cLedger c) r))"
begin

sublocale un: unseen ho "I own ph" for own ph
  by unfold_locales (rule local others; assumption)+

lemma ledger_unit:
  "(\<And>c. I own ph c \<Longrightarrow> I own' ph (on_ledger c (f (cLedger c)))) \<Longrightarrow>
   hoare (I own ph) (ledger (\<lambda>l. (f l, ()))) (\<lambda>_. I own' ph)"
  by (rule hoare_ledger) auto

lemma ledger_fst:
  "(\<And>c. I own ph c \<Longrightarrow> I own ph (on_ledger c (fst (f (cLedger c))))) \<Longrightarrow> keeps (I own ph) (ledger f)"
  by (rule hoare_ledger) (metis fst_conv)

lemma fst_OnRelease: "fst (OnRelease l fid) = fst (onGone l fid)"
  by (simp add: OnRelease_def split: prod.splits)

lemma release_keeps: "keeps (I own ph) (ledger (\<lambda>l. OnRelease l fid))"
  by (rule ledger_fst) (simp add: fst_OnRelease gone)

lemma park_keeps: "keeps (I own ph) (ledger (\<lambda>l. OnPark l fid ref))"
  by (rule ledger_fst) (rule parks)

lemma exit_keeps: "keeps (I own ph) (ledger (\<lambda>l. OnFiberExit l fid))"
  by (rule ledger_fst) (simp add: gone)

lemma pooled_keeps: "keeps (I own ph) (ledger (\<lambda>l. SetPooled l uid n))"
  by (rule ledger_fst) (rule pooled)

lemma revoke_keeps: "keeps (I own ph) (ledger (\<lambda>l. (RevokeGrant l uid, ())))"
  by (rule ledger_unit) (rule revoke)

lemma bump_keeps: "keeps (I own ph) (ledger (\<lambda>l. (Ledger_BumpEpoch l e, ())))"
  by (rule ledger_unit) (rule bump)

lemma forget_keeps: "keeps (I own ph) (ledger (\<lambda>l. (ForgetSession l uid session, ())))"
  by (rule ledger_unit) (rule forget)

lemma measured_keeps: "keeps (I own ph) (ledger (\<lambda>l. (SetFiberW l fid b, ())))"
  by (rule ledger_unit) (rule measured)

lemma restore_keeps: "keeps (I own ph) (ledger (\<lambda>l. RestoreParked l s))"
  by (rule hoare_ledger) (auto simp: RestoreParked_def split: sum.splits intro: restore local [rotated 3])

lemma same_ledger: "on_ledger c (cLedger c) = c"
  by simp

lemma register_keeps:
  "keeps (I own ph) (ledger (\<lambda>l. case restoreParked l s of Inl e \<Rightarrow> (l, Some e) | Inr l' \<Rightarrow> (l', None)))"
  by (rule hoare_ledger) (auto split: sum.splits intro: restore)

lemmas ledgers = release_keeps park_keeps exit_keeps pooled_keeps revoke_keeps bump_keeps forget_keeps
  measured_keeps restore_keeps register_keeps

lemmas basics = un.base un.helpers ledgers

lemma syncPooled_keeps: "keeps (I own ph) (syncPooled ho uid)"
  unfolding syncPooled_def by (intro keeps basics)

lemma handedOut_keeps: "keeps (I own ph) (handedOut ho uid)"
  unfolding handedOut_def by (intro keeps basics syncPooled_keeps)

lemma pooledDied_keeps: "keeps (I own ph) (pooledDied ho uid)"
  unfolding pooledDied_def by (intro keeps basics syncPooled_keeps)

lemma DrainPool_keeps: "keeps (I own ph) (DrainPool ho uid n)"
  unfolding DrainPool_def by (intro keeps basics syncPooled_keeps)

lemma Core_Revoke_keeps: "keeps (I own ph) (Core_Revoke ho uid)"
  unfolding Core_Revoke_def by (intro keeps basics)

lemma OnExit_keeps: "keeps (I own ph) (OnExit ho ex)"
  unfolding OnExit_def by (intro keeps basics) simp

lemma sample_each_keeps: "keeps (I own ph) (sample_each ho ids tot)"
proof (induction ids arbitrary: tot)
  case (Cons fid ids)
  show ?case unfolding sample_each.simps by (intro keeps basics Cons)
qed (simp add: keeps_ret)

lemma sample_keeps: "keeps (I own ph) (sample ho)"
  unfolding sample_def by (intro keeps basics sample_each_keeps) simp

lemma restoreHeld_keeps: "keeps (I own ph) (restoreHeld uid)"
  unfolding restoreHeld_def by (intro keeps basics) simp

lemma hold_keeps: "keeps (I own ph) (hold g)"
  unfolding hold_def by (intro basics) simp

lemma holdParked_keeps: "keeps (I own ph) (holdParked s)"
  unfolding holdParked_def by (intro keeps basics) simp

lemma yield_one_keeps: "keeps (I own ph) (yield_one ho reason f)"
  unfolding yield_one_def yield_release_def by (intro keeps basics)

lemma Yield_keeps: "keeps (I own ph) (Yield ho uid reason)"
  unfolding Yield_def by (intro keeps basics Core_Revoke_keeps yield_one_keeps)

lemma Redeliver_keeps: "keeps (I own ph) (Redeliver ho uid)"
  unfolding Redeliver_def by (intro keeps basics) simp

lemma sweep_each_keeps: "keeps (I own ph) (sweep_each ho now sts)"
proof (induction sts)
  case (Cons st sts)
  show ?case unfolding sweep_each.simps by (intro keeps basics Yield_keeps Cons)
qed (simp add: keeps_ret)

lemma Sweep_keeps: "keeps (I own ph) (Sweep ho)"
  unfolding Sweep_def by (intro keeps sweep_each_keeps)

subsection \<open>Admissions\<close>

lemma wait_admit_keeps: "keeps (I own Idle) (changes (hoWaitAdmit ho uid))"
  by (rule hoare_changes) (rule wait_admit)

lemma remove_deny_keeps: "keeps (I own Idle) (remove_deny ho uid)"
  unfolding remove_deny_def by (intro keeps wait_admit_keeps basics) simp_all

lemma Remove_keeps: "keeps (I own Idle) (Remove ho uid)"
  unfolding Remove_def by (intro keeps remove_deny_keeps Yield_keeps)

lemma admit_enter_moves:
  "hoare (I own Idle) (admit_enter ho e n g) (\<lambda>d. I own (if d = None then Entered (gUID g) else Idle))"
proof (induction n)
  case 0
  show ?case
    unfolding admit_enter.simps [of ho e 0]
    by (rule hoare_bind [where R = "\<lambda>x c. I own Idle c \<and> x = (map_of (cAdmitting c) (gUID g) \<noteq> None)"])
      (auto intro!: hoare_reads hoare_if hoare_ret hoare_bind [where R = "\<lambda>_. I own (Entered (gUID g))"] hoare_changes enter)
next
  case (Suc n)
  have go: "hoare (I own Idle) (do {
      changes (hoWaitAdmit ho (gUID g));
      held \<leftarrow> looks (\<lambda>l. Ledger_Grant l (gUID g));
      if stands_in held g then ret (Some (OK, None)) else admit_enter ho e n g
    }) (\<lambda>d. I own (if d = None then Entered (gUID g) else Idle))"
    by (intro keeps_bind wait_admit_keeps keeps_looks hoare_if Suc hoare_ret) simp
  have new: "hoare (\<lambda>c. I own Idle c \<and> map_of (cAdmitting c) (gUID g) = None) (do {
      changes (\<lambda>c. c\<lparr>cAdmitting := AList.update (gUID g) (hoSelf ho) (cAdmitting c)\<rparr>); ret None
    }) (\<lambda>d. I own (if d = None then Entered (gUID g) else Idle))"
    by (rule hoare_bind [where R = "\<lambda>_. I own (Entered (gUID g))"])
      (auto intro: hoare_changes enter hoare_ret)
  show ?case
    unfolding admit_enter.simps [of ho e "Suc n"] nat.case
    by (rule hoare_bind [where R = "\<lambda>x c. I own Idle c \<and> x = (map_of (cAdmitting c) (gUID g) \<noteq> None)"])
      (auto intro: hoare_reads hoare_conseq [OF go] hoare_conseq [OF new])
qed

lemma admit_commit_moves:
  assumes "good g"
  shows "hoare (I own (Vouched g)) (admit_commit ho g fresh) (\<lambda>_. I own (Entered (gUID g)))"
proof -
  have "hoare (I own (Vouched g)) (ledger (\<lambda>l. (AdmitGrant l g, ()))) (\<lambda>_. I own (Entered (gUID g)))"
    by (rule hoare_ledger) (use assms in \<open>auto intro: admits\<close>)
  then show ?thesis
    unfolding admit_commit_def
    by (rule keeps_bind [OF un.admit_swap_keeps hoare_bind]) (intro keeps basics restoreHeld_keeps)
qed

lemma withdrawn: "keeps (I own (Vouched g)) m \<Longrightarrow> hoare (I own (Vouched g)) m (\<lambda>_. I own (Entered (gUID g)))"
  by (erule hoare_conseq) (auto intro: withdraw)

lemma admit_prepared_moves:
  assumes "good g"
  shows "hoare (I own (Vouched g)) (admit_prepared ho g fresh) (\<lambda>_. I own (Entered (gUID g)))"
proof -
  have refuse: "hoare (I own (Vouched g)) (do { admit_refuse ho (gUID g) fresh; m }) (\<lambda>_. I own (Entered (gUID g)))"
    if "\<And>ph. keeps (I own ph) m" for m :: "('w, StatusCode \<times> goerr option) act"
    by (rule withdrawn) (intro keeps basics that)
  show ?thesis
    unfolding admit_prepared_def
    by (intro keeps_bind [OF un.calls_keeps] keeps_bind [OF keeps_reads] hoare_option refuse
        hoare_bind [OF admit_commit_moves [OF assms]] keeps basics)
qed

lemma admit_vouched_moves:
  assumes "good g"
  shows "hoare (I own (Vouched g)) (admit_vouched ho g) (\<lambda>_. I own (Entered (gUID g)))"
  unfolding admit_vouched_def
  by (rule keeps_bind [OF un.admit_devices_keeps], rule hoare_sum)
    (intro withdrawn keeps basics admit_prepared_moves assms)+

lemma admit_work_moves:
  assumes "good g"
  shows "keeps (I own (Entered (gUID g))) (admit_work ho g)"
proof -
  let ?fine = "\<lambda>h c. \<not> (case h of None \<Rightarrow> False | Some h \<Rightarrow> changesFixedFields h g) \<longrightarrow> I own (Vouched g) c"
  have look: "hoare (I own (Entered (gUID g))) (looks (\<lambda>l. Ledger_Grant l (gUID g)))
      (\<lambda>h c. I own (Entered (gUID g)) c \<and> ?fine h c)"
    by (rule hoare_looks) (auto split: option.splits intro: vouch)
  show ?thesis
    unfolding admit_work_def
  proof (intro keeps_bind [OF un.denied_keeps] hoare_if)
    show "hoare (I own (Entered (gUID g))) (do {
        code \<leftarrow> missCode ho (ESentinel ErrGrantRevoked);
        ret (code, Some (wrapped ErrGrantRevoked (gUID g)))
      }) (\<lambda>_. I own (Entered (gUID g)))"
      by (intro keeps basics)
  qed (auto intro!: hoare_bind [OF look] hoare_if hoare_ret intro: hoare_conseq [OF admit_vouched_moves [OF assms]])
qed

lemma Admit_keeps:
  assumes "good g"
  shows "keeps (I own Idle) (Admit ho cx g)"
proof -
  have leave: "hoare (I own (Entered (gUID g))) (admit_leave (gUID g)) (\<lambda>_. I own Idle)"
    unfolding admit_leave_def by (rule hoare_changes) (rule leave)
  have work: "hoare (I own (Entered (gUID g))) (do { r \<leftarrow> admit_work ho g; admit_leave (gUID g); ret r }) (\<lambda>_. I own Idle)"
    by (rule keeps_bind [OF admit_work_moves [OF assms] hoare_bind [OF leave]]) (rule keeps_ret)
  show ?thesis
    unfolding Admit_def
    by (intro keeps_bind [OF un.admit_floor_keeps] hoare_option hoare_prod keeps_ret hoare_bind [OF admit_enter_moves])
      (auto intro: work keeps_ret)
qed

subsection \<open>Tokens\<close>

lemma verify_moves:
  "hoare (I own ph) (calls ho (hoVerify ho token))
     (\<lambda>r c. I own ph c \<and> (\<forall>vg. r = Inr vg \<longrightarrow> (\<exists>w w'. run_state (hoVerify ho token) w = (Inr vg, w'))))"
  by (rule hoare_calls) (auto intro: others un.in_world)

lemma reverify_moves:
  "hoare (I own ph) (reverify ho uid token) (\<lambda>r c. I own ph c \<and> (\<forall>g. r = Inr g \<longrightarrow> good g))"
  unfolding reverify_def
  by (rule hoare_bind [OF verify_moves], rule hoare_ret)
    (auto split: sum.splits if_splits intro: good [OF vouchesI])

lemma ownGrant_moves:
  "hoare (I own ph) (ownGrant ho ow g) (\<lambda>r c. I own ph c \<and> (\<forall>g. r = Inr g \<longrightarrow> good g))"
  unfolding ownGrant_def
  by (intro keeps_bind [OF keeps_clock] keeps_bind [OF keeps_reads] hoare_if hoare_option hoare_bind [OF reverify_moves])
    (auto intro!: hoare_ret split: sum.splits)

lemma clone_own_moves:
  "good g \<Longrightarrow> hoare (I own ph) (clone_own ho g) (\<lambda>r c. I own ph c \<and> (\<forall>g. r = Inr g \<longrightarrow> good g))"
  unfolding clone_own_def by (intro hoare_option ownGrant_moves hoare_ret) auto

lemma checks_vouched:
  "run_state (hoVerify ho (rqGrantJWT req)) w = (Inr vg, w') \<Longrightarrow> clone_checks ho req drain vg = Inr g \<Longrightarrow> good g"
  by (rule good [of "rqGrantJWT req"]) (auto simp: clone_checks_def Let_def split: if_splits option.splits intro: vouchesI)

lemma frontend_moves:
  "hoare (I own ph) (clone_frontend ho req) (\<lambda>r c. I own ph c \<and> (\<forall>g. r = Inr g \<longrightarrow> good g))"
proof -
  have checks: "hoare (\<lambda>c. I own ph c \<and> (\<exists>w w'. run_state (hoVerify ho (rqGrantJWT req)) w = (Inr vg, w')))
      (do { drain \<leftarrow> Draining; ret (clone_checks ho req drain vg) })
      (\<lambda>r c. I own ph c \<and> (\<forall>g. r = Inr g \<longrightarrow> good g))" for vg
    by (rule keeps_bind [OF keeps_Draining], rule hoare_ret) (auto dest: checks_vouched)
  show ?thesis
    unfolding clone_frontend_def
    by (intro hoare_if hoare_bind [OF verify_moves] hoare_sum)
      (auto intro: hoare_ret hoare_conseq [OF checks])
qed

lemma self_admit_keeps: "good g \<Longrightarrow> keeps (I own Idle) (clone_self_admit ho cx g)"
proof -
  assume g: "good g"
  have own: "hoare (\<lambda>c. I own Idle c \<and> (\<forall>g. r = Inr g \<longrightarrow> good g))
      (case r of Inl e \<Rightarrow> do { code \<leftarrow> missCode ho e; ret (Some (code, e)) }
       | Inr ag \<Rightarrow> do {
           (code, err) \<leftarrow> Admit ho cx ag;
           ret (case err of None \<Rightarrow> None | Some e \<Rightarrow> Some (code, e))
         }) (\<lambda>_. I own Idle)" for r
  proof (cases r)
    case (Inl e)
    have "keeps (I own Idle) (do { code \<leftarrow> missCode ho e; ret (Some (code, e)) })" by (intro keeps basics)
    with Inl show ?thesis by (auto intro: hoare_conseq)
  next
    case (Inr ag)
    have "keeps (I own Idle) (do {
           (code, err) \<leftarrow> Admit ho cx ag;
           ret (case err of None \<Rightarrow> None | Some e \<Rightarrow> Some (code, e))
         })" if "good ag" by (intro keeps Admit_keeps that)
    with Inr show ?thesis by (auto simp: hoare_def)
  qed
  show ?thesis
    unfolding clone_self_admit_def
    by (intro keeps_bind [OF keeps_looks] hoare_option hoare_if keeps_ret hoare_bind [OF clone_own_moves [OF g] own])
qed

lemma clone_held_keeps: "keeps (I own ph) (clone_held ho g)"
  unfolding clone_held_def by (intro keeps basics)

subsection \<open>Sessions and their gates\<close>

lemma forget_stale_keeps: "keeps (I own ph) (forget_stale ho g session ref)"
  unfolding forget_stale_def by (intro keeps basics)

lemma locate_claimed_keeps: "keeps (I own ph) (locate_claimed ho g session rd ref)"
  unfolding locate_claimed_def by (intro keeps basics)

lemma locate_remote_keeps: "keeps (I own ph) (locate_remote ho finder g session)"
  unfolding locate_remote_def by (intro keeps basics locate_claimed_keeps)

lemma locate_keeps: "keeps (I own ph) (locate ho g session)"
  unfolding locate_def by (intro keeps basics forget_stale_keeps locate_remote_keeps)

lemma hold_gate_moves:
  "hoare (I None Idle) (hold_gate ho uid session)
     (\<lambda>gate c. gate = Some (session_key uid session) \<and> I (Some (Holding (session_key uid session))) Idle c)"
  unfolding hold_gate_def Let_def
  by (rule hoare_bind [where R = "\<lambda>_. I (Some (Waiting (session_key uid session))) Idle"], rule ledger_unit, erule waits,
      rule hoare_bind [where R = "\<lambda>_ c. I (Some (Waiting (session_key uid session))) Idle c \<and> gate_free (cLedger c) (session_key uid session)"],
      rule hoare_changes, erule wait_gate,
      rule hoare_bind [where R = "\<lambda>_. I (Some (Holding (session_key uid session))) Idle"])
    (auto intro!: hoare_ledger hoare_ret intro: locks)

lemma release_gate_moves:
  "hoare (I (map_option Holding gate) ph) (release_gate gate) (\<lambda>_. I None ph)"
  unfolding release_gate_def by (rule ledger_unit) (auto simp: hold_release_def split: option.splits intro: drops)

abbreviation gate_of :: "string \<Rightarrow> string \<Rightarrow> string option" where
  "gate_of uid session \<equiv> (if session = [] then None else Some (session_key uid session))"

lemma under_gate:
  assumes "\<And>own. keeps (I own Idle) m"
  shows "keeps (I None Idle) (do { gate \<leftarrow> hold_gate ho uid session; r \<leftarrow> m; release_gate gate; ret r })"
proof (rule hoare_bind [OF hold_gate_moves])
  fix gate
  have "hoare (I (map_option Holding (Some (session_key uid session))) Idle)
      (do { r \<leftarrow> m; release_gate (Some (session_key uid session)); ret r }) (\<lambda>_. I None Idle)"
    by (rule keeps_bind [OF assms hoare_bind [OF release_gate_moves]]) (rule keeps_ret)
  then show "hoare (\<lambda>c. gate = Some (session_key uid session) \<and> I (Some (Holding (session_key uid session))) Idle c)
      (do { r \<leftarrow> m; release_gate gate; ret r }) (\<lambda>_. I None Idle)"
    by (auto simp: hoare_def)
qed

lemma clone_locate_moves:
  "hoare (I None Idle) (clone_locate ho g session)
     (\<lambda>r c. case r of Inl rf \<Rightarrow> I None Idle c
              | Inr gate \<Rightarrow> gate = gate_of (gUID g) session \<and> I (map_option Holding gate) Idle c)"
proof (cases "session = []")
  case True
  then show ?thesis by (simp add: clone_locate_def) (rule hoare_ret, simp)
next
  case False
  let ?k = "session_key (gUID g) session"
  have "hoare (I (Some (Holding ?k)) Idle) (do {
        loc \<leftarrow> locate ho g session;
        case loc of None \<Rightarrow> ret (Inr (Some ?k)) | Some refusal \<Rightarrow> do { release_gate (Some ?k); ret (Inl refusal) }
      }) (\<lambda>r c. case r of Inl rf \<Rightarrow> I None Idle c | Inr gate \<Rightarrow> gate = Some ?k \<and> I (map_option Holding gate) Idle c)"
    by (intro keeps_bind [OF locate_keeps] hoare_option)
      (auto intro!: hoare_ret hoare_bind [OF release_gate_moves [of "Some ?k", simplified]])
  with False show ?thesis
    by (simp add: clone_locate_def) (rule hoare_bind [OF hold_gate_moves], auto simp: hoare_def)
qed

subsection \<open>Clone\<close>

lemma resolve_shape:
  "resolveHeld l now gt uid name tier = (l', Inr r) \<Longrightarrow> (rzReserved r \<longleftrightarrow> rzAction r \<noteq> ActAttach) \<and> \<not> rzCommitted r"
  by (auto simp: resolveHeld_def reserve_mint_def reserve_def mint_def Let_def
      split: option.splits if_splits SessionState.splits)

lemma resolve_fails: "resolveHeld l now gt uid name tier = (l', Inl e) \<Longrightarrow> l' = l"
  by (auto simp: resolveHeld_def reserve_mint_def Let_def split: option.splits if_splits SessionState.splits sum.splits prod.splits)

lemma born_moves:
  "hoare (I own ph) (calls ho (rtClone (hoRuntime ho) (clone_spec req g r dl)))
     (\<lambda>b c. I own ph c \<and> (\<forall>h. b = Inr h \<longrightarrow> hID h = Fence_String (rzFence r)))"
  by (rule hoare_calls) (auto simp: clone_spec_def intro: others un.in_world dest: names)

lemma run_moves:
  "hoare (I own ph) (clone_run ho req g r)
     (\<lambda>b c. I own ph c \<and> (\<forall>h. b = Inr h \<longrightarrow> hID h = Fence_String (rzFence r)))"
proof -
  have pooled: "hoare (\<lambda>c. I own ph c \<and> P) (if hPooled h then handedOut ho (gUID g) else skip) (\<lambda>_ c. I own ph c \<and> P)"
    for h P using handedOut_keeps [of own ph "gUID g"] by (auto simp: hoare_def)
  show ?thesis
    unfolding clone_run_def
    by (intro keeps_bind [OF un.deadlines_keeps] hoare_bind [OF born_moves] hoare_sum hoare_bind [OF pooled] hoare_ret)
      auto
qed

lemma replay_keeps: "keeps (I own ph) (replay ho ok ex)"
  unfolding replay_def by (intro keeps OnExit_keeps)

lemma committed_keeps: "keeps (I own ph) (clone_committed ho req r h ex)"
  unfolding clone_committed_def by (intro keeps basics replay_keeps)

lemma commitHeld_moves:
  assumes "rzReserved r" "\<not> rzCommitted r" "hID h = Fence_String (rzFence r)"
  shows "hoare (I (Some (Resolved r name)) ph) (commitHeld r (clone_session r name h))
     (\<lambda>x. I (Some (Resolved (fst x) name)) ph)"
proof -
  have com: "hoare (I (Some (Resolved r name)) ph)
      (ledger (\<lambda>l. let (l', r', ok) = res_commit l r refuse (clone_session r name h) in (l', r', ok)))
      (\<lambda>x. I (Some (Resolved (fst x) name)) ph)" for refuse
    by (rule hoare_ledger) (auto split: prod.splits intro: commits [OF _ assms])
  show ?thesis
    unfolding commitHeld_def
  proof (rule keeps_bind [OF keeps_reads], rule hoare_bind [OF com], rule hoare_prod)
    fix refuse and x :: "resolution \<times> bool" and r' ok assume x: "x = (r', ok)"
    show "hoare (I (Some (Resolved (fst x) name)) ph) (do {
        ex \<leftarrow> reads (\<lambda>c. map_of (cPending c) (hID (sHandle (clone_session r name h))));
        changes (\<lambda>c. c\<lparr>cPending := AList.delete (hID (sHandle (clone_session r name h))) (cPending c)\<rparr>);
        ret (r', ok, ex)
      }) (\<lambda>x. I (Some (Resolved (fst x) name)) ph)"
      unfolding x fst_conv
      by (rule keeps_bind [OF keeps_reads], rule keeps_bind [OF un.changes_keeps], simp, rule hoare_ret, simp)
  qed
qed

lemma roll_back_moves:
  assumes "rzReserved r" "\<not> rzCommitted r" "hID h = Fence_String (rzFence r)"
  shows "hoare (I (Some (Resolved r (rqSession req))) ph) (clone_roll_back ho req r h err)
     (\<lambda>x. I (Some (Resolved (fst x) (rqSession req))) ph)"
  unfolding clone_roll_back_def
proof (intro keeps_bind [OF un.calls_keeps] hoare_if hoare_bind [OF commitHeld_moves [OF assms]] hoare_prod)
  fix x :: "resolution \<times> bool \<times> FiberExit option" and r' y ok ex
  assume x: "x = (r', y)" "y = (ok, ex)"
  show "hoare (I (Some (Resolved (fst x) (rqSession req))) ph) (do {
      replay ho ok ex; ret (r', refused (Internal, err))
    }) (\<lambda>x. I (Some (Resolved (fst x) (rqSession req))) ph)"
    unfolding x fst_conv by (rule keeps_bind [OF replay_keeps], rule hoare_ret) simp
next
  show "hoare (I (Some (Resolved r (rqSession req))) ph) (do {
      changes (\<lambda>c. c\<lparr>cPending := AList.delete (hID h) (cPending c)\<rparr>); ret (r, refused (Internal, err))
    }) (\<lambda>x. I (Some (Resolved (fst x) (rqSession req))) ph)"
    by (rule keeps_bind [OF un.changes_keeps], simp, rule hoare_ret) simp
qed

lemma swept_moves:
  "hoare (I (Some (Resolved r name)) ph) (clone_swept ho req g r h) (\<lambda>x. I (Some (Resolved (fst x) name)) ph)"
  unfolding clone_swept_def Let_def
  by (intro keeps_bind un.swept_keeps keeps_Draining un.calls_keeps un.note_audit_keeps hoare_ret) simp

lemma commit_moves:
  assumes "rzReserved r" "\<not> rzCommitted r" "hID h = Fence_String (rzFence r)"
  shows "hoare (I (Some (Resolved r (rqSession req))) ph) (clone_commit ho req g r h)
     (\<lambda>x. I (Some (Resolved (fst x) (rqSession req))) ph)"
  unfolding clone_commit_def
proof (intro hoare_bind [OF commitHeld_moves [OF assms]] hoare_prod hoare_if)
  fix x :: "resolution \<times> bool \<times> FiberExit option" and r' y ok ex
  assume x: "x = (r', y)" "y = (ok, ex)"
  show "hoare (I (Some (Resolved (fst x) (rqSession req))) ph) (clone_swept ho req g r' h)
      (\<lambda>x. I (Some (Resolved (fst x) (rqSession req))) ph)"
    unfolding x fst_conv by (rule swept_moves)
  show "hoare (I (Some (Resolved (fst x) (rqSession req))) ph) (do {
      resp \<leftarrow> clone_committed ho req r h ex; ret (r', resp, OK, None)
    }) (\<lambda>x. I (Some (Resolved (fst x) (rqSession req))) ph)"
    unfolding x fst_conv by (rule keeps_bind [OF committed_keeps], rule hoare_ret) simp
qed

lemma resolved_moves:
  assumes "rzReserved r \<longleftrightarrow> rzAction r \<noteq> ActAttach" "\<not> rzCommitted r"
  shows "hoare (I (Some (Resolved r (rqSession req))) ph) (clone_resolved ho req g shed r)
     (\<lambda>x. I (Some (Resolved (fst x) (rqSession req))) ph)"
proof -
  let ?I = "I (Some (Resolved r (rqSession req))) ph" and ?Q = "\<lambda>x. I (Some (Resolved (fst x) (rqSession req))) ph"
  have stay: "hoare ?I (ret (r, out)) ?Q" for out by (rule hoare_ret) simp
  have attach: "hoare ?I (do { resp \<leftarrow> routed ho x; ret (r, resp, OK, None) }) ?Q" for x
    by (rule keeps_bind [OF un.routed_keeps stay])
  have born: "hoare (\<lambda>c. ?I c \<and> hID h = Fence_String (rzFence r)) (do {
      aerr \<leftarrow> audit ho d rec;
      case aerr of Some e \<Rightarrow> clone_roll_back ho req r h e | None \<Rightarrow> clone_commit ho req g r h
    }) ?Q" if "rzAction r \<noteq> ActAttach" for h d rec
  proof (cases "hID h = Fence_String (rzFence r)")
    case True
    have "hoare ?I (do {
      aerr \<leftarrow> audit ho d rec;
      case aerr of Some e \<Rightarrow> clone_roll_back ho req r h e | None \<Rightarrow> clone_commit ho req g r h
    }) ?Q"
      using assms that True
      by (intro keeps_bind [OF un.audit_keeps] hoare_option roll_back_moves commit_moves) simp_all
    then show ?thesis by (rule hoare_conseq) simp_all
  qed (simp add: hoare_def)
  show ?thesis
    unfolding clone_resolved_def
    by (intro hoare_if keeps_bind [OF un.audit_keeps] hoare_option stay attach hoare_bind [OF run_moves] hoare_sum
        hoare_conseq [OF born] hoare_conseq [OF stay]) simp_all
qed

lemma resolve_keeps:
  assumes "gate = gate_of (gUID g) (rqSession req)"
  shows "hoare (I (map_option Holding gate) ph) (clone_resolve ho req g shed gate) (\<lambda>_. I None ph)"
proof -
  have g: "map_option Holding gate = (if rqSession req = [] then None else Some (Holding (session_key (gUID g) (rqSession req))))"
    using assms by simp
  have res: "hoare (I (map_option Holding gate) ph)
      (ledger (\<lambda>l. resolveHeld l now gate (gUID g) (rqSession req) (rtTier (hoRuntime ho))))
      (\<lambda>rz c. case rz of Inl e \<Rightarrow> I (map_option Holding gate) ph c
         | Inr r \<Rightarrow> I (Some (Resolved r (rqSession req))) ph c \<and> (rzReserved r \<longleftrightarrow> rzAction r \<noteq> ActAttach) \<and> \<not> rzCommitted r)"
    for now
  proof (rule hoare_ledger)
    fix c l rz
    assume I: "I (map_option Holding gate) ph c"
      and rz: "resolveHeld (cLedger c) now gate (gUID g) (rqSession req) (rtTier (hoRuntime ho)) = (l, rz)"
    show "case rz of Inl e \<Rightarrow> I (map_option Holding gate) ph (on_ledger c l)
        | Inr r \<Rightarrow> I (Some (Resolved r (rqSession req))) ph (on_ledger c l) \<and>
            (rzReserved r \<longleftrightarrow> rzAction r \<noteq> ActAttach) \<and> \<not> rzCommitted r"
    proof (cases rz)
      case (Inl e)
      with rz I show ?thesis by (auto dest: resolve_fails)
    next
      case (Inr r)
      have "I (Some (Resolved r (rqSession req))) ph (on_ledger c l)"
        by (rule resolves [OF I [unfolded g] rz [unfolded Inr assms]])
      with Inr resolve_shape [OF rz [unfolded Inr]] show ?thesis by simp
    qed
  qed
  have no: "hoare (I (map_option Holding gate) ph) (do { release_gate gate; code \<leftarrow> missCode ho e; ret (refused (code, e)) })
      (\<lambda>_. I None ph)" for e
    by (rule hoare_bind [OF release_gate_moves]) (intro keeps basics)
  have yes: "hoare (I (Some (Resolved r (rqSession req))) ph)
      (do { x \<leftarrow> clone_resolved ho req g shed r; case x of (r', out) \<Rightarrow> do { ledger (\<lambda>l. (res_unlock l r', ())); ret out } })
      (\<lambda>_. I None ph)" if "rzReserved r \<longleftrightarrow> rzAction r \<noteq> ActAttach" "\<not> rzCommitted r" for r
  proof (rule hoare_bind [OF resolved_moves [OF that]], rule hoare_prod)
    fix x :: "resolution \<times> outcome" and r' out assume x: "x = (r', out)"
    show "hoare (I (Some (Resolved (fst x) (rqSession req))) ph) (do { ledger (\<lambda>l. (res_unlock l r', ())); ret out }) (\<lambda>_. I None ph)"
      unfolding x fst_conv by (rule hoare_bind [OF ledger_unit keeps_ret]) (rule unlocks)
  qed
  show ?thesis
    unfolding clone_resolve_def
  proof (rule keeps_bind [OF keeps_clock], rule hoare_bind [OF res], rule hoare_sum)
    fix rz :: "goerr + resolution" and r assume rz: "rz = Inr r"
    show "hoare (\<lambda>c. case rz of Inl e \<Rightarrow> I (map_option Holding gate) ph c
         | Inr r \<Rightarrow> I (Some (Resolved r (rqSession req))) ph c \<and> (rzReserved r \<longleftrightarrow> rzAction r \<noteq> ActAttach) \<and> \<not> rzCommitted r)
      (do { x \<leftarrow> clone_resolved ho req g shed r; case x of (r', out) \<Rightarrow> do { ledger (\<lambda>l. (res_unlock l r', ())); ret out } })
      (\<lambda>_. I None ph)"
      using yes [of r] rz by (cases "(rzReserved r \<longleftrightarrow> rzAction r \<noteq> ActAttach) \<and> \<not> rzCommitted r") (auto simp: hoare_def)
  qed (simp add: no)
qed

lemma admitted_keeps: "keeps (I None Idle) (clone_admitted ho req g)"
proof -
  have go: "hoare (\<lambda>c. case r of Inl rf \<Rightarrow> I None Idle c
        | Inr gate \<Rightarrow> gate = gate_of (gUID g) (rqSession req) \<and> I (map_option Holding gate) Idle c)
      (case r of Inl rf \<Rightarrow> ret (refused rf) | Inr gate \<Rightarrow> clone_resolve ho req g shed gate) (\<lambda>_. I None Idle)" for r shed
    using resolve_keeps [of _ req g Idle shed] by (cases r) (auto simp: hoare_def)
  show ?thesis
    unfolding clone_admitted_def
    by (intro keeps_bind [OF un.rate_take_keeps] hoare_option keeps_ret keeps_bind [OF un.shedding_keeps]
        hoare_bind [OF clone_locate_moves go])
qed

lemma Clone_keeps: "keeps (I None Idle) (Clone ho cx req)"
proof -
  have run: "keeps (I None Idle) (do {
       adm \<leftarrow> clone_self_admit ho cx g;
       case adm of Some rf \<Rightarrow> ret (refused rf)
       | None \<Rightarrow> do { held \<leftarrow> clone_held ho g; case held of Inl rf \<Rightarrow> ret (refused rf) | Inr hg \<Rightarrow> clone_admitted ho req hg }
     })" if "good g" for g
    by (intro keeps self_admit_keeps [OF that] clone_held_keeps admitted_keeps)
  have go: "hoare (\<lambda>c. I None Idle c \<and> (\<forall>g. r = Inr g \<longrightarrow> good g))
     (case r of Inl rf \<Rightarrow> ret (refused rf)
      | Inr g \<Rightarrow> do {
          adm \<leftarrow> clone_self_admit ho cx g;
          case adm of Some rf \<Rightarrow> ret (refused rf)
          | None \<Rightarrow> do { held \<leftarrow> clone_held ho g; case held of Inl rf \<Rightarrow> ret (refused rf) | Inr hg \<Rightarrow> clone_admitted ho req hg }
        }) (\<lambda>_. I None Idle)" for r
    using run by (cases r) (auto simp: hoare_def)
  show ?thesis unfolding Clone_def by (rule hoare_bind [OF frontend_moves go])
qed

subsection \<open>The other handlers\<close>

lemma park_publish_keeps: "keeps (I own ph) (park_publish ho fence session ref)"
  unfolding park_publish_def by (intro keeps basics)

lemma park_settle_keeps: "keeps (I own ph) (park_settle ho fence fid ref perr)"
  unfolding park_settle_def by (intro keeps basics park_publish_keeps)

lemma park_held_keeps: "keeps (I own ph) (park_held ho fence fid sync)"
  unfolding park_held_def by (intro keeps basics park_settle_keeps)

lemma parks_keeps: "keeps (I None Idle) (park ho fid sync)"
  unfolding park_def by (intro keeps_bind keeps_looks hoare_option hoare_if keeps_ret under_gate park_held_keeps)

lemma Park_keeps: "keeps (I None Idle) (Park ho fid sync)"
  unfolding Park_def by (intro keeps parks_keeps)

lemma Release_keeps: "keeps (I own ph) (Release ho fid discard)"
  unfolding Release_def by (intro keeps basics)

lemma answering_keeps: "keeps (I own ph) (answering ho g)"
  unfolding answering_def by (intro keeps basics)

lemma authenticate_keeps: "keeps (I own ph) (authenticate ho token thumbprint)"
  unfolding authenticate_def by (intro keeps basics answering_keeps)

lemma discard_step_keeps: "keeps (I own ph) (discard_step ho f ref)"
  unfolding discard_step_def by (intro keeps basics)

lemma discardParked_keeps: "keeps (I own ph) (discardParked ho g fence session ref)"
  unfolding discardParked_def by (intro keeps basics discard_step_keeps)

lemma discard_delete_keeps: "keeps (I own ph) (discard_delete ho delete g fence session handle)"
  unfolding discard_delete_def by (intro keeps basics)

lemma discardRemote_keeps: "keeps (I own ph) (discardRemote ho g fence session)"
  unfolding discardRemote_def by (intro keeps basics discard_delete_keeps)

lemma discard_held_keeps: "keeps (I own ph) (discard_held ho g session)"
  unfolding discard_held_def by (intro keeps basics discardParked_keeps discardRemote_keeps)

lemma Discard_keeps: "keeps (I None Idle) (Discard ho req)"
  unfolding Discard_def
  by (intro hoare_if keeps_ret keeps_bind [OF authenticate_keeps] keeps_bind [OF keeps_clock] hoare_sum
      keeps_bind [OF un.missCode_keeps] under_gate discard_held_keeps)

lemma drainOne_keeps: "keeps (I None Idle) (drainOne ho f)"
  unfolding drainOne_def by (intro keeps Release_keeps parks_keeps)

lemma drainBatch_keeps: "keeps (I None Idle) (drainBatch ho ended fs)"
proof (induction fs)
  case (Cons f fs)
  show ?case unfolding drainBatch.simps by (intro keeps drainOne_keeps Cons)
qed (simp add: keeps_ret)

lemma drain_loop_keeps: "keeps (I None Idle) (drain_loop ho ended n tried rep)"
proof (induction n arbitrary: tried rep)
  case (Suc n)
  show ?case unfolding drain_loop.simps by (intro keeps drainBatch_keeps Suc)
qed (simp add: keeps_ret)

lemma Drain_keeps: "keeps (I None Idle) (Drain ho ended n)"
  unfolding Drain_def
  by (rule keeps_bind, rule hoare_changes, erule draining) (intro keeps basics drain_loop_keeps)

lemma bump_one_keeps: "keeps (I own ph) (bump_one ho epoch reason fid)"
  unfolding bump_one_def bump_release_def by (intro keeps basics)

lemma BumpEpoch_keeps: "keeps (I own ph) (Core_BumpEpoch ho reason)"
  unfolding Core_BumpEpoch_def bump_sweep_def by (intro keeps basics bump_one_keeps) simp

lemma reconcile_checked_keeps:
  assumes "\<And>vg. r = Inr vg \<Longrightarrow> good vg"
  shows "keeps (I own Idle) (reconcile_checked ho cx g rep r)"
  unfolding reconcile_checked_def by (intro keeps basics hold_keeps Admit_keeps assms)

lemma reconcile_grant_keeps: "keeps (I own Idle) (reconcile_grant ho cx now g rep)"
proof -
  have go: "hoare (\<lambda>c. I own Idle c \<and> (\<forall>g. r = Inr g \<longrightarrow> good g)) (reconcile_checked ho cx g rep r) (\<lambda>_. I own Idle)" for r
    using reconcile_checked_keeps [of r own cx g rep] by (auto simp: hoare_def)
  show ?thesis
    unfolding reconcile_grant_def
    by (intro hoare_if keeps_ret hoare_bind [OF reverify_moves go] keeps_bind [OF keeps_epoch_fence]
        keeps_bind [OF un.note_audit_keeps])
qed

lemma reconcile_grants_keeps: "keeps (I own Idle) (reconcile_grants ho cx now gs rep)"
proof (induction gs arbitrary: rep)
  case (Cons g gs)
  show ?case unfolding reconcile_grants.simps by (intro keeps reconcile_grant_keeps Cons)
qed (simp add: keeps_ret)

lemma reconcile_session_keeps: "keeps (I own ph) (reconcile_session ho s rep)"
  unfolding reconcile_session_def by (intro keeps basics holdParked_keeps)

lemma reconcile_sessions_keeps: "keeps (I own ph) (reconcile_sessions ho ss rep)"
proof (induction ss arbitrary: rep)
  case (Cons s ss)
  show ?case unfolding reconcile_sessions.simps by (intro keeps reconcile_session_keeps Cons)
qed (simp add: keeps_ret)

lemma reconcile_orphan_keeps: "keeps (I own ph) (reconcile_orphan ho h rep)"
  unfolding reconcile_orphan_def by (intro keeps basics)

lemma reconcile_orphans_keeps: "keeps (I own ph) (reconcile_orphans ho hs rep)"
proof (induction hs arbitrary: rep)
  case (Cons h hs)
  show ?case unfolding reconcile_orphans.simps by (intro keeps reconcile_orphan_keeps Cons)
qed (simp add: keeps_ret)

lemma sweepDeltas_keeps: "keeps (I own ph) (sweepDeltas ho snap)"
  unfolding sweepDeltas_def by (intro keeps basics)

lemma discard_consumed_keeps: "keeps (I own ph) (discard_consumed ho s)"
  unfolding discard_consumed_def by (intro keeps basics)

lemma Reconcile_keeps: "keeps (I own Idle) (Reconcile ho cx snap)"
  unfolding Reconcile_def
  by (intro keeps basics reconcile_grants_keeps reconcile_sessions_keeps reconcile_orphans_keeps sweepDeltas_keeps
      discard_consumed_keeps)

lemma refill_start_keeps: "keeps (I own ph) (refill_start ho g ps rf)"
  unfolding refill_start_def by (intro keeps basics) simp

lemma refill_turn_keeps: "keeps (I own ph) (refill_turn ho g rf)"
  unfolding refill_turn_def by (intro keeps basics syncPooled_keeps refill_start_keeps)

lemma refill_each_keeps: "keeps (I own ph) (refill_each ho sts rf)"
proof (induction sts arbitrary: rf)
  case (Cons st sts)
  show ?case unfolding refill_each.simps by (intro keeps basics refill_turn_keeps Cons)
qed (simp add: keeps_ret)

lemma refillPass_keeps: "keeps (I own ph) (refillPass ho)"
  unfolding refillPass_def by (intro keeps refill_each_keeps)

lemma fill_keeps: "keeps (I own ph) (fill ho p g)"
  unfolding fill_def by (intro keeps basics syncPooled_keeps) simp

lemma shed_keeps: "keeps (I own ph) (setShedding uid v)"
  unfolding setShedding_def by (intro keeps basics) simp

lemma stuck_keeps: "keeps (I own ph) (bumpStuck uid)" "keeps (I own ph) (resetStuck uid)"
  unfolding bumpStuck_def resetStuck_def by (intro keeps basics; simp)+

lemma Tick_keeps: "keeps (I None Idle) (Tick (core_ladder ho src))"
proof -
  let ?ld = "core_ladder ho src"
  have park: "keeps (I None Idle) (try_verb (ldPark ?ld) fid)" for fid
    unfolding try_verb_def core_ladder_def Ladder.simps option.case by (intro keeps Park_keeps)
  have release: "keeps (I None Idle) (try_verb (ldRelease ?ld) fid)" for fid
    unfolding try_verb_def core_ladder_def Ladder.simps option.case by (intro keeps Release_keeps)
  have drain: "keeps (I None Idle) (case ldDrain ?ld of None \<Rightarrow> ret 0 | Some drain \<Rightarrow> drain uid 1)" for uid
    unfolding core_ladder_def Ladder.simps option.case by (rule DrainPool_keeps)
  have yield: "ldYield ?ld = Some y \<Longrightarrow> keeps (I None Idle) (y uid)" for y uid
    by (auto simp: core_ladder_def Yield_keeps)
  have reclaim: "keeps (I None Idle) (reclaim ?ld uid)" for uid
    unfolding reclaim_def reclaim_fiber_def by (intro drain park release keeps)
  have "keeps (I None Idle) (evaluate ?ld g psi)" for g psi
    unfolding evaluate_def by (intro keeps shed_keeps stuck_keeps reclaim yield)
  then show ?thesis unfolding Tick_def tick_one_def by (intro keeps)
qed

lemma refill_keeps: "keeps (I own ph) (refill ho rn)"
  unfolding refill_def by (intro keeps refillPass_keeps)

lemma Run_step_keeps: "keeps (I own ph) (Run_step ho ev rn)"
proof (cases ev)
  case (ExitEvent ex)
  then show ?thesis by (simp only: Run_step.simps) (intro keeps OnExit_keeps)
next
  case (PooledExitEvent uid)
  then show ?thesis by (simp only: Run_step.simps) (intro keeps pooledDied_keeps refill_keeps)
next
  case KickEvent
  show ?thesis unfolding KickEvent Run_step.simps by (rule keeps_bind [OF un.changes_keeps refill_keeps]) simp
next
  case RetryEvent
  then show ?thesis by (simp only: Run_step.simps) (rule refill_keeps)
next
  case TickEvent
  then show ?thesis by (simp only: Run_step.simps) (intro keeps sample_keeps refill_keeps)
next
  case SweepEvent
  then show ?thesis by (simp only: Run_step.simps) (intro keeps Sweep_keeps)
qed

lemma watch_step_keeps: "keeps (I own ph) (watch_step i ev)"
  by (cases ev; simp only: watch_step.simps unsubscribe_def) (intro keeps un.changes_keeps; simp)+

lemma serve_keeps:
  assumes "\<And>g. delivers call = Some g \<Longrightarrow> good g"
  shows "keeps (I None Idle) (serve ho call)"
proof (cases call)
  case (CallAdmit cx g)
  then have "good g" by (intro assms) simp
  then show ?thesis unfolding CallAdmit serve.simps by (intro keeps Admit_keeps)
qed (simp only: serve.simps, intro keeps Clone_keeps Remove_keeps Redeliver_keeps BumpEpoch_keeps Park_keeps Release_keeps
    Discard_keeps Drain_keeps Reconcile_keeps Run_step_keeps fill_keeps Tick_keeps watch_step_keeps)+

text \<open>Any sequence of calls.\<close>

lemma serves_keeps:
  "I None Idle c \<Longrightarrow> (\<And>call g. call \<in> set calls' \<Longrightarrow> delivers call = Some g \<Longrightarrow> good g) \<Longrightarrow>
   I None Idle (snd (run_state (each (serve ho) calls') c))"
proof (induction calls' arbitrary: c)
  case (Cons call calls')
  have "I None Idle (snd (run_state (serve ho call) c))"
    by (rule hoare_run [OF serve_keeps Cons.prems(1)]) (use Cons.prems(2) in auto)
  with Cons show ?case by (auto simp: split_beta)
qed simp

end

end
