(* ===== verification/Core_Refines.thy ===== *)
theory Core_Refines
  imports Core_Protocol
begin

text \<open>
  The core refines the ledger's concurrent specification: the ledger of a core that serves any
  calls, among other goroutines, is a ledger that the steps of theory \<open>Ledger_Conc\<close> reach. So what
  is shown there of every interleaving holds of the handlers.
\<close>

section \<open>The simulation\<close>

text \<open>
  Goroutine \<open>i\<close> is this one; the goroutines of \<open>J\<close> are the others. \<open>sim P J i own ph c\<close>: the core's ledger is that
  of a reachable state with \<open>P\<close> in which this goroutine stands at \<open>own\<close>, and its admission is where \<open>ph\<close>
  says. \<open>P\<close> is any property that the steps keep.
\<close>

definition confined :: "nat set \<Rightarrow> nat \<Rightarrow> sys \<Rightarrow> bool" where
  "confined J i s \<longleftrightarrow> (\<forall>j. map_of (sOps s) j \<noteq> None \<longrightarrow> j = i \<or> j \<in> J)"

definition at_phase :: "nat \<Rightarrow> phase \<Rightarrow> 'w Core \<Rightarrow> bool" where
  "at_phase self ph c =
     (case ph of
        Idle \<Rightarrow> True
      | Entered uid \<Rightarrow> map_of (cAdmitting c) uid = Some self
      | Vouched g \<Rightarrow> map_of (cAdmitting c) (gUID g) = Some self \<and>
          (\<forall>h. Ledger_Grant (cLedger c) (gUID g) = Some h \<longrightarrow> \<not> changesFixedFields h g))"

definition closed :: "(sys \<Rightarrow> bool) \<Rightarrow> bool" where
  "closed P \<longleftrightarrow> (\<forall>s s'. P s \<longrightarrow> step False s s' \<longrightarrow> P s')"

definition sim :: "(sys \<Rightarrow> bool) \<Rightarrow> nat set \<Rightarrow> nat \<Rightarrow> gop option \<Rightarrow> phase \<Rightarrow> 'w Core \<Rightarrow> bool" where
  "sim P J i own ph c \<longleftrightarrow>
     (\<exists>s. reach False s \<and> P s \<and> sL s = cLedger c \<and> map_of (sOps s) i = own \<and> confined J i s) \<and> at_phase i ph c"

lemma closed_steps: "steps False s s' \<Longrightarrow> closed P \<Longrightarrow> P s \<Longrightarrow> P s'"
  by (induction rule: steps.induct) (auto simp: closed_def)

lemma closed_True: "closed (\<lambda>s. True)"
  by (simp add: closed_def)

section \<open>What others do\<close>

text \<open>
  \<open>others_move J i c c'\<close>: between \<open>c\<close> and \<open>c'\<close> the ledger takes steps of the goroutines of \<open>J\<close> only. \<open>spares i c c'\<close>: no
  other goroutine ends this one's admission, or admits its UID meanwhile (\<open>a.admitting\<close> keeps it out).
\<close>

definition others_move :: "nat set \<Rightarrow> nat \<Rightarrow> 'w Core \<Rightarrow> 'w Core \<Rightarrow> bool" where
  "others_move J i c c' \<longleftrightarrow>
     (\<forall>s. reach False s \<and> sL s = cLedger c \<and> confined J i s \<longrightarrow>
        (\<exists>s'. steps False s s' \<and> sL s' = cLedger c' \<and> map_of (sOps s') i = map_of (sOps s) i \<and> confined J i s'))"

definition spares :: "nat \<Rightarrow> 'w Core \<Rightarrow> 'w Core \<Rightarrow> bool" where
  "spares i c c' \<longleftrightarrow>
     (\<forall>uid. map_of (cAdmitting c) uid = Some i \<longrightarrow> map_of (cAdmitting c') uid = Some i \<and>
        (\<forall>h. Ledger_Grant (cLedger c') uid = Some h \<longrightarrow> Ledger_Grant (cLedger c) uid = Some h))"

text \<open>
  The environment of goroutine \<open>i\<close>: the others move so during its calls and waits, a wait for a gate
  ends with the gate free, and the runtime names a fiber by the fence it is given.
\<close>

definition environment :: "'w Home \<Rightarrow> nat set \<Rightarrow> nat \<Rightarrow> bool" where
  "environment ho J i \<longleftrightarrow>
     hoSelf ho = i \<and>
     (\<forall>c. others_move J i c (hoOthers ho c) \<and> spares i c (hoOthers ho c)) \<and>
     (\<forall>uid c. others_move J i c (hoWaitAdmit ho uid c)) \<and>
     (\<forall>key c. others_move J i c (hoWaitGate ho key c)) \<and>
     (\<forall>key c. sim (\<lambda>s. True) J i (Some (Waiting key)) Idle c \<longrightarrow> gate_free (cLedger (hoWaitGate ho key c)) key) \<and>
     (\<forall>spec w h w'. run_state (rtClone (hoRuntime ho) spec) w = (Inr h, w') \<longrightarrow> hID h = Fence_String (csFence spec))"

lemma sim_any: "sim P J i own ph c \<Longrightarrow> sim (\<lambda>s. True) J i own ph c"
  by (auto simp: sim_def)

lemma sim_moved:
  assumes "closed P" "others_move J i c c'" "sim P J i own ph c" "at_phase i ph c'"
  shows "sim P J i own ph c'"
proof -
  from assms(3) obtain t where t: "reach False t" "P t" "sL t = cLedger c" "map_of (sOps t) i = own" "confined J i t"
    by (auto simp: sim_def)
  from assms(2) t(1,3,5) obtain t' where t': "steps False t t'" "sL t' = cLedger c'"
    "map_of (sOps t') i = map_of (sOps t) i" "confined J i t'" unfolding others_move_def by blast
  with assms(4) t(4) reach_steps [OF t(1) t'(1)] closed_steps [OF t'(1) assms(1) t(2)] show ?thesis by (auto simp: sim_def)
qed

lemma sim_others: "closed P \<Longrightarrow> others_move J i c c' \<Longrightarrow> spares i c c' \<Longrightarrow> sim P J i own ph c \<Longrightarrow> sim P J i own ph c'"
  by (erule (1) sim_moved) (auto simp: sim_def at_phase_def spares_def split: phase.splits)

lemma sim_waited: "closed P \<Longrightarrow> others_move J i c c' \<Longrightarrow> sim P J i own Idle c \<Longrightarrow> sim P J i own Idle c'"
  by (erule (1) sim_moved) (auto simp: at_phase_def)

section \<open>The ledger's calls are steps\<close>

lemma confined_ledger [simp]: "confined J i (s\<lparr>sL := l\<rparr>) = confined J i s"
  by (simp add: confined_def)

lemma confined_own:
  "confined J i s \<Longrightarrow> confined J i (s\<lparr>sL := l, sOps := AList.update i p (sOps s)\<rparr>)"
  "confined J i s \<Longrightarrow> confined J i (s\<lparr>sL := l, sOps := AList.delete i (sOps s)\<rparr>)"
  by (auto simp: confined_def gomap split: if_splits)

text \<open>A ledger call that keeps or drops grants moves a goroutine from \<open>own\<close> to \<open>own'\<close>.\<close>

lemma sim_step:
  assumes "closed P" and "sim P J i own ph c"
    and "\<And>s. reach False s \<Longrightarrow> sL s = cLedger c \<Longrightarrow> map_of (sOps s) i = own \<Longrightarrow> confined J i s \<Longrightarrow>
      \<exists>s'. (s' = s \<or> step False s s') \<and> sL s' = l \<and> map_of (sOps s') i = own' \<and> confined J i s'"
    and "\<And>uid h. Ledger_Grant l uid = Some h \<Longrightarrow> Ledger_Grant (cLedger c) uid = Some h"
  shows "sim P J i own' ph (on_ledger c l)"
proof -
  from assms(2) obtain s where s: "reach False s" "P s" "sL s = cLedger c" "map_of (sOps s) i = own" "confined J i s"
    and ph: "at_phase i ph c" by (auto simp: sim_def)
  from assms(3) [OF s(1,3-5)] obtain s' where s': "s' = s \<or> step False s s'" "sL s' = l" "map_of (sOps s') i = own'" "confined J i s'"
    by blast
  from s(1) s'(1) have "reach False s'" by (auto intro: reach_step)
  moreover from assms(1) s(2) s'(1) have "P s'" by (auto simp: closed_def)
  moreover have "at_phase i ph (on_ledger c l)"
    using ph assms(4) by (auto simp: at_phase_def split: phase.splits)
  ultimately show ?thesis using s' by (auto simp: sim_def)
qed

lemma sim_ledger_step:
  assumes "closed P" and "sim P J i own ph c"
    and "\<And>s. sL s = cLedger c \<Longrightarrow> step False s (s\<lparr>sL := l\<rparr>)"
    and "\<And>uid h. Ledger_Grant l uid = Some h \<Longrightarrow> Ledger_Grant (cLedger c) uid = Some h"
  shows "sim P J i own ph (on_ledger c l)"
proof (rule sim_step [OF assms(1,2) _ assms(4)])
  fix s assume "sL s = cLedger c" "map_of (sOps s) i = own" "confined J i s"
  then show "\<exists>s'. (s' = s \<or> step False s s') \<and> sL s' = l \<and> map_of (sOps s') i = own \<and> confined J i s'"
    using assms(3) [of s] by (intro exI [of _ "s\<lparr>sL := l\<rparr>"]) simp
qed

lemma sim_own_step:
  assumes "closed P" and "sim P J i own ph c"
    and "\<And>s. sL s = cLedger c \<Longrightarrow> map_of (sOps s) i = own \<Longrightarrow>
      step False s (s\<lparr>sL := l, sOps := AList.update i p (sOps s)\<rparr>)"
    and "\<And>uid h. Ledger_Grant l uid = Some h \<Longrightarrow> Ledger_Grant (cLedger c) uid = Some h"
  shows "sim P J i (Some p) ph (on_ledger c l)"
proof (rule sim_step [OF assms(1,2) _ assms(4)])
  fix s assume s: "sL s = cLedger c" "map_of (sOps s) i = own" "confined J i s"
  show "\<exists>s'. (s' = s \<or> step False s s') \<and> sL s' = l \<and> map_of (sOps s') i = Some p \<and> confined J i s'"
    using assms(3) [OF s(1,2)] confined_own(1) [OF s(3)]
    by (intro exI [of _ "s\<lparr>sL := l, sOps := AList.update i p (sOps s)\<rparr>"]) (simp add: gomap)
qed

lemma sim_own_ends:
  assumes "closed P" and "sim P J i (Some p) ph c"
    and "\<And>s. sL s = cLedger c \<Longrightarrow> map_of (sOps s) i = Some p \<Longrightarrow>
      step False s (s\<lparr>sL := l, sOps := AList.delete i (sOps s)\<rparr>)"
    and "\<And>uid h. Ledger_Grant l uid = Some h \<Longrightarrow> Ledger_Grant (cLedger c) uid = Some h"
  shows "sim P J i None ph (on_ledger c l)"
proof (rule sim_step [OF assms(1,2) _ assms(4)])
  fix s assume s: "reach False s" "sL s = cLedger c" "map_of (sOps s) i = Some p" "confined J i s"
  have "map_of (AList.delete i (sOps s)) i = None" by (simp add: gomap)
  then show "\<exists>s'. (s' = s \<or> step False s s') \<and> sL s' = l \<and> map_of (sOps s') i = None \<and> confined J i s'"
    using assms(3) [OF s(2,3)] confined_own(2) [OF s(4)]
    by (intro exI [of _ "s\<lparr>sL := l, sOps := AList.delete i (sOps s)\<rparr>"]) simp
qed

section \<open>What a call does to the grants\<close>

lemma eGrant_set_entry: "eGrant e = eGrant (entry l p) \<Longrightarrow> eGrant (entry (set_entry l p e) q) = eGrant (entry l q)"
  by (cases "p < length (lEntries l)")
    (auto simp: entry_def set_entry_def nth_list_update list_update_beyond)

lemma Ledger_Grant_cong:
  "lGrants m = lGrants l \<Longrightarrow> (\<And>p. eGrant (entry m p) = eGrant (entry l p)) \<Longrightarrow> Ledger_Grant m uid = Ledger_Grant l uid"
  by (simp add: Ledger_Grant_def)

lemma grants_kept:
  "Ledger_Grant (Ledger_BumpEpoch l e) uid = Ledger_Grant l uid"
  "Ledger_Grant (fst (OnPark l fid ref)) uid = Ledger_Grant l uid"
  "Ledger_Grant (fst (onGone l fid)) uid = Ledger_Grant l uid"
  "Ledger_Grant (ForgetSession l u n) uid = Ledger_Grant l uid"
  "Ledger_Grant (fst (SetPooled l u k)) uid = Ledger_Grant l uid"
  "Ledger_Grant (SetFiberW l fid b) uid = Ledger_Grant l uid"
  "Ledger_Grant (gate_enter l key) uid = Ledger_Grant l uid"
  "Ledger_Grant (gate_lock l key) uid = Ledger_Grant l uid"
  "Ledger_Grant (releaseSession l key) uid = Ledger_Grant l uid"
  "Ledger_Grant (hold_release l gt) uid = Ledger_Grant l uid"
  "Ledger_Grant (add_live l p d) uid = Ledger_Grant l uid"
proof -
  have e: "entry (l\<lparr>lSessions := x\<rparr>) = entry l" "entry (l\<lparr>lFibers := y\<rparr>) = entry l" "entry (l\<lparr>lPerSession := z\<rparr>) = entry l"
    for l x y z by (simp_all add: entry_def fun_eq_iff)
  show "Ledger_Grant (fst (OnPark l fid ref)) uid = Ledger_Grant l uid"
    by (rule Ledger_Grant_cong) (auto simp: OnPark_def Let_def e split: option.splits)
  show "Ledger_Grant (fst (onGone l fid)) uid = Ledger_Grant l uid"
    by (rule Ledger_Grant_cong) (auto simp: onGone_def Let_def e split: option.splits prod.splits)
  show "Ledger_Grant (fst (SetPooled l u k)) uid = Ledger_Grant l uid"
    by (rule Ledger_Grant_cong) (auto simp: SetPooled_def eGrant_set_entry split: option.splits)
  show "Ledger_Grant (SetFiberW l fid b) uid = Ledger_Grant l uid"
    by (rule Ledger_Grant_cong) (auto simp: SetFiberW_def e split: option.splits)
  show "Ledger_Grant (gate_enter l key) uid = Ledger_Grant l uid"
    "Ledger_Grant (gate_lock l key) uid = Ledger_Grant l uid"
    "Ledger_Grant (releaseSession l key) uid = Ledger_Grant l uid" for l key
    by (rule Ledger_Grant_cong; auto simp: gate_enter_def gate_lock_def releaseSession_def Let_def e split: option.splits)+
  then show "Ledger_Grant (hold_release l gt) uid = Ledger_Grant l uid"
    by (simp add: hold_release_def split: option.splits)
qed (simp_all add: Ledger_Grant_def)

lemma grants_kept_restore: "restoreParked l ss = Inr m \<Longrightarrow> Ledger_Grant m uid = Ledger_Grant l uid"
  by (rule Ledger_Grant_cong) (auto simp: entry_def dest: restoreParked_shape)

lemma grants_kept_resolve: "resolveHeld l now gt u name tier = (m, out) \<Longrightarrow> Ledger_Grant m uid = Ledger_Grant l uid"
proof -
  have "Ledger_Grant (set_entry (add_live l p 1) p ((entry (add_live l p 1) p)\<lparr>eNextSeq := q\<rparr>)) uid = Ledger_Grant l uid" for p q
    by (rule Ledger_Grant_cong) (simp_all add: eGrant_set_entry)
  then show "resolveHeld l now gt u name tier = (m, out) \<Longrightarrow> Ledger_Grant m uid = Ledger_Grant l uid"
    by (auto simp: resolveHeld_def reserve_mint_def reserve_def mint_def Let_def
        split: option.splits if_splits SessionState.splits)
qed

lemma grants_kept_commit: "res_commit l r refuse t = (m, r', ok) \<Longrightarrow> Ledger_Grant m uid = Ledger_Grant l uid"
  by (rule Ledger_Grant_cong) (auto simp: res_commit_def Let_def entry_def split: if_splits)

lemma grants_kept_unlock: "Ledger_Grant (res_unlock l r) uid = Ledger_Grant l uid"
  by (simp add: res_unlock_def grants_kept)

lemma grants_revoked: "Ledger_Grant (RevokeGrant l u) uid = (if uid = u then None else Ledger_Grant l uid)"
  by (simp add: Ledger_Grant_def gomap)

section \<open>The refinement\<close>

lemma sim_admit:
  assumes "closed P" "sim P J i own (Vouched g) c"
  shows "sim P J i own (Entered (gUID g)) (on_ledger c (AdmitGrant (cLedger c) g))"
proof -
  from assms(2) obtain s where s: "reach False s" "P s" "sL s = cLedger c" "map_of (sOps s) i = own" "confined J i s"
    and ph: "at_phase i (Vouched g) c" by (auto simp: sim_def)
  have "may_admit False (sL s) g" using ph s(3) by (auto simp: may_admit_def at_phase_def split: option.splits)
  from step.admit [OF this] have m: "step False s (s\<lparr>sL := AdmitGrant (sL s) g\<rparr>)" .
  have "P (s\<lparr>sL := AdmitGrant (sL s) g\<rparr>)" using assms(1) s(2) m unfolding closed_def by blast
  with reach_step [OF s(1) m] s ph show ?thesis
    by (auto simp: sim_def at_phase_def intro!: exI [of _ "s\<lparr>sL := AdmitGrant (sL s) g\<rparr>"])
qed

lemma sim_resolve:
  assumes "closed P" and "sim P J i (if name = [] then None else Some (Holding (session_key uid name))) ph c"
    and "resolveHeld (cLedger c) now (if name = [] then None else Some (session_key uid name)) uid name tier = (l, Inr r)"
  shows "sim P J i (Some (Resolved r name)) ph (on_ledger c l)"
proof (rule sim_step [OF assms(1,2)])
  fix s assume s: "sL s = cLedger c" "map_of (sOps s) i = (if name = [] then None else Some (Holding (session_key uid name)))"
    "confined J i s"
  have "step False s (resolved s i l r name)"
    using s assms(3) by (cases "name = []") (auto intro: step.resolve_named step.resolve_anonymous)
  then show "\<exists>s'. (s' = s \<or> step False s s') \<and> sL s' = l \<and> map_of (sOps s') i = Some (Resolved r name) \<and> confined J i s'"
    using s(3) by (intro exI [of _ "resolved s i l r name"]) (auto simp: resolved_def gomap confined_def split: if_splits)
qed (use grants_kept_resolve [OF assms(3)] in simp)

lemma simulation:
  assumes env: "environment ho J i" and closed: "closed P"
  shows "protocol ho (\<lambda>g. True) (sim P J i)"
proof
  have self: "hoSelf ho = i" using env by (simp add: environment_def)
  have others: "others_move J i c (hoOthers ho c)" "spares i c (hoOthers ho c)" "others_move J i c (hoWaitAdmit ho uid c)"
    "others_move J i c (hoWaitGate ho key c)" for c uid key
    using env by (auto simp: environment_def)
  show "sim P J i own ph c'" if "cLedger c = cLedger c'" "cAdmitting c = cAdmitting c'" "sim P J i own ph c" for c c' own ph
    using that by (auto simp: sim_def at_phase_def split: phase.splits)
  show "sim P J i own ph (c\<lparr>cDraining := True\<rparr>)" if "sim P J i own ph c" for own ph c
    using that by (auto simp: sim_def at_phase_def split: phase.splits)
  show "sim P J i own ph (hoOthers ho c)" if "sim P J i own ph c" for own ph c
    by (rule sim_others [OF closed others(1,2) that])
  show "sim P J i own Idle (hoWaitAdmit ho uid c)" if "sim P J i own Idle c" for own uid c
    by (rule sim_waited [OF closed others(3) that])
  show "sim P J i (Some (Waiting key)) Idle (hoWaitGate ho key c) \<and> gate_free (cLedger (hoWaitGate ho key c)) key"
    if "sim P J i (Some (Waiting key)) Idle c" for key c
    using sim_waited [OF closed others(4) that] env sim_any [OF that] by (auto simp: environment_def)
  show "hID h = Fence_String (csFence spec)" if "run_state (rtClone (hoRuntime ho) spec) w = (Inr h, w')" for spec w h w'
    using env that unfolding environment_def by blast
  fix own ph and c :: "'a Core" and uid fid ref session e n b key g
  show "sim P J i own ph (on_ledger c (RevokeGrant (cLedger c) uid))" if "sim P J i own ph c"
    by (rule sim_ledger_step [OF closed that]) (metis step.revoke, auto simp: grants_revoked split: if_splits)
  show "sim P J i own ph (on_ledger c (Ledger_BumpEpoch (cLedger c) e))" if "sim P J i own ph c"
    by (rule sim_ledger_step [OF closed that]) (metis step.bump, simp add: grants_kept)
  show "sim P J i own ph (on_ledger c (fst (OnPark (cLedger c) fid ref)))" if "sim P J i own ph c"
    by (rule sim_ledger_step [OF closed that]) (metis step.park, simp add: grants_kept)
  show "sim P J i own ph (on_ledger c (fst (onGone (cLedger c) fid)))" if "sim P J i own ph c"
    by (rule sim_ledger_step [OF closed that]) (metis step.gone, simp add: grants_kept)
  show "sim P J i own ph (on_ledger c (ForgetSession (cLedger c) uid session))" if "sim P J i own ph c"
    by (rule sim_ledger_step [OF closed that]) (metis step.forget, simp add: grants_kept)
  show "sim P J i own ph (on_ledger c l)" if "sim P J i own ph c" "restoreParked (cLedger c) ss = Inr l" for ss l
    by (rule sim_ledger_step [OF closed that(1)]) (metis step.restore that(2), simp add: grants_kept_restore [OF that(2)])
  show "sim P J i own ph (on_ledger c (fst (SetPooled (cLedger c) uid n)))" if "sim P J i own ph c"
    by (rule sim_ledger_step [OF closed that]) (metis step.pooled, simp add: grants_kept)
  show "sim P J i own ph (on_ledger c (SetFiberW (cLedger c) fid b))" if "sim P J i own ph c"
    by (rule sim_ledger_step [OF closed that]) (metis step.measured, simp add: grants_kept)
  show "sim P J i own (Entered uid) (c\<lparr>cAdmitting := AList.update uid (hoSelf ho) (cAdmitting c)\<rparr>)" if "sim P J i own Idle c"
    using that by (auto simp: sim_def at_phase_def self gomap)
  show "sim P J i own (Vouched g) c" if "sim P J i own (Entered (gUID g)) c"
    "\<And>h. Ledger_Grant (cLedger c) (gUID g) = Some h \<Longrightarrow> \<not> changesFixedFields h g"
    using that by (auto simp: sim_def at_phase_def)
  show "sim P J i own (Entered (gUID g)) (on_ledger c (AdmitGrant (cLedger c) g))" if "sim P J i own (Vouched g) c"
    by (rule sim_admit [OF closed that])
  show "sim P J i own (Entered (gUID g)) c" if "sim P J i own (Vouched g) c"
    using that by (auto simp: sim_def at_phase_def)
  show "sim P J i own Idle (c\<lparr>cAdmitting := AList.delete uid (cAdmitting c)\<rparr>)" if "sim P J i own (Entered uid) c"
    using that by (auto simp: sim_def at_phase_def)
  show "sim P J i (Some (Waiting key)) ph (on_ledger c (gate_enter (cLedger c) key))" if "sim P J i None ph c"
    by (rule sim_own_step [OF closed that]) (metis step.wait, simp add: grants_kept)
  show "sim P J i (Some (Holding key)) ph (on_ledger c (gate_lock (cLedger c) key))"
    if "sim P J i (Some (Waiting key)) ph c" "gate_free (cLedger c) key"
    by (rule sim_own_step [OF closed that(1)]) (metis step.lock that(2), simp add: grants_kept)
  show "sim P J i None ph (on_ledger c (releaseSession (cLedger c) key))" if "sim P J i (Some (Holding key)) ph c"
    by (rule sim_own_ends [OF closed that]) (metis step.drop, simp add: grants_kept)
  show "sim P J i (Some (Resolved r name)) ph (on_ledger c l)"
    if "sim P J i (if name = [] then None else Some (Holding (session_key uid name))) ph c"
    "resolveHeld (cLedger c) now (if name = [] then None else Some (session_key uid name)) uid name tier = (l, Inr r)"
    for now name tier l r by (rule sim_resolve [OF closed that])
  show "sim P J i (Some (Resolved r' name)) ph (on_ledger c l)"
    if "sim P J i (Some (Resolved r name)) ph c" "rzReserved r" "\<not> rzCommitted r" "hID h = Fence_String (rzFence r)"
      "res_commit (cLedger c) r refuse (clone_session r name h) = (l, r', ok)" for r name h refuse l r' ok
  proof (rule sim_own_step [OF closed that(1)])
    fix s :: sys assume "sL s = cLedger c" "map_of (sOps s) i = Some (Resolved r name)"
    then show "step False s (s\<lparr>sL := l, sOps := AList.update i (Resolved r' name) (sOps s)\<rparr>)"
      using step.commit [of s i r name h refuse l r' ok False] that by simp
  qed (use grants_kept_commit [OF that(5)] in simp)
  show "sim P J i None ph (on_ledger c (res_unlock (cLedger c) r))" if "sim P J i (Some (Resolved r name)) ph c" for r name
    by (rule sim_own_ends [OF closed that]) (metis step.unlock, simp add: grants_kept_unlock)
qed simp

lemma sim_unseen: "environment ho J i \<Longrightarrow> closed P \<Longrightarrow> unseen ho (sim P J i own ph)"
  using protocol.local [OF simulation] protocol.others [OF simulation] by (intro unseen.intro) blast+

lemma sim_new: "cLedger c = NewLedger e \<Longrightarrow> P (sys_init e) \<Longrightarrow> sim P J i None Idle c"
  using reach_init [of False e]
  by (auto simp: sim_def at_phase_def confined_def sys_init_def intro!: exI [of _ "sys_init e"])

end
