(* ===== verification/Stub.thy ===== *)
theory Stub
  imports Core_Types
begin

text \<open>
  \<open>pkg/runtime/stub/stub.go\<close>: the in-memory runtime that tests and the conformance suite run fiberd
  on. \<open>unmarshal\<close> is what \<open>json.Unmarshal\<close> makes of a payload: its dirty and device bytes, or \<open>None\<close>
  when it does not parse. \<open>sbExits\<close> is the channel of exits, oldest first; its
  bound, past which \<open>Clone\<close> would block, is not modelled.
\<close>

record stub_fiber =
  sfHandle :: FiberHandle
  sfW :: u64

record stub =
  sbTier :: Tier
  sbFibers :: "(string, stub_fiber) gomap"
  sbParked :: "(string, u64) gomap"
  sbTemplates :: "(string, bool) gomap"
  sbPort :: nat
  sbExits :: "FiberExit list"

definition NewWithTier :: "Tier \<Rightarrow> stub" where
  "NewWithTier t = \<lparr>sbTier = t, sbFibers = [], sbParked = [], sbTemplates = [], sbPort = 30000, sbExits = []\<rparr>"

definition New :: stub where
  "New = NewWithTier TierCheckpoint"

definition stub_PrepareTemplate :: "Grant \<Rightarrow> (stub, goerr option) state" where
  "stub_PrepareTemplate g = State (\<lambda>r. (None, r\<lparr>sbTemplates := AList.update (gTemplateDigest g) True (sbTemplates r)\<rparr>))"

definition stub_DeviceOffer :: "string \<Rightarrow> stub \<Rightarrow> string \<times> u64" where
  "stub_DeviceOffer uid r = (''sim'', 1099511627776)"

text \<open>The payload's share: what it adds to the working set, and the device bytes.\<close>

definition stub_payload :: "(bytes \<Rightarrow> (u64 \<times> u64) option) \<Rightarrow> bytes \<Rightarrow> u64 \<times> u64" where
  "stub_payload unmarshal p = (if p = [] then (0, 0) else case unmarshal p of None \<Rightarrow> (0, 0) | Some wd \<Rightarrow> wd)"

definition stub_oom :: "CloneSpec \<Rightarrow> u64 \<Rightarrow> u64 \<Rightarrow> string option" where
  "stub_oom spec w dev =
     (let g = csGrant spec in
      if gWBudgetBytes g > 0 \<and> w > gWBudgetBytes g
      then Some (''dirtied '' @ FormatUint w @ '' > w_budget '' @ FormatUint (gWBudgetBytes g))
      else if dbBytes (gDeviceBudget g) > 0 \<and> dev > dbBytes (gDeviceBudget g)
      then Some (''device '' @ FormatUint dev @ '' > device_budget '' @ FormatUint (dbBytes (gDeviceBudget g)))
      else None)"

definition stub_birth :: "(bytes \<Rightarrow> (u64 \<times> u64) option) \<Rightarrow> CloneSpec \<Rightarrow> u64 \<Rightarrow> stub \<Rightarrow> FiberHandle \<times> stub" where
  "stub_birth unmarshal spec carried r =
     (let (dirty, dev) = stub_payload unmarshal (csPayload spec);
          w = carried + dirty;
          port = sbPort r + 1;
          fid = Fence_String (csFence spec);
          h = \<lparr>hID = fid, hEndpoint = ''tcp://127.0.0.1:'' @ format_nat port, hPooled = False\<rparr>;
          r1 = r\<lparr>sbPort := port, sbFibers := AList.update fid \<lparr>sfHandle = h, sfW = w\<rparr> (sbFibers r)\<rparr>
      in (h, case stub_oom spec w dev of
               None \<Rightarrow> r1
             | Some why \<Rightarrow> r1\<lparr>sbFibers := AList.delete fid (sbFibers r1),
                              sbExits := sbExits r1 @ [\<lparr>exFiberID = fid, exReason = ''oom'', exDetail = why\<rparr>]\<rparr>))"

definition stub_Clone :: "(bytes \<Rightarrow> (u64 \<times> u64) option) \<Rightarrow> CloneSpec \<Rightarrow> (stub, goerr + FiberHandle) state" where
  "stub_Clone unmarshal spec = State (\<lambda>r.
     case (if csSource spec = SourceDelta then map_of (sbParked r) (csRef spec) else Some 0) of
       None \<Rightarrow> (Inl (EFmt [PStr (''stub: unknown delta '' @ go_quote (csRef spec))]), r)
     | Some carried \<Rightarrow> (let (h, r') = stub_birth unmarshal spec carried r in (Inr h, r')))"

definition unknown_fiber :: "string \<Rightarrow> goerr" where
  "unknown_fiber fid = EFmt [PStr (''stub: unknown fiber '' @ go_quote fid)]"

definition stub_Park :: "string \<Rightarrow> bool \<Rightarrow> (stub, string \<times> goerr option) state" where
  "stub_Park fid sync = State (\<lambda>r.
     case map_of (sbFibers r) fid of
       None \<Rightarrow> (([], Some (unknown_fiber fid)), r)
     | Some f \<Rightarrow>
         ((''delta-'' @ fid, None),
          r\<lparr>sbFibers := AList.delete fid (sbFibers r), sbParked := AList.update (''delta-'' @ fid) (sfW f) (sbParked r)\<rparr>))"

definition stub_Release :: "string \<Rightarrow> bool \<Rightarrow> (stub, goerr option) state" where
  "stub_Release fid discard = State (\<lambda>r.
     (None, r\<lparr>sbFibers := AList.delete fid (sbFibers r),
              sbParked := (if discard then AList.delete (''delta-'' @ fid) (sbParked r) else sbParked r)\<rparr>))"

definition stub_DiscardDelta :: "string \<Rightarrow> (stub, goerr option) state" where
  "stub_DiscardDelta ref = State (\<lambda>r. (None, r\<lparr>sbParked := AList.delete ref (sbParked r)\<rparr>))"

definition stub_List :: "(stub, goerr + FiberHandle list) state" where
  "stub_List = State (\<lambda>r. (Inr (map (\<lambda>(fid, f). sfHandle f) (sbFibers r)), r))"

definition stub_Stats :: "string \<Rightarrow> (stub, goerr + FiberStats) state" where
  "stub_Stats fid = State (\<lambda>r.
     (case map_of (sbFibers r) fid of
        None \<Rightarrow> Inl (unknown_fiber fid)
      | Some f \<Rightarrow> Inr \<lparr>fsWUsedBytes = sfW f, fsDeviceUsedBytes = 0\<rparr>, r))"

definition stub_HasDelta :: "string \<Rightarrow> stub \<Rightarrow> bool" where
  "stub_HasDelta ref r \<longleftrightarrow> map_of (sbParked r) ref \<noteq> None"

definition stub_Pressure :: "string \<Rightarrow> stub \<Rightarrow> goerr + real" where
  "stub_Pressure uid r = Inr 0"

text \<open>The stub as a runtime over a world that holds it; \<open>view\<close> and \<open>upd\<close> reach it there.\<close>

definition inside :: "('w \<Rightarrow> 's) \<Rightarrow> ('s \<Rightarrow> 'w \<Rightarrow> 'w) \<Rightarrow> ('s, 'a) state \<Rightarrow> ('w, 'a) state" where
  "inside view upd m = State (\<lambda>w. let (a, s) = run_state m (view w) in (a, upd s w))"

definition stub_runtime ::
  "(bytes \<Rightarrow> (u64 \<times> u64) option) \<Rightarrow> Tier \<Rightarrow> ('w \<Rightarrow> stub) \<Rightarrow> (stub \<Rightarrow> 'w \<Rightarrow> 'w) \<Rightarrow> 'w Runtime" where
  "stub_runtime unmarshal tier view upd =
     \<lparr>rtTier = tier,
      rtPrepareTemplate = (\<lambda>g. inside view upd (stub_PrepareTemplate g)),
      rtClone = (\<lambda>spec. inside view upd (stub_Clone unmarshal spec)),
      rtPark = (\<lambda>fid sync. inside view upd (stub_Park fid sync)),
      rtRelease = (\<lambda>fid discard. inside view upd (stub_Release fid discard)),
      rtList = inside view upd stub_List,
      rtStats = (\<lambda>fid. inside view upd (stub_Stats fid)),
      rtDeltaFinder = None,
      rtPublishDelta = None,
      rtRetireDelta = None,
      rtDiscardDelta = Some (\<lambda>ref. inside view upd (stub_DiscardDelta ref)),
      rtDeleteDelta = None,
      rtHasDelta = Some (\<lambda>ref w. stub_HasDelta ref (view w)),
      rtSweepDeltas = None,
      rtPooler = None,
      rtIsolatesTenants = Some (\<lambda>w. True),
      rtHandoffRouter = None,
      rtHoldsWorkspaces = Some (\<lambda>w. True),
      rtAttachDevices = None,
      rtDeviceOffer = Some (\<lambda>uid w. stub_DeviceOffer uid (view w)),
      rtDropTemplate = None,
      rtDefaultDeadlines = None\<rparr>"

text \<open>Every fiber it births is named by its fence.\<close>

lemma stub_Clone_names:
  assumes "run_state (stub_Clone unmarshal spec) r = (Inr h, r')"
  shows "hID h = Fence_String (csFence spec)"
  using assms by (auto simp: stub_Clone_def stub_birth_def Let_def split: option.splits prod.splits if_splits)

lemma run_inside:
  "run_state (inside view upd m) w = (a, w') \<longleftrightarrow>
   (\<exists>s. run_state m (view w) = (a, s) \<and> w' = upd s w)"
  by (auto simp: inside_def Let_def split: prod.splits)

lemma stub_runtime_names:
  "run_state (rtClone (stub_runtime unmarshal tier view upd) spec) w = (Inr h, w') \<Longrightarrow> hID h = Fence_String (csFence spec)"
  by (auto simp: stub_runtime_def run_inside dest: stub_Clone_names)

end
