(* ===== verification/Stub_Home.thy ===== *)
theory Stub_Home
  imports Core_Exec Core_Refines Stub
begin

text \<open>
  A home on the stub runtime: the core with the stub, an audit spool on a healthy disk, a table of
  tokens in place of the issuer's keys, and a schedule of what other goroutines do to the ledger
  during its calls. The interface \<open>protocol\<close> is interpreted on it, and the witnesses run on it.
\<close>

section \<open>The home\<close>

datatype other_step = OtherRevoke string | OtherGone string | OtherBump u64 | OtherMeasure string u64 | OtherRest

record stub_world =
  swStub :: stub
  swNow :: gotime
  swSpool :: Spool
  swOthers :: "other_step list"

definition digest :: "AuditRecord \<Rightarrow> string" where
  "digest rec = arEvent rec @ CHR ''#'' # arFiberID rec"

definition spool_append :: "Durability \<Rightarrow> AuditRecord \<Rightarrow> (stub_world, goerr option) state" where
  "spool_append d rec = State (\<lambda>w.
     let (s, r) = Spool_Append digest (swNow w) (swSpool w) rec DiskOk DiskOk DiskOk
     in (case r of Inl e \<Rightarrow> Some e | Inr n \<Rightarrow> None, w\<lparr>swSpool := s\<rparr>))"

definition stub_verify :: "(bytes, Grant) gomap \<Rightarrow> bytes \<Rightarrow> (stub_world, goerr + Grant) state" where
  "stub_verify keys token = State (\<lambda>w.
     (case map_of keys token of
        None \<Rightarrow> Inl (ENew ''unknown token'')
      | Some g \<Rightarrow> Inr (g\<lparr>gToken := token\<rparr>), w))"

fun other_ledger :: "other_step \<Rightarrow> Ledger \<Rightarrow> Ledger" where
  "other_ledger (OtherRevoke uid) l = RevokeGrant l uid"
| "other_ledger (OtherGone fid) l = fst (onGone l fid)"
| "other_ledger (OtherBump e) l = Ledger_BumpEpoch l e"
| "other_ledger (OtherMeasure fid b) l = SetFiberW l fid b"
| "other_ledger OtherRest l = l"

definition stub_others :: "stub_world Core \<Rightarrow> stub_world Core" where
  "stub_others c =
     (case swOthers (cW c) of
        [] \<Rightarrow> c
      | ev # evs \<Rightarrow> c\<lparr>cLedger := other_ledger ev (cLedger c), cW := (cW c)\<lparr>swOthers := evs\<rparr>\<rparr>)"

definition stub_home :: "(bytes \<Rightarrow> (u64 \<times> u64) option) \<Rightarrow> (bytes, Grant) gomap \<Rightarrow> stub_world Home" where
  "stub_home unmarshal keys =
     \<lparr>hoSelf = 0, hoNodeID = ''home'', hoSelfAdmitUID = [], hoOwnGrant = None, hoRequireBoundGrants = False,
      hoRuntime = stub_runtime unmarshal TierCheckpoint swStub (\<lambda>s w. w\<lparr>swStub := s\<rparr>),
      hoAudit = Some spool_append, hoVerify = stub_verify keys, hoMobilityBudget = None, hoScope = None,
      hoDevices = None, hoPressure = True, hoNow = swNow,
      hoWrite = State (\<lambda>w. ((Wrote, ESentinel ErrAudit), w)),
      hoOthers = stub_others, hoWaitGate = (\<lambda>key c. c), hoWaitAdmit = (\<lambda>uid c. c)\<rparr>"

definition stub_start :: "u64 \<Rightarrow> gotime \<Rightarrow> other_step list \<Rightarrow> stub_world Core" where
  "stub_start e now evs =
     \<lparr>cLedger = NewLedger e, cRateLimit = NewRateLimit 1000 1000000 now, cHealth = None, cShedding = [], cStuck = [],
      cStore = Some \<lparr>ssFile = SFAbsent, ssAsked = 0, ssCovered = 0, ssLastErr = None\<rparr>,
      cEpoch = Some (FileAbsent, e), cRevoked = None, cDevices = [], cAdmitting = [], cChanged = [], cPending = [],
      cHeld = [], cPools = [], cKick = False, cFilling = False, cLastFill = [], cDraining = False,
      cW = \<lparr>swStub = New, swNow = now, swSpool = opened None empty_file, swOthers = evs\<rparr>\<rparr>"

text \<open>What the home and the stub answer for each of their fields.\<close>

lemmas stub_home_fields [simp] =
  stub_home_def [THEN arg_cong, of hoSelf, simplified]
  stub_home_def [THEN arg_cong, of hoNodeID, simplified]
  stub_home_def [THEN arg_cong, of hoSelfAdmitUID, simplified]
  stub_home_def [THEN arg_cong, of hoOwnGrant, simplified]
  stub_home_def [THEN arg_cong, of hoRequireBoundGrants, simplified]
  stub_home_def [THEN arg_cong, of hoRuntime, simplified]
  stub_home_def [THEN arg_cong, of hoAudit, simplified]
  stub_home_def [THEN arg_cong, of hoVerify, simplified]
  stub_home_def [THEN arg_cong, of hoMobilityBudget, simplified]
  stub_home_def [THEN arg_cong, of hoScope, simplified]
  stub_home_def [THEN arg_cong, of hoDevices, simplified]
  stub_home_def [THEN arg_cong, of hoPressure, simplified]
  stub_home_def [THEN arg_cong, of hoNow, simplified]
  stub_home_def [THEN arg_cong, of hoWrite, simplified]
  stub_home_def [THEN arg_cong, of hoOthers, simplified]
  stub_home_def [THEN arg_cong, of hoWaitGate, simplified]
  stub_home_def [THEN arg_cong, of hoWaitAdmit, simplified]

lemmas stub_runtime_fields [simp] =
  stub_runtime_def [THEN arg_cong, of rtTier, simplified]
  stub_runtime_def [THEN arg_cong, of rtPrepareTemplate, simplified]
  stub_runtime_def [THEN arg_cong, of rtClone, simplified]
  stub_runtime_def [THEN arg_cong, of rtPark, simplified]
  stub_runtime_def [THEN arg_cong, of rtRelease, simplified]
  stub_runtime_def [THEN arg_cong, of rtList, simplified]
  stub_runtime_def [THEN arg_cong, of rtStats, simplified]
  stub_runtime_def [THEN arg_cong, of rtDeltaFinder, simplified]
  stub_runtime_def [THEN arg_cong, of rtPublishDelta, simplified]
  stub_runtime_def [THEN arg_cong, of rtRetireDelta, simplified]
  stub_runtime_def [THEN arg_cong, of rtDiscardDelta, simplified]
  stub_runtime_def [THEN arg_cong, of rtDeleteDelta, simplified]
  stub_runtime_def [THEN arg_cong, of rtHasDelta, simplified]
  stub_runtime_def [THEN arg_cong, of rtSweepDeltas, simplified]
  stub_runtime_def [THEN arg_cong, of rtPooler, simplified]
  stub_runtime_def [THEN arg_cong, of rtIsolatesTenants, simplified]
  stub_runtime_def [THEN arg_cong, of rtHandoffRouter, simplified]
  stub_runtime_def [THEN arg_cong, of rtHoldsWorkspaces, simplified]
  stub_runtime_def [THEN arg_cong, of rtAttachDevices, simplified]
  stub_runtime_def [THEN arg_cong, of rtDeviceOffer, simplified]
  stub_runtime_def [THEN arg_cong, of rtDropTemplate, simplified]
  stub_runtime_def [THEN arg_cong, of rtDefaultDeadlines, simplified]

section \<open>It is an environment\<close>

lemma other_ledger_steps: "steps False s (s\<lparr>sL := other_ledger ev (sL s)\<rparr>)"
proof (cases "other_ledger ev (sL s) = sL s")
  case True
  then show ?thesis by (simp add: steps_refl)
next
  case False
  then have "step False s (s\<lparr>sL := other_ledger ev (sL s)\<rparr>)" by (cases ev) (auto intro: step.intros)
  then show ?thesis by (rule steps_step [OF steps_refl])
qed

lemma other_ledger_grants: "Ledger_Grant (other_ledger ev l) uid = Some h \<Longrightarrow> Ledger_Grant l uid = Some h"
  by (cases ev) (auto simp: grants_kept grants_revoked split: if_splits)

lemma stub_others_move: "others_move J i c (stub_others c)"
proof (cases "swOthers (cW c)")
  case Nil
  then show ?thesis by (auto simp: others_move_def stub_others_def intro: steps_refl)
next
  case (Cons ev evs)
  have "\<exists>s'. steps False s s' \<and> sL s' = other_ledger ev (cLedger c) \<and> map_of (sOps s') i = map_of (sOps s) i \<and> confined J i s'"
    if "sL s = cLedger c" "confined J i s" for s
    using other_ledger_steps [of s ev] that
    by (intro exI [of _ "s\<lparr>sL := other_ledger ev (sL s)\<rparr>"]) simp
  with Cons show ?thesis by (simp add: others_move_def stub_others_def)
qed

lemma stub_spares: "spares i c (stub_others c)"
  unfolding spares_def stub_others_def by (cases "swOthers (cW c)") (simp_all, blast intro: other_ledger_grants)

text \<open>With no other goroutine at a gate, the gate that this one waits for is free.\<close>

lemma no_holders:
  assumes "wf_map m" "map_of m i = Some (Waiting key)" "\<forall>j. map_of m j \<noteq> None \<longrightarrow> j = i"
  shows "holders m key = 0"
proof -
  have "\<not> holds key p" if "(j, p) \<in> set m" for j p
  proof -
    have p: "map_of m j = Some p" by (rule map_of_is_SomeI [OF assms(1) that])
    with assms(3) have "j = i" by blast
    with p assms(2) have "p = Waiting key" by simp
    then show ?thesis by (simp add: holds_def)
  qed
  then show ?thesis by (auto simp: map_count_def filter_empty_conv)
qed

lemma waits_alone:
  assumes "sim (\<lambda>s. True) {} i (Some (Waiting key)) Idle c"
  shows "gate_free (cLedger c) key"
proof -
  from assms obtain s where s: "reach False s" "sL s = cLedger c" "map_of (sOps s) i = Some (Waiting key)" "confined {} i s"
    unfolding sim_def by blast
  have ok: "wf_map (sOps s)" "gates_ok (sL s) (sOps s)"
    using gates_run_reach [OF s(1)] unfolding gates_run_def by blast+
  have "\<forall>j. map_of (sOps s) j \<noteq> None \<longrightarrow> j = i" using s(4) unfolding confined_def by blast
  from no_holders [OF ok(1) s(3) this]
  have "gate_ok (map_of (lPerSession (cLedger c)) key) (waiters (sOps s) key) 0"
    using ok(2) unfolding gates_ok_def s(2) by metis
  then show ?thesis by (auto simp: gate_ok_def gate_free_def split: option.splits if_splits)
qed

lemma stub_environment: "environment (stub_home unmarshal keys) {} 0"
proof -
  have still: "others_move J i c c" for J i and c :: "stub_world Core"
    unfolding others_move_def using steps_refl by blast
  have names: "hID h = Fence_String (csFence spec)"
    if "run_state (rtClone (hoRuntime (stub_home unmarshal keys)) spec) w = (Inr h, w')" for spec w h w'
    using that unfolding stub_home_fields by (rule stub_runtime_names)
  show ?thesis
    unfolding environment_def
    by (intro conjI allI impI; (rule names, assumption | simp only: stub_home_fields)?)
      (rule stub_others_move stub_spares still | erule waits_alone)+
qed

interpretation alone: protocol "stub_home unmarshal keys" "\<lambda>g. True" "sim (\<lambda>s. True) {} 0" for unmarshal keys
  by (rule simulation [OF stub_environment closed_True])

section \<open>Running it\<close>

lemma run_within: "run_state (inside view upd m) w = (case run_state m (view w) of (a, s) \<Rightarrow> (a, upd s w))"
  by (simp add: inside_def)

lemmas stub_exec =
  run_within NewWithTier_def New_def stub_PrepareTemplate_def stub_DeviceOffer_def stub_payload_def stub_oom_def
  stub_birth_def stub_Clone_def unknown_fiber_def stub_Park_def stub_Release_def stub_DiscardDelta_def stub_List_def
  stub_Stats_def stub_HasDelta_def stub_Pressure_def digest_def spool_append_def stub_verify_def stub_others_def
  stub_start_def core_exec

lemmas sample_fields [simp] =
  sample_grant_def [THEN arg_cong, of gUID, simplified]
  sample_grant_def [THEN arg_cong, of gAudience, simplified]
  sample_grant_def [THEN arg_cong, of gTemplateDigest, simplified]
  sample_grant_def [THEN arg_cong, of gTenant, simplified]
  sample_grant_def [THEN arg_cong, of gFiberMax, simplified]
  sample_grant_def [THEN arg_cong, of gFiberWarm, simplified]
  sample_grant_def [THEN arg_cong, of gWBudgetBytes, simplified]
  sample_grant_def [THEN arg_cong, of gMinTier, simplified]
  sample_grant_def [THEN arg_cong, of gLeaseExpiry, simplified]
  sample_grant_def [THEN arg_cong, of gPolicy, simplified sample_policy_def, simplified]
  sample_grant_def [THEN arg_cong, of gDeviceBudget, simplified]
  sample_grant_def [THEN arg_cong, of gDiskBudgetBytes, simplified]
  sample_grant_def [THEN arg_cong, of gCallerThumbprint, simplified]
  sample_grant_def [THEN arg_cong, of gToken, simplified]

text \<open>The requests of the runs below, on a home that knows one token.\<close>

definition demo_home :: "stub_world Home" where
  "demo_home = stub_home (\<lambda>p. None) [(''tok'', sample_grant)]"

definition demo_ctx :: ctx where
  "demo_ctx = \<lparr>cxWaits = 1, cxErr = ESentinel Canceled\<rparr>"

definition demo_clone :: "string \<Rightarrow> CloneRequest" where
  "demo_clone session =
     \<lparr>rqGrantJWT = ''tok'', rqSession = session, rqDeadline = 0, rqPayload = [], rqCallerThumbprint = [],
      rqCallerCert = []\<rparr>"

lemma demo_fences [simp]:
  "Fence_String \<lparr>fGrantUID = ''g-1'', fEpoch = 7, fSeq = 1\<rparr> = ''g-1/7/1''"
  "Fence_String \<lparr>fGrantUID = ''g-1'', fEpoch = 7, fSeq = 2\<rparr> = ''g-1/7/2''"
  by code_simp+

lemmas demo_exec = demo_home_def demo_ctx_def demo_clone_def stub_exec

end
