(* ===== verification/Core_Outcomes.thy ===== *)
theory Core_Outcomes
  imports Stub_Home
begin

text \<open>
  What the core's calls answer, in any state and whatever other goroutines do: the code and the
  error agree, and a clone that succeeds has passed every check of the frontend.
\<close>

section \<open>Answers\<close>

abbreviation answers :: "('w, 'a) act \<Rightarrow> ('a \<Rightarrow> bool) \<Rightarrow> bool" where
  "answers m Q \<equiv> hoare (\<lambda>_. True) m (\<lambda>r _. Q r)"

lemma answers_run: "answers m Q \<Longrightarrow> Q (fst (run_state m c))"
  using hoare_run [of "\<lambda>_. True" m "\<lambda>r _. Q r"] by simp

lemma answers_ret: "Q x \<Longrightarrow> answers (ret x) Q"
  by (rule hoare_ret)

lemma answers_any: "answers m (\<lambda>_. True)"
  by (simp add: hoare_def split: prod.splits)

lemma answers_then: "(\<And>x. answers (f x) Q) \<Longrightarrow> answers (State_Monad.bind m f) Q"
  by (rule hoare_bind [OF answers_any]) 

lemma answers_bind: "answers m R \<Longrightarrow> (\<And>x. R x \<Longrightarrow> answers (f x) Q) \<Longrightarrow> answers (State_Monad.bind m f) Q"
  by (rule hoare_bind, assumption) (auto simp: hoare_def)

lemmas answers_cases = hoare_if hoare_option hoare_sum hoare_prod hoare_nat hoare_let

section \<open>Codes\<close>

text \<open>An answer agrees when its code is \<open>OK\<close> exactly when it carries no error; a refusal has a code other than \<open>OK\<close>.\<close>

definition agrees :: "StatusCode \<times> goerr option \<Rightarrow> bool" where
  "agrees r \<longleftrightarrow> (fst r = OK \<longleftrightarrow> snd r = None)"

definition agrees_clone :: "outcome \<Rightarrow> bool" where
  "agrees_clone r \<longleftrightarrow> agrees (snd r) \<and> (snd (snd r) \<noteq> None \<longrightarrow> fst r = no_response)"

abbreviation refuses :: "refusal \<Rightarrow> bool" where
  "refuses rf \<equiv> fst rf \<noteq> OK"

lemma agrees_simps [simp]:
  "agrees (code, None) \<longleftrightarrow> code = OK"
  "agrees (code, Some e) \<longleftrightarrow> code \<noteq> OK"
  by (simp_all add: agrees_def)

lemma agrees_clone_simps [simp]:
  "agrees_clone (resp, OK, None)"
  "agrees_clone (refused rf) \<longleftrightarrow> refuses rf"
  by (simp_all add: agrees_clone_def refused_def)

lemma missCode_answers: "answers (missCode ho e) (\<lambda>code. code \<noteq> OK)"
  unfolding missCode_def by (intro answers_cases answers_then answers_ret) auto

lemma miss_answers: "(\<And>code. code \<noteq> OK \<Longrightarrow> Q (f code)) \<Longrightarrow> answers (do { code \<leftarrow> missCode ho e; ret (f code) }) Q"
  by (rule answers_bind [OF missCode_answers]) (rule answers_ret)

lemma verify_failed_refuses [simp]: "refuses (verify_failed e)"
  by (simp add: verify_failed_def)

lemma runtime_refusal_refuses [simp]: "refuses (runtime_refusal e)"
  by (simp add: runtime_refusal_def)

lemma swept_answers: "answers (swept ho g fence) refuses"
  unfolding swept_def by (intro answers_cases miss_answers answers_then | simp)+

section \<open>Admit, Park, Release, Discard\<close>

lemma admit_floor_answers: "answers (admit_floor ho g) (\<lambda>r. \<forall>rf. r = Some rf \<longrightarrow> refuses rf)"
  unfolding admit_floor_def by (intro answers_cases miss_answers answers_then answers_ret) auto

lemma admit_enter_answers: "answers (admit_enter ho cerr n g) (\<lambda>r. \<forall>x. r = Some x \<longrightarrow> agrees x)"
  by (induction ho cerr n g rule: admit_enter.induct, subst admit_enter.simps)
    (intro answers_cases answers_then answers_ret; simp)

lemma admit_work_answers: "answers (admit_work ho g) agrees"
  unfolding admit_work_def admit_vouched_def admit_prepared_def
  by (intro answers_cases miss_answers answers_then answers_ret; simp)

lemma Admit_answers: "answers (Admit ho cx g) agrees"
  unfolding Admit_def
  by (rule answers_bind [OF admit_floor_answers],
      intro answers_cases answers_ret answers_bind [OF admit_enter_answers] answers_bind [OF admit_work_answers] answers_then;
      simp)

lemma Park_answers: "answers (Park ho fid sync) (\<lambda>(ref, r). agrees r)"
proof -
  have held: "answers (park_held ho fence fid sync) (\<lambda>r. agrees (prCode r, prErr r))" for fence
    unfolding park_held_def park_settle_def nothing_parked_def park_refused_def
    by (intro answers_cases answers_then answers_ret; simp split: option.splits)
  have "answers (park ho fid sync) (\<lambda>r. agrees (prCode r, prErr r))"
    unfolding park_def park_refused_def by (intro answers_cases answers_bind [OF held] answers_then answers_ret; simp)
  then show ?thesis unfolding Park_def by (rule answers_bind) (rule answers_ret, simp)
qed

lemma Release_answers: "answers (Release ho fid discard) agrees"
  unfolding Release_def by (intro answers_cases answers_then answers_ret; simp split: option.splits)

lemma authenticate_answers: "answers (authenticate ho token thumbprint) (\<lambda>r. \<forall>rf. r = Inl rf \<longrightarrow> refuses rf)"
  unfolding authenticate_def token_fault_def
  by (intro answers_cases miss_answers answers_then answers_ret; auto split: if_splits)

lemma discard_held_answers: "answers (discard_held ho g session) agrees"
proof -
  have remote: "answers (discardRemote ho g fence session) agrees" for fence
    unfolding discardRemote_def discard_delete_def unknown_session_def
    by (intro answers_cases answers_then answers_ret; simp split: option.splits)
  have parked: "answers (discardParked ho g fence session ref) agrees" for fence ref
    unfolding discardParked_def by (intro answers_cases answers_then answers_ret; simp split: option.splits)
  show ?thesis unfolding discard_held_def by (intro answers_cases remote parked answers_then answers_ret; simp)
qed

lemma Discard_answers: "answers (Discard ho req) agrees"
  unfolding Discard_def
  by (intro answers_cases answers_bind [OF authenticate_answers] answers_bind [OF discard_held_answers] miss_answers
      answers_then answers_ret; simp)

section \<open>Clone\<close>

lemma clone_checks_refuses: "clone_checks ho req drain vg = Inl rf \<Longrightarrow> refuses rf"
  by (auto simp: clone_checks_def Let_def split: if_splits option.splits)

lemma clone_frontend_answers: "answers (clone_frontend ho req) (\<lambda>r. \<forall>rf. r = Inl rf \<longrightarrow> refuses rf)"
  unfolding clone_frontend_def
  by (intro answers_cases answers_then answers_ret; auto dest: clone_checks_refuses)

lemma clone_self_admit_answers: "answers (clone_self_admit ho cx g) (\<lambda>r. \<forall>rf. r = Some rf \<longrightarrow> refuses rf)"
  unfolding clone_self_admit_def
  by (intro answers_cases miss_answers answers_bind [OF Admit_answers] answers_then answers_ret; auto split: option.splits)

lemma clone_held_answers: "answers (clone_held ho g) (\<lambda>r. \<forall>rf. r = Inl rf \<longrightarrow> refuses rf)"
  unfolding clone_held_def by (intro answers_cases miss_answers answers_then answers_ret; auto split: if_splits)

lemma locate_answers: "answers (locate ho g session) (\<lambda>r. \<forall>rf. r = Some rf \<longrightarrow> refuses rf)"
proof -
  have claimed: "answers (locate_claimed ho g session rd ref) (\<lambda>r. \<forall>rf. r = Some rf \<longrightarrow> refuses rf)" for rd ref
    unfolding locate_claimed_def
    by (intro answers_cases answers_bind [OF swept_answers] answers_then answers_ret; auto split: option.splits)
  have remote: "answers (locate_remote ho finder g session) (\<lambda>r. \<forall>rf. r = Some rf \<longrightarrow> refuses rf)" for finder
    unfolding locate_remote_def by (intro answers_cases claimed miss_answers answers_then answers_ret; auto)
  show ?thesis unfolding locate_def by (intro answers_cases remote answers_then answers_ret; simp)
qed

lemma clone_resolved_answers: "answers (clone_resolved ho req g shed r) (\<lambda>(r', out). agrees_clone out)"
proof -
  have backs: "answers (clone_roll_back ho req r h e) (\<lambda>(r', out). agrees_clone out)" for r h e
    unfolding clone_roll_back_def by (intro answers_cases answers_then answers_ret; simp)
  have swept: "answers (clone_swept ho req g r h) (\<lambda>(r', out). agrees_clone out)" for r h
    unfolding clone_swept_def
    by (rule answers_bind [OF swept_answers], intro answers_cases answers_then answers_ret) simp
  have commits: "answers (clone_commit ho req g r h) (\<lambda>(r', out). agrees_clone out)" for r h
    unfolding clone_commit_def by (intro answers_cases swept answers_then answers_ret; simp)
  have run: "answers (clone_run ho req g r) (\<lambda>x. \<forall>rf. x = Inl rf \<longrightarrow> refuses rf)" for r
    unfolding clone_run_def by (intro answers_cases answers_then answers_ret; auto)
  show ?thesis
    unfolding clone_resolved_def
    by (intro answers_cases answers_bind [OF run] backs commits answers_then answers_ret; simp)
qed

lemma Clone_answers: "answers (Clone ho cx req) agrees_clone"
proof -
  have resolve: "answers (clone_resolve ho req g shed gate) agrees_clone" for g shed gate
    unfolding clone_resolve_def
    by (intro answers_cases miss_answers answers_bind [OF clone_resolved_answers] answers_then answers_ret; simp)
  have loc: "answers (clone_locate ho g session) (\<lambda>r. \<forall>rf. r = Inl rf \<longrightarrow> refuses rf)" for g session
    unfolding clone_locate_def
    by (intro answers_cases answers_bind [OF locate_answers] answers_then answers_ret; simp)
  have adm: "answers (clone_admitted ho req g) agrees_clone" for g
    unfolding clone_admitted_def
    by (intro answers_cases answers_bind [OF loc] resolve answers_then answers_ret; simp)
  show ?thesis
    unfolding Clone_def
    by (intro answers_cases answers_bind [OF clone_frontend_answers] answers_bind [OF clone_self_admit_answers]
        answers_bind [OF clone_held_answers] adm answers_then answers_ret; simp)
qed

section \<open>What the core answers\<close>

text \<open>C6. Every call answers a code that agrees with its error: \<open>OK\<close> exactly when there is none. This holds
  of \<open>Clone\<close>, \<open>Admit\<close>, \<open>Park\<close>, \<open>Release\<close> and \<open>Discard\<close>, on every home, in every state and on every branch; and a
  \<open>Clone\<close> that fails answers the zero response, so no endpoint or fence leaves with an error.\<close>

theorem outcomes_agree:
  "agrees_clone (fst (run_state (Clone ho cx req) c)) \<and> agrees (fst (run_state (Admit ho cx g) c)) \<and>
   agrees (snd (fst (run_state (Park ho fid sync) c))) \<and> agrees (fst (run_state (Release ho fid discard) c)) \<and>
   agrees (fst (run_state (Discard ho dreq) c))"
  using answers_run [OF Clone_answers, of ho cx req c] answers_run [OF Admit_answers, of ho cx g c]
    answers_run [OF Park_answers, of ho fid sync c] answers_run [OF Release_answers, of ho fid discard c]
    answers_run [OF Discard_answers, of ho dreq c]
  by (simp add: split_beta)

section \<open>What a clone has passed\<close>

definition authorised :: "'w Home \<Rightarrow> CloneRequest \<Rightarrow> 'w Core \<Rightarrow> bool" where
  "authorised ho req c \<longleftrightarrow>
     length (rqPayload req) \<le> 4096 \<and>
     (\<exists>g w. run_state (hoVerify ho (rqGrantJWT req)) (cW c) = (Inr g, w) \<and>
        \<not> cDraining (hoOthers ho (c\<lparr>cW := w\<rparr>)) \<and>
        (hoNodeID ho = [] \<or> gAudience g = hoNodeID ho) \<and>
        (if gCallerThumbprint g = [] then \<not> hoRequireBoundGrants ho \<and> pEndpointMode (gPolicy g) \<noteq> EndpointHandoff
         else rqCallerThumbprint req = gCallerThumbprint g) \<and>
        (rqSession req = [] \<or> gTenant g \<noteq> []))"

lemma clone_checks_pass:
  "clone_checks ho req drain vg = Inr g \<Longrightarrow>
   \<not> drain \<and> (hoNodeID ho = [] \<or> gAudience vg = hoNodeID ho) \<and> caller_fault ho vg (rqCallerThumbprint req) = None \<and>
   (rqSession req = [] \<or> gTenant vg \<noteq> [])"
  by (auto simp: clone_checks_def caller_fault_def Let_def split: if_splits option.splits)

lemma frontend_authorises:
  "hoare (\<lambda>s. s = c) (clone_frontend ho req) (\<lambda>r _. \<forall>g. r = Inr g \<longrightarrow> authorised ho req c)"
  unfolding clone_frontend_def
proof (intro hoare_if hoare_ret, simp)
  assume "\<not> MaxPayload < length (rqPayload req)"
  then show "hoare (\<lambda>s. s = c) (do {
        r \<leftarrow> calls ho (hoVerify ho (rqGrantJWT req));
        case r of
          Inl e \<Rightarrow> ret (Inl (verify_failed e))
        | Inr vg \<Rightarrow> do { drain \<leftarrow> Draining; ret (clone_checks ho req drain vg) }
      }) (\<lambda>r _. \<forall>g. r = Inr g \<longrightarrow> authorised ho req c)"
    by (auto simp: hoare_def calls_def Draining_def reads_def MaxPayload_def authorised_def caller_fault_def
        split: prod.splits sum.splits if_splits dest!: clone_checks_pass)
qed

text \<open>C3. A clone succeeds only when its payload is within bounds, its token verifies to a grant for this
  home, the home is not draining, the caller is the one that the grant is bound to (a home may refuse
  unbound grants, and a grant that hands the endpoint over must be bound), and a named session has
  a tenant. Whatever other goroutines do cannot change that.\<close>

theorem Clone_authorised:
  assumes "run_state (Clone ho cx req) c = ((resp, OK, err), c')"
  shows "authorised ho req c"
proof -
  have "hoare (\<lambda>s. s = c) (Clone ho cx req) (\<lambda>out _. fst (snd out) = OK \<longrightarrow> authorised ho req c)"
    unfolding Clone_def
  proof (rule hoare_bind)
    show "hoare (\<lambda>s. s = c) (clone_frontend ho req)
        (\<lambda>r _. (\<forall>rf. r = Inl rf \<longrightarrow> refuses rf) \<and> (\<forall>g. r = Inr g \<longrightarrow> authorised ho req c))"
      using frontend_authorises [of c ho req] clone_frontend_answers [of ho req]
      by (auto simp: hoare_def split: prod.splits)
  qed (auto simp: hoare_def refused_def split: prod.splits sum.splits)
  from hoareD [OF this _ assms] show ?thesis by simp
qed

theorem Clone_authorised_witness:
  "fst (snd (fst (run_state (Clone demo_home demo_ctx (demo_clone ''s'')) (stub_start 7 0 [])))) = OK \<and>
   authorised demo_home (demo_clone ''s'') (stub_start 7 0 [])"
proof -
  have ok: "fst (snd (fst (run_state (Clone demo_home demo_ctx (demo_clone ''s'')) (stub_start 7 0 [])))) = OK"
    by (simp add: demo_exec cong: bind_waits)
  then have "run_state (Clone demo_home demo_ctx (demo_clone ''s'')) (stub_start 7 0 []) = ((r, OK, e), c')"
    if "r = fst (fst (run_state (Clone demo_home demo_ctx (demo_clone ''s'')) (stub_start 7 0 [])))"
      "e = snd (snd (fst (run_state (Clone demo_home demo_ctx (demo_clone ''s'')) (stub_start 7 0 []))))"
      "c' = snd (run_state (Clone demo_home demo_ctx (demo_clone ''s'')) (stub_start 7 0 []))" for r e c'
    unfolding that by (simp add: prod_eq_iff)
  from ok Clone_authorised [OF this] show ?thesis by blast
qed

end
