(* ===== verification/Fading.thy ===== *)
theory Fading
  imports Core_Refines
begin

text \<open>
  Calls that start no fiber. Every call into the ledger but \<open>commit\<close> is one, so a property that holds
  of fewer fibers too survives \<open>Park\<close>, \<open>Release\<close>, \<open>Yield\<close> and \<open>Drain\<close>: the locale \<open>fading\<close>.
\<close>

section \<open>Ledgers with fewer fibers\<close>

definition fades :: "Ledger \<Rightarrow> Ledger \<Rightarrow> bool" where
  "fades l l' \<longleftrightarrow>
     lEpoch l \<le> lEpoch l' \<and>
     (\<forall>fid ref. map_of (lFibers l') fid = Some ref \<longrightarrow>
        (\<exists>ref'. map_of (lFibers l) fid = Some ref' \<and> rFence ref' = rFence ref \<and> rGrantUID ref' = rGrantUID ref))"

lemma fades_refl: "fades l l"
  by (simp add: fades_def)

lemma fades_same: "lEpoch l \<le> lEpoch l' \<Longrightarrow> lFibers l' = lFibers l \<Longrightarrow> fades l l'"
  by (simp add: fades_def)

lemma fades_less: "lEpoch l \<le> lEpoch l' \<Longrightarrow> lFibers l' = AList.delete fid (lFibers l) \<Longrightarrow> fades l l'"
  by (auto simp: fades_def gomap split: if_splits)

lemma drop_fiber_fibers: "lEpoch (drop_fiber l fid ref) = lEpoch l" "lFibers (drop_fiber l fid ref) = AList.delete fid (lFibers l)"
  by (simp_all add: drop_fiber_def Let_def split: option.splits)

lemma onGone_fibers: "lEpoch (fst (onGone l fid)) = lEpoch l" "map_of (lFibers (fst (onGone l fid))) = (map_of (lFibers l))(fid := None)"
  by (auto simp: onGone_def drop_fiber_fibers Let_def gomap split: option.splits prod.splits)

lemma OnPark_fibers: "lEpoch (fst (OnPark l fid ref)) = lEpoch l" "map_of (lFibers (fst (OnPark l fid ref))) = (map_of (lFibers l))(fid := None)"
  by (auto simp: OnPark_def drop_fiber_fibers Let_def gomap split: option.splits prod.splits)

lemma gone_fades: "fades l (fst (onGone l fid))"
  by (auto simp: fades_def onGone_fibers split: if_splits)

lemma park_fades: "fades l (fst (OnPark l fid ref))"
  by (auto simp: fades_def OnPark_fibers split: if_splits)

lemma gates_fade: "same_but_gates l l' \<Longrightarrow> fades l l'"
  by (auto simp: same_but_gates_def fades_def)

lemma AdmitGrant_fades: "fades l (AdmitGrant l g)"
  by (rule fades_same) (auto simp: AdmitGrant_def Let_def split: option.splits)

lemma RevokeGrant_fades: "fades l (RevokeGrant l uid)"
  by (rule fades_same) (auto simp: RevokeGrant_def Let_def split: option.splits)

lemma BumpEpoch_fades: "fades l (Ledger_BumpEpoch l e)"
  by (rule fades_same) (auto simp: Ledger_BumpEpoch_def)

lemma ForgetSession_fades: "fades l (ForgetSession l uid session)"
  by (rule fades_same) (auto simp: ForgetSession_def Let_def split: option.splits)

lemma SetPooled_fades: "fades l (fst (SetPooled l uid n))"
  by (rule fades_same) (auto simp: SetPooled_def split: option.splits)

lemma SetFiberW_fades: "fades l (SetFiberW l fid b)"
  by (auto simp: fades_def SetFiberW_def gomap split: option.splits if_splits)

lemma restore_fades: "restoreParked l ss = Inr m \<Longrightarrow> fades l m"
  by (drule restoreParked_shape(3)) (simp add: fades_def)

lemma resolve_fades: "resolveHeld l now gt uid name tier = (m, out) \<Longrightarrow> fades l m"
  by (rule fades_same)
    (auto simp: resolveHeld_def reserve_mint_def reserve_def mint_def Let_def split: option.splits if_splits SessionState.splits)

lemma unlock_fades: "fades l (res_unlock l r)"
  by (rule fades_same) (simp_all add: res_unlock_def)

lemmas all_fade =
  gone_fades park_fades AdmitGrant_fades RevokeGrant_fades BumpEpoch_fades ForgetSession_fades SetPooled_fades
  SetFiberW_fades unlock_fades gates_fade

text \<open>A step starts no fiber, or one whose fence is of the ledger's epoch.\<close>

lemma step_fades:
  assumes "step False s s'"
  shows "fades (sL s) (sL s') \<or>
    (\<exists>r name h refuse r' ok. res_commit (sL s) r refuse (clone_session r name h) = (sL s', r', ok))"
  using assms
proof (induction rule: step.induct)
  case (commit s i r name h refuse l r' ok)
  have "res_commit (sL s) r refuse (clone_session r name h) = (sL (s\<lparr>sL := l, sOps := AList.update i (Resolved r' name) (sOps s)\<rparr>), r', ok)"
    using commit(5) by simp
  then show ?case by blast
qed (rule disjI1, simp add: resolved_def all_fade restore_fades resolve_fades)+

lemma commit_starts:
  assumes "res_commit l r refuse (clone_session r name h) = (l', r', ok)"
  shows "lEpoch l' = lEpoch l"
    and "map_of (lFibers l') fid = Some ref \<Longrightarrow> map_of (lFibers l) fid = Some ref \<or> fEpoch (rFence ref) = lEpoch l"
  using assms by (auto simp: res_commit_def clone_session_def commit_refused_def Let_def gomap split: if_splits)

lemma step_starts:
  assumes "step False s s'" "map_of (lFibers (sL s')) fid = Some ref"
  shows "(\<exists>ref'. map_of (lFibers (sL s)) fid = Some ref' \<and> rFence ref' = rFence ref) \<or> fEpoch (rFence ref) = lEpoch (sL s)"
  using step_fades [OF assms(1)]
proof (elim disjE exE)
  assume "fades (sL s) (sL s')"
  with assms(2) show ?thesis unfolding fades_def by blast
next
  fix r name h refuse r' ok assume "res_commit (sL s) r refuse (clone_session r name h) = (sL s', r', ok)"
  from commit_starts(2) [OF this assms(2)] show ?thesis by blast
qed

lemma step_epoch: "step False s s' \<Longrightarrow> lEpoch (sL s) \<le> lEpoch (sL s')"
  using step_fades [of s s'] commit_starts(1) by (fastforce simp: fades_def)

section \<open>Calls that end fibers\<close>

text \<open>
  The interface between those handlers and a property that survives when fibers go, with the grants
  as they are.
\<close>

locale fading = unseen ho I for ho :: "'w Home" and I :: "'w Core \<Rightarrow> bool" +
  assumes fewer: "I c \<Longrightarrow> fades (cLedger c) l \<Longrightarrow> (\<And>uid. Ledger_Grant l uid = Ledger_Grant (cLedger c) uid) \<Longrightarrow> I (on_ledger c l)"
    and wait_gate: "I c \<Longrightarrow> I (hoWaitGate ho key c)"
begin

lemma ledger_fades:
  "(\<And>l. fades l (fst (f l))) \<Longrightarrow> (\<And>l uid. Ledger_Grant (fst (f l)) uid = Ledger_Grant l uid) \<Longrightarrow> keeps I (ledger f)"
  by (rule hoare_ledger) (metis fewer fst_conv)

lemma release_keeps: "keeps I (ledger (\<lambda>l. OnRelease l fid))"
  by (rule ledger_fades) (simp_all add: OnRelease_def split_beta Let_def gone_fades grants_kept)

lemma park_keeps: "keeps I (ledger (\<lambda>l. OnPark l fid ref))"
  by (rule ledger_fades) (simp_all add: park_fades grants_kept)

lemma gate_keeps:
  "keeps I (hold_gate ho uid session)"
  "keeps I (release_gate gate)"
  unfolding hold_gate_def release_gate_def Let_def
  by (intro keeps ledger_fades hoare_changes wait_gate; simp add: gates_fade grants_kept)+

lemma Release_keeps: "keeps I (Release ho fid discard)"
  unfolding Release_def by (intro keeps release_keeps base helpers)

lemma parks_keeps: "keeps I (park ho fid sync)"
  unfolding park_def park_held_def park_settle_def park_publish_def
  by (intro keeps gate_keeps park_keeps base helpers)

lemma yield_one_keeps: "keeps I (yield_one ho reason f)"
  unfolding yield_one_def yield_release_def by (intro keeps release_keeps base helpers)

lemma drainOne_keeps: "keeps I (drainOne ho f)"
  unfolding drainOne_def by (intro keeps Release_keeps parks_keeps)

lemma drainBatch_keeps: "keeps I (drainBatch ho ended fs)"
proof (induction fs)
  case (Cons f fs)
  show ?case unfolding drainBatch.simps by (intro keeps drainOne_keeps Cons)
qed (simp add: keeps_ret)

end

end
