(* ===== verification/Epoch_Fencing.thy ===== *)
theory Epoch_Fencing
  imports Fading Stub_Home
begin

text \<open>
  What \<open>BumpEpoch\<close> promises: once it has returned an epoch, no fiber of an older one runs, then or
  after any later call, whatever other goroutines do meanwhile.
\<close>

section \<open>Fibers of an epoch\<close>

text \<open>\<open>old_only e X s\<close>: the ledger has reached epoch \<open>e\<close>, and the fibers outside \<open>X\<close> are of it or later.\<close>

definition old_only :: "u64 \<Rightarrow> string set \<Rightarrow> sys \<Rightarrow> bool" where
  "old_only e X s \<longleftrightarrow>
     e \<le> lEpoch (sL s) \<and>
     (\<forall>fid ref. map_of (lFibers (sL s)) fid = Some ref \<longrightarrow> fid \<in> X \<or> e \<le> fEpoch (rFence ref))"

lemma old_only_closed: "closed (old_only e X)"
  unfolding closed_def
proof (intro allI impI)
  fix s s' assume old: "old_only e X s" and step: "step False s s'"
  have "fid \<in> X \<or> e \<le> fEpoch (rFence ref)" if ref: "map_of (lFibers (sL s')) fid = Some ref" for fid ref
    using step_starts [OF step ref] old unfolding old_only_def by metis
  then show "old_only e X s'" using old step_epoch [OF step] unfolding old_only_def by auto
qed

lemma sim_mono: "sim P J i own ph c \<Longrightarrow> (\<And>s. P s \<Longrightarrow> sL s = cLedger c \<Longrightarrow> Q s) \<Longrightarrow> sim Q J i own ph c"
  unfolding sim_def by blast

lemma old_only_less:
  assumes "sim (old_only e X) J i own ph c"
    and "\<And>ref. map_of (lFibers (cLedger c)) fid = Some ref \<Longrightarrow> e \<le> fEpoch (rFence ref)"
  shows "sim (old_only e (X - {fid})) J i own ph c"
  using assms(1) by (rule sim_mono) (use assms(2) in \<open>auto simp: old_only_def\<close>)

section \<open>BumpEpoch\<close>

lemma gone_settles:
  fixes ho :: "'w Home"
  assumes "environment ho J i"
  shows "hoare (sim (old_only e X) J i own ph :: 'w Core \<Rightarrow> bool) (ledger (\<lambda>l. OnRelease l fid))
    (\<lambda>_. sim (old_only e (X - {fid})) J i own ph)"
proof (rule hoare_ledger)
  fix c :: "'w Core" and l and r :: "string \<times> string"
  assume c: "sim (old_only e X) J i own ph c" and l: "OnRelease (cLedger c) fid = (l, r)"
  have "l = fst (onGone (cLedger c) fid)" using l by (auto simp: OnRelease_def split: prod.splits)
  with protocol.gone [OF simulation [OF assms old_only_closed] c]
  show "sim (old_only e (X - {fid})) J i own ph (on_ledger c l)"
    by (intro old_only_less) (simp_all add: onGone_fibers)
qed

lemma bump_one_settles:
  fixes ho :: "'w Home"
  assumes env: "environment ho J i"
  shows "hoare (sim (old_only e X) J i own ph) (bump_one ho e reason fid) (\<lambda>_. sim (old_only e (X - {fid})) J i own ph)"
    (is "hoare (?I X) _ (\<lambda>_. ?I ?Y)")
proof -
  note unseen = sim_unseen [OF env old_only_closed]
  have release: "hoare (?I X) (bump_release ho reason fid fence) (\<lambda>_. ?I ?Y)" for fence
    unfolding bump_release_def
    by (rule keeps_bind [OF unseen.calls_keeps [OF unseen] hoare_bind [OF gone_settles [OF env]]])
      (intro keeps unseen.helpers [OF unseen])
  show ?thesis
    unfolding bump_one_def
    by (rule hoare_bind [where R = "\<lambda>known c. ?I X c \<and> known = Ledger_Fiber (cLedger c) fid"],
        rule hoare_looks, simp, intro hoare_option hoare_if hoare_ret hoare_conseq [OF release])
      (auto intro: old_only_less simp: Ledger_Fiber_def)
qed

lemma bump_all_settles:
  "environment ho J i \<Longrightarrow>
   hoare (sim (old_only e X) J i own ph) (each (bump_one ho e reason) ids) (\<lambda>_. sim (old_only e (X - set ids)) J i own ph)"
proof (induction ids arbitrary: X)
  case (Cons fid ids)
  from hoare_bind [OF bump_one_settles [OF Cons.prems] Cons.IH [OF Cons.prems]] show ?case
    by (simp add: Diff_insert2 [symmetric])
qed (simp add: keeps_ret)

lemma BumpEpoch_settles:
  fixes ho :: "'w Home"
  assumes env: "environment ho J i"
  shows "hoare (sim (\<lambda>s. True) J i own ph) (Core_BumpEpoch ho reason)
    (\<lambda>r c. \<forall>e. r = Inr e \<longrightarrow> sim (old_only e {}) J i own ph c)"
proof -
  note any = sim_unseen [OF env closed_True]
  note unseen = sim_unseen [OF env old_only_closed]
  have moved: "hoare (sim (\<lambda>s. True) J i own ph :: 'w Core \<Rightarrow> bool) (ledger (\<lambda>l. (Ledger_BumpEpoch l e, ())))
      (\<lambda>_. sim (old_only e UNIV) J i own ph)" for e
  proof (rule hoare_ledger)
    fix c :: "'w Core" and l and r :: unit
    assume c: "sim (\<lambda>s. True) J i own ph c" and l: "(Ledger_BumpEpoch (cLedger c) e, ()) = (l, r)"
    from protocol.bump [OF simulation [OF env closed_True] c, of e] l
    show "sim (old_only e UNIV) J i own ph (on_ledger c l)"
      by (auto elim!: sim_mono simp: old_only_def Ledger_BumpEpoch_def)
  qed
  have listed: "hoare (sim (old_only e UNIV) J i own ph :: 'w Core \<Rightarrow> bool) (looks RunningFibers)
      (\<lambda>ids. sim (old_only e (set ids)) J i own ph)" for e
    by (rule hoare_looks) (erule sim_mono, auto simp: old_only_def RunningFibers_def dest!: map_of_SomeD intro: rev_image_eqI)
  have sweep: "hoare (sim (\<lambda>s. True) J i own ph) (bump_sweep ho reason e)
      (\<lambda>r c. \<forall>e. r = Inr e \<longrightarrow> sim (old_only e {}) J i own ph c)" for e
  proof -
    have left: "hoare (sim (old_only e (set ids)) J i own ph) (each (bump_one ho e reason) ids)
        (\<lambda>_. sim (old_only e {}) J i own ph)" for ids
      using bump_all_settles [OF env, of e "set ids" own ph reason ids] by simp
    show ?thesis
      unfolding bump_sweep_def
      by (rule hoare_bind [OF moved hoare_bind [OF listed hoare_bind [OF left]]])
        (intro keeps_bind unseen.helpers [OF unseen] hoare_ret, simp)
  qed
  show ?thesis
    unfolding Core_BumpEpoch_def by (intro keeps_bind keeps sweep unseen.base [OF any] hoare_ret) simp_all
qed

section \<open>Old fibers are gone for good\<close>

text \<open>C2. Once \<open>BumpEpoch\<close> has returned an epoch, no fiber of an earlier epoch runs: not when it returns,
  and not after any calls that follow, whatever other goroutines do to the ledger meanwhile within
  the protocol. The ledger's epoch never falls behind it either.\<close>

theorem bump_fences_old_fibers:
  assumes env: "environment ho J i" and "cLedger c0 = NewLedger e0"
    and "c1 = snd (run_state (each (serve ho) before) c0)"
    and bump: "run_state (Core_BumpEpoch ho reason) c1 = (Inr e, c2)"
    and "c3 = snd (run_state (each (serve ho) later) c2)"
    and "map_of (lFibers (cLedger c3)) fid = Some ref"
  shows "e \<le> fEpoch (rFence ref) \<and> e \<le> lEpoch (cLedger c3)"
proof -
  have "sim (\<lambda>s. True) J i None Idle c1"
    unfolding assms(3)
    by (rule protocol.serves_keeps [OF simulation [OF env closed_True] sim_new [OF assms(2)]]) simp_all
  from hoareD [OF BumpEpoch_settles [OF env] this bump] have "sim (old_only e {}) J i None Idle c2" by simp
  then have "sim (old_only e {}) J i None Idle c3"
    unfolding assms(5) by (rule protocol.serves_keeps [OF simulation [OF env old_only_closed]]) simp
  with assms(6) show ?thesis by (auto simp: sim_def old_only_def)
qed

definition demo_before :: "stub_world Core" where
  "demo_before =
     snd (run_state (each (serve demo_home) [CallAdmit demo_ctx sample_grant, CallClone demo_ctx (demo_clone ''s'')])
       (stub_start 7 0 []))"

definition demo_bumped :: "(goerr + u64) \<times> stub_world Core" where
  "demo_bumped = run_state (Core_BumpEpoch demo_home ''scope lost'') demo_before"

definition demo_after :: "stub_world Core" where
  "demo_after = snd (run_state (each (serve demo_home) [CallClone demo_ctx (demo_clone ''s'')]) (snd demo_bumped))"

lemma demo_epoch_fence: "Fence_String \<lparr>fGrantUID = ''g-1'', fEpoch = 8, fSeq = 2\<rparr> = ''g-1/8/2''"
  by code_simp

lemma demo_bump:
  "fst demo_bumped = Inr 8 \<and> map_of (lFibers (cLedger demo_after)) ''g-1/8/2'' \<noteq> None \<and>
   map_of (lFibers (cLedger demo_before)) ''g-1/7/1'' \<noteq> None"
  apply (simp add: demo_after_def demo_bumped_def demo_before_def demo_epoch_fence EpochStore_Bump_def demo_exec cong: bind_waits)
  done

theorem bump_fences_old_fibers_witness:
  "map_of (lFibers (cLedger demo_before)) ''g-1/7/1'' \<noteq> None \<and> fst demo_bumped = Inr 8 \<and>
   (\<exists>ref. map_of (lFibers (cLedger demo_after)) ''g-1/8/2'' = Some ref \<and> 8 \<le> fEpoch (rFence ref)) \<and>
   8 \<le> lEpoch (cLedger demo_after)"
proof -
  from demo_bump obtain ref where ref: "map_of (lFibers (cLedger demo_after)) ''g-1/8/2'' = Some ref" by auto
  have "run_state (Core_BumpEpoch demo_home ''scope lost'') demo_before = (Inr 8, snd demo_bumped)"
    using demo_bump by (simp add: demo_bumped_def prod_eq_iff)
  from bump_fences_old_fibers [OF _ _ demo_before_def this demo_after_def ref, of "{}" 0 7] ref demo_bump
  show ?thesis by (simp add: demo_home_def stub_environment stub_start_def)
qed

end
