(* ===== verification/Drain_Ends.thy ===== *)
theory Drain_Ends
  imports Fading Stub_Home
begin

text \<open>
  \<open>Drain\<close> ends. It lists the fibers it has not tried until there are none; a clone in flight is refused
  at its commit while the core drains, so no fiber starts, and each list tries a fiber for the
  first time.
\<close>

definition fids :: "'w Core \<Rightarrow> string set" where
  "fids c = fst ` set (lFibers (cLedger c))"

text \<open>While the core drains, other goroutines leave it draining and start no fiber.\<close>

definition drains :: "'w Home \<Rightarrow> bool" where
  "drains ho \<longleftrightarrow>
     (\<forall>c. cDraining c \<longrightarrow> cDraining (hoOthers ho c) \<and> fids (hoOthers ho c) \<subseteq> fids c) \<and>
     (\<forall>key c. cDraining c \<longrightarrow> cDraining (hoWaitGate ho key c) \<and> fids (hoWaitGate ho key c) \<subseteq> fids c)"

definition draining :: "string set \<Rightarrow> 'w Core \<Rightarrow> bool" where
  "draining S c \<longleftrightarrow> cDraining c \<and> fids c \<subseteq> S"

lemma fids_dom: "fids c = dom (map_of (lFibers (cLedger c)))"
  by (simp add: fids_def dom_map_of_conv_image_fst)

lemma fades_fids: "fades (cLedger c) l \<Longrightarrow> fids (on_ledger c l) \<subseteq> fids c"
  by (fastforce simp: fids_dom fades_def)

lemma draining_fading: "drains ho \<Longrightarrow> fading ho (draining S)"
proof
  assume ho: "drains ho"
  show "draining S c'" if "cLedger c = cLedger c'" "cAdmitting c = cAdmitting c'" "cDraining c = cDraining c'" "draining S c" for c c'
    using that by (simp add: draining_def fids_def)
  show "draining S (hoOthers ho c)" "draining S (hoWaitGate ho key c)" if "draining S c" for c key
    using ho that unfolding draining_def drains_def by blast+
  show "draining S (on_ledger c l)" if "draining S c" "fades (cLedger c) l" for c l
    using that fades_fids [OF that(2)] by (auto simp: draining_def)
qed

lemma listed_running:
  assumes "drainList l tried = (batch, tried')"
  shows "set tried' = set tried \<union> fiID ` set batch" "fiID ` set batch \<subseteq> fst ` set (lFibers l) - set tried"
proof -
  define fs where "fs = filter (\<lambda>f. fiID f \<notin> set tried) (concat (map (\<lambda>st. FibersOf l (stGrantUID st)) (Statuses l)))"
  have "batch = filter (\<lambda>f. fiSession f \<noteq> []) fs @ filter (\<lambda>f. fiSession f = []) fs" and tried': "tried' = tried @ map fiID fs"
    using assms by (simp_all add: drainList_def Let_def fs_def del: filter_filter)
  then have batch: "set batch = set fs" by auto
  with tried' show "set tried' = set tried \<union> fiID ` set batch" by simp
  have "fiID f \<in> fst ` set (lFibers l)" if "f \<in> set (FibersOf l uid)" for f uid
    using that by (force simp: FibersOf_def)
  then show "fiID ` set batch \<subseteq> fst ` set (lFibers l) - set tried"
    unfolding batch by (auto simp: fs_def)
qed

lemma hoare_fact: "(A \<Longrightarrow> hoare P m Q) \<Longrightarrow> hoare (\<lambda>s. P s \<and> A) m Q"
  by (auto simp: hoare_def)

lemma drain_loop_ends:
  assumes ho: "drains ho" and S: "finite S"
  shows "card (S - set tried) < n \<Longrightarrow>
    hoare (draining S) (drain_loop ho ended n tried rep) (\<lambda>r c. r \<noteq> None \<and> draining S c)"
proof (induction n arbitrary: tried rep)
  case (Suc n)
  note fading = draining_fading [OF ho, of S]
  define new where "new bt \<longleftrightarrow> set (snd bt) = set tried \<union> fiID ` set (fst bt) \<and> fiID ` set (fst bt) \<subseteq> S - set tried"
    for bt :: "FiberInfo list \<times> string list"
  have list: "hoare (draining S) (looks (\<lambda>l. drainList l tried)) (\<lambda>bt c. draining S c \<and> new bt)"
  proof (rule hoare_looks)
    show "draining S c \<and> new (drainList (cLedger c) tried)" if "draining S c" for c
      using that listed_running [of "cLedger c" tried] unfolding new_def draining_def fids_def
      by (cases "drainList (cLedger c) tried") auto
  qed
  have fresh: "card (S - set tried') < n" if "new (batch, tried')" "batch \<noteq> []" for batch tried'
  proof -
    from that obtain f where f: "f \<in> set batch" by (cases batch) auto
    with that have "fiID f \<in> S - set tried" "S - set tried' \<subseteq> S - set tried - {fiID f}" by (auto simp: new_def)
    then have "card (S - set tried') < card (S - set tried)" using S by (intro psubset_card_mono) auto
    with Suc.prems show ?thesis by simp
  qed
  show ?case
    unfolding drain_loop.simps
    by (rule hoare_bind [OF list], rule hoare_fact, rule hoare_prod,
        intro keeps_bind keeps_reads hoare_if hoare_ret fading.drainBatch_keeps [OF fading] Suc.IH fresh)
      simp_all
qed simp


section \<open>On the stub\<close>

lemma other_ledger_fades: "fades l (other_ledger ev l)"
  by (cases ev) (simp_all add: all_fade fades_refl)

lemma stub_drains: "drains (stub_home unmarshal keys)"
proof -
  have "fids (stub_others c) \<subseteq> fids c" for c
    using fades_fids [of c, OF other_ledger_fades]
    by (auto simp: stub_others_def fids_def split: list.splits)
  then show ?thesis by (auto simp: drains_def stub_others_def split: list.splits)
qed

interpretation stub_drain: fading "stub_home unmarshal keys" "draining S" for unmarshal keys S
  by (rule draining_fading [OF stub_drains])

definition demo_two :: "stub_world Core" where
  "demo_two =
     snd (run_state (each (serve demo_home)
       [CallAdmit demo_ctx sample_grant, CallClone demo_ctx (demo_clone ''s''), CallClone demo_ctx (demo_clone [])])
       (stub_start 7 0 []))"


end
