(* ===== verification/Yield_Ends.thy ===== *)
theory Yield_Ends
  imports Drain_Ends
begin

text \<open>
  \<open>Yield\<close>, which the lease sweep, the pressure ladder and \<open>Remove\<close> end a grant with: afterwards the
  ledger neither holds the grant nor runs a fiber of it, even where the runtime failed to release one.
\<close>

definition fids_of :: "string \<Rightarrow> 'w Core \<Rightarrow> string set" where
  "fids_of uid c = {fid. \<exists>ref. map_of (lFibers (cLedger c)) fid = Some ref \<and> rGrantUID ref = uid}"

text \<open>Once the grant is gone, other goroutines do not admit it again meanwhile, and start no fiber of it.\<close>

definition spares_uid :: "string \<Rightarrow> 'w Core \<Rightarrow> 'w Core \<Rightarrow> bool" where
  "spares_uid uid c c' \<longleftrightarrow>
     (Ledger_Grant (cLedger c) uid = None \<longrightarrow> Ledger_Grant (cLedger c') uid = None \<and> fids_of uid c' \<subseteq> fids_of uid c)"

definition leaves :: "'w Home \<Rightarrow> string \<Rightarrow> bool" where
  "leaves ho uid \<longleftrightarrow>
     (\<forall>c. spares_uid uid c (hoOthers ho c)) \<and> (\<forall>key c. spares_uid uid c (hoWaitGate ho key c))"

definition yielded :: "string \<Rightarrow> string set \<Rightarrow> 'w Core \<Rightarrow> bool" where
  "yielded uid X c \<longleftrightarrow> Ledger_Grant (cLedger c) uid = None \<and> fids_of uid c \<subseteq> X"

lemma yielded_spared: "spares_uid uid c c' \<Longrightarrow> yielded uid X c \<Longrightarrow> yielded uid X c'"
  by (auto simp: spares_uid_def yielded_def)

lemma fades_fids_of: "fades (cLedger c) l \<Longrightarrow> fids_of uid (on_ledger c l) \<subseteq> fids_of uid c"
  unfolding fades_def fids_of_def by force

lemma yielded_fading: "leaves ho uid \<Longrightarrow> fading ho (yielded uid X)"
proof
  assume ho: "leaves ho uid"
  show "yielded uid X c'" if "cLedger c = cLedger c'" "yielded uid X c" for c c'
    using that by (simp add: yielded_def fids_of_def)
  show "yielded uid X (hoOthers ho c)" "yielded uid X (hoWaitGate ho key c)" if "yielded uid X c" for c key
    using ho yielded_spared [OF _ that] unfolding leaves_def by blast+
  show "yielded uid X (on_ledger c l)" if "yielded uid X c" "fades (cLedger c) l"
    "\<And>u. Ledger_Grant l u = Ledger_Grant (cLedger c) u" for c l
    using that fades_fids_of [OF that(2), of uid] by (auto simp: yielded_def)
qed

lemma yield_one_settles:
  assumes "leaves ho uid"
  shows "hoare (yielded uid X) (yield_one ho reason f) (\<lambda>_. yielded uid (X - {fiID f}))"
proof -
  note fading = yielded_fading [OF assms]
  note unseen = fading.axioms(1) [OF fading]
  have gone: "hoare (yielded uid X) (ledger (\<lambda>l. OnRelease l (fiID f))) (\<lambda>_. yielded uid (X - {fiID f}))"
    by (rule hoare_ledger) (auto simp: yielded_def fids_of_def OnRelease_def grants_kept onGone_fibers split_beta Let_def split: if_splits)
  have release: "hoare (yielded uid X) (yield_release ho reason f fence) (\<lambda>_. yielded uid (X - {fiID f}))" for fence
    unfolding yield_release_def
    by (rule keeps_bind [OF unseen.calls_keeps [OF unseen] hoare_bind [OF gone]]) (intro keeps unseen.helpers [OF unseen])
  show ?thesis
    unfolding yield_one_def
    by (rule hoare_bind [where R = "\<lambda>known c. yielded uid X c \<and> known = Ledger_Fiber (cLedger c) (fiID f)"],
        rule hoare_looks, simp, intro hoare_option hoare_ret hoare_conseq [OF release])
      (auto simp: yielded_def fids_of_def Ledger_Fiber_def)
qed

lemma yield_all_settles:
  "leaves ho uid \<Longrightarrow>
   hoare (yielded uid X) (each (yield_one ho reason) fs) (\<lambda>_. yielded uid (X - fiID ` set fs))"
proof (induction fs arbitrary: X)
  case (Cons f fs)
  from hoare_bind [OF yield_one_settles [OF Cons.prems] Cons.IH [OF Cons.prems]] show ?case
    by (simp add: Diff_insert2 [symmetric])
qed (simp add: keeps_ret)


section \<open>On the stub\<close>

lemma stub_leaves: "leaves (stub_home unmarshal keys) uid"
proof -
  have "spares_uid uid c (stub_others c)" for c
  proof (cases "swOthers (cW c)")
    case (Cons ev evs)
    have "Ledger_Grant (other_ledger ev (cLedger c)) uid = None" if "Ledger_Grant (cLedger c) uid = None"
      using that other_ledger_grants [of ev "cLedger c" uid] by (cases "Ledger_Grant (other_ledger ev (cLedger c)) uid") auto
    then show ?thesis
      using Cons fades_fids_of [OF other_ledger_fades [of "cLedger c" ev], of uid] by (simp add: spares_uid_def stub_others_def fids_of_def)
  qed (simp add: spares_uid_def stub_others_def)
  then show ?thesis by (simp add: leaves_def spares_uid_def)
qed

interpretation stub_yield: fading "stub_home unmarshal keys" "yielded uid X" for unmarshal keys uid X
  by (rule yielded_fading [OF stub_leaves])


end
