(* ===== verification/Server_Name.thy ===== *)
theory Server_Name
  imports Go_Prelude
begin

text \<open>
  \<open>pkg/handoff/sni.go\<close>: reading the routing key out of a TLS ClientHello, and \<open>peekServerName\<close> of
  \<open>router.go\<close>, which reads it off a socket without consuming a byte.

  A byte is a \<open>char\<close>, its value \<open>u8\<close>. A Go slice that is read from the front is a list; every read
  below checks the length first, as the source does, so no access is out of range.
\<close>

section \<open>The parser\<close>

datatype hello_error =
    ErrNotTLS
  | ErrShort string
  | ErrMalformed string
  | ErrNoServerName

abbreviation u8 :: "char \<Rightarrow> nat" where
  "u8 c \<equiv> of_char c"

text \<open>\<open>binary.BigEndian.Uint16(b)\<close>.\<close>

definition Uint16 :: "bytes \<Rightarrow> nat" where
  "Uint16 b = u8 (b ! 0) * 256 + u8 (b ! 1)"

definition parser_skip :: "nat \<Rightarrow> bytes \<Rightarrow> bytes option" where
  "parser_skip n p = (if length p < n then None else Some (drop n p))"

definition parser_u16 :: "bytes \<Rightarrow> (nat \<times> bytes) option" where
  "parser_u16 p = (if length p < 2 then None else Some (Uint16 p, drop 2 p))"

definition parser_vec :: "nat \<Rightarrow> bytes \<Rightarrow> (bytes \<times> bytes) option" where
  "parser_vec lenBytes p =
     (if length p < lenBytes then None
      else
        let n = (if lenBytes = 2 then Uint16 p else u8 (p ! 0));
            q = drop lenBytes p
        in if length q < n then None else Some (take n q, drop n q))"

definition skipVec :: "nat \<Rightarrow> bytes \<Rightarrow> bytes option" where
  "skipVec lenBytes p = map_option snd (parser_vec lenBytes p)"

text \<open>The inner loop, over the names of a server name list.\<close>

function name_list :: "bytes \<Rightarrow> hello_error + string" where
  "name_list l =
     (if l = [] then Inl ErrNoServerName
      else
        case parser_vec 2 (tl l) of
          None \<Rightarrow> Inl (ErrMalformed [])
        | Some (name, rest) \<Rightarrow>
            if u8 (hd l) = 0 then (if name = [] then Inl (ErrMalformed []) else Inr name)
            else name_list rest)"
  by pat_completeness auto
termination
  by (relation "measure length") (auto simp: parser_vec_def Let_def split: if_splits)

declare name_list.simps [simp del]

text \<open>The loop over the extensions.\<close>

function ext_loop :: "bytes \<Rightarrow> hello_error + string" where
  "ext_loop exts =
     (if exts = [] then Inl ErrNoServerName
      else
        case parser_u16 exts of
          None \<Rightarrow> Inl (ErrMalformed [])
        | Some (typ, e1) \<Rightarrow>
            (case parser_vec 2 e1 of
               None \<Rightarrow> Inl (ErrMalformed [])
             | Some (data, e2) \<Rightarrow>
                 if typ \<noteq> 0 then ext_loop e2
                 else
                   (case parser_vec 2 data of
                      None \<Rightarrow> Inl (ErrMalformed [])
                    | Some (l, r) \<Rightarrow> name_list l)))"
  by pat_completeness auto
termination
  by (relation "measure length") (auto simp: parser_vec_def parser_u16_def Let_def split: if_splits)

declare ext_loop.simps [simp del]

definition hello_body :: "bytes \<Rightarrow> hello_error + string" where
  "hello_body p =
     (case Option.bind (Option.bind (Option.bind (parser_skip (2 + 32) p) (skipVec 1)) (skipVec 2)) (skipVec 1) of
        None \<Rightarrow> Inl (ErrMalformed [])
      | Some q \<Rightarrow>
          if q = [] then Inl ErrNoServerName
          else case parser_vec 2 q of
                 None \<Rightarrow> Inl (ErrMalformed [])
               | Some (exts, r) \<Rightarrow> ext_loop exts)"

definition hello_record :: "bytes \<Rightarrow> hello_error + string" where
  "hello_record rec =
     (if length rec < 4 \<or> u8 (rec ! 0) \<noteq> 1 then Inl ErrNotTLS
      else
        let hsLen = u8 (rec ! 1) * 65536 + u8 (rec ! 2) * 256 + u8 (rec ! 3)
        in if hsLen > length rec - 4
           then Inl (ErrMalformed ('': ClientHello of '' @ format_nat hsLen @ '' bytes spans records''))
           else hello_body (take hsLen (drop 4 rec)))"

definition MaxHello :: nat where
  "MaxHello = 5 + 16384"

definition ServerName :: "bytes \<Rightarrow> hello_error + string" where
  "ServerName b =
     (if length b < 5 then (if length b > 0 \<and> u8 (b ! 0) \<noteq> 22 then Inl ErrNotTLS else Inl (ErrShort []))
      else if u8 (b ! 0) \<noteq> 22 \<or> u8 (b ! 1) \<noteq> 3 then Inl ErrNotTLS
      else
        let recLen = Uint16 (drop 3 b)
        in if recLen > MaxHello - 5 then Inl (ErrMalformed ('': record of '' @ format_nat recLen @ '' bytes''))
           else if length b < 5 + recLen then Inl (ErrShort [])
           else hello_record (take recLen (drop 5 b)))"

section \<open>Peeking\<close>

text \<open>
  \<open>peekServerName\<close> on a connection that will receive \<open>stream\<close>. A peek sees what has arrived, up to the
  buffer's size. \<open>arrived\<close> lists what each peek meets, the number of bytes there or the read's error,
  and ends where the deadline passes. Zero bytes mean that the peer has closed.
\<close>

datatype peek_error = PeekHello hello_error | PeekRead string | PeekDeadline

fun peek_loop :: "bytes \<Rightarrow> nat \<Rightarrow> (string + nat) list \<Rightarrow> peek_error + string" where
  "peek_loop stream room [] = Inl PeekDeadline"
| "peek_loop stream room (Inl e # ks) = Inl (PeekRead e)"
| "peek_loop stream room (Inr k # ks) =
     (let buf = take (min k room) stream in
      if buf = [] then Inl (PeekHello (ErrShort '': closed before the ClientHello''))
      else
        case ServerName buf of
          Inr name \<Rightarrow> Inr name
        | Inl (ErrShort d) \<Rightarrow>
            if length buf = 5 \<and> room = 5 then peek_loop stream (5 + Uint16 (drop 3 buf)) ks
            else peek_loop stream room ks
        | Inl e \<Rightarrow> Inl (PeekHello e))"

definition peekServerName :: "bytes \<Rightarrow> (string + nat) list \<Rightarrow> peek_error + string" where
  "peekServerName stream arrived = peek_loop stream 5 arrived"

section \<open>An answer does not depend on how the bytes arrive\<close>

lemma Uint16_append: "2 \<le> length b \<Longrightarrow> Uint16 (b @ c) = Uint16 b"
  by (cases b) (auto simp: Uint16_def nth_append)

lemma ServerName_append:
  assumes "\<And>d. ServerName b \<noteq> Inl (ErrShort d)"
  shows "ServerName (b @ c) = ServerName b"
proof (cases "length b < 5")
  case True
  with assms [of "[]"] have b: "b \<noteq> []" "u8 (b ! 0) \<noteq> 22" by (auto simp: ServerName_def split: if_splits)
  then have "(b @ c) ! 0 = b ! 0" by (simp add: nth_append)
  with b True show ?thesis by (simp add: ServerName_def)
next
  case False
  then have same: "(b @ c) ! 0 = b ! 0" "(b @ c) ! 1 = b ! 1" "Uint16 (drop 3 (b @ c)) = Uint16 (drop 3 b)"
    by (auto simp: Uint16_append nth_append)
  have "length b < 5 + Uint16 (drop 3 b) \<Longrightarrow> Uint16 (drop 3 b) \<le> MaxHello - 5 \<Longrightarrow>
      u8 (b ! 0) = 22 \<Longrightarrow> u8 (b ! 1) = 3 \<Longrightarrow> False"
    using False assms [of "[]"] by (simp add: ServerName_def Let_def)
  with False show ?thesis unfolding ServerName_def Let_def same
    by (cases "length b < 5 + Uint16 (drop 3 b)") auto
qed

text \<open>A complete record is always decided.\<close>

lemma hello_record_decides: "hello_record rec \<noteq> Inl (ErrShort d)"
proof -
  have names: "name_list l \<noteq> Inl (ErrShort d)" for l
    by (induction l rule: name_list.induct) (subst name_list.simps, auto split: option.splits)
  have "ext_loop e \<noteq> Inl (ErrShort d)" for e
    by (induction e rule: ext_loop.induct) (subst ext_loop.simps, auto simp: names split: option.splits)
  then show ?thesis
    by (auto simp: hello_record_def hello_body_def Let_def split: option.splits)
qed

lemma ServerName_take:
  "(\<And>d. ServerName (take n b) \<noteq> Inl (ErrShort d)) \<Longrightarrow> ServerName b = ServerName (take n b)"
  using ServerName_append [of "take n b" "drop n b"] by simp

section \<open>A reference encoder\<close>

text \<open>
  A ClientHello as RFC 8446 4.1.2 lays it out, with the server name list of RFC 6066 3: an extension is a
  server name list, of name types and names, or one of another type.
\<close>

datatype extension = SNI "(nat \<times> bytes) list" | Ext nat bytes

record client_hello =
  chMinor :: char
  chHead :: bytes
  chSession :: bytes
  chSuites :: bytes
  chCompression :: bytes
  chExtensions :: "extension list"

definition enc16 :: "nat \<Rightarrow> bytes" where
  "enc16 n = [char_of (n div 256), char_of n]"

definition vec8 :: "bytes \<Rightarrow> bytes" where
  "vec8 b = char_of (length b) # b"

definition vec16 :: "bytes \<Rightarrow> bytes" where
  "vec16 b = enc16 (length b) @ b"

definition enc_names :: "(nat \<times> bytes) list \<Rightarrow> bytes" where
  "enc_names ns = concat (map (\<lambda>(t, n). char_of t # vec16 n) ns)"

fun enc_extension :: "extension \<Rightarrow> bytes" where
  "enc_extension (SNI ns) = enc16 0 @ vec16 (vec16 (enc_names ns))"
| "enc_extension (Ext t d) = enc16 t @ vec16 d"

definition enc_body :: "client_hello \<Rightarrow> bytes" where
  "enc_body h = chHead h @ vec8 (chSession h) @ vec16 (chSuites h) @ vec8 (chCompression h) @
     vec16 (concat (map enc_extension (chExtensions h)))"

definition enc_hello :: "client_hello \<Rightarrow> bytes" where
  "enc_hello h = [char_of (22 :: nat), char_of (3 :: nat), chMinor h] @
     vec16 (char_of (1 :: nat) # char_of (length (enc_body h) div 65536) # enc16 (length (enc_body h)) @ enc_body h)"

fun wf_extension :: "extension \<Rightarrow> bool" where
  "wf_extension (SNI ns) \<longleftrightarrow> list_all (\<lambda>(t, n). t < 256) ns"
| "wf_extension (Ext t d) \<longleftrightarrow> 0 < t \<and> t < 65536"

text \<open>The two fixed fields are 34 bytes, the short vectors fit their length byte, and the hello fits one record.\<close>

definition wf_hello :: "client_hello \<Rightarrow> bool" where
  "wf_hello h \<longleftrightarrow> length (chHead h) = 34 \<and> length (chSession h) < 256 \<and> length (chCompression h) < 256 \<and>
     list_all wf_extension (chExtensions h) \<and> length (enc_body h) + 4 \<le> 16384"

text \<open>The host name a hello carries: the first one of its first server name list.\<close>

fun host_of :: "extension list \<Rightarrow> hello_error + string" where
  "host_of [] = Inl ErrNoServerName"
| "host_of (SNI ns # es) =
     (case map_of ns 0 of
        None \<Rightarrow> Inl ErrNoServerName
      | Some n \<Rightarrow> if n = [] then Inl (ErrMalformed []) else Inr n)"
| "host_of (Ext t d # es) = host_of es"

subsection \<open>Reading back what was encoded\<close>

lemma u8_char_of: "u8 (char_of n) = n mod 256"
  by simp

lemma Uint16_enc16: "n < 65536 \<Longrightarrow> Uint16 (enc16 n @ b) = n"
  by (simp add: Uint16_def enc16_def)

lemma length_enc [simp]:
  "length (enc16 n) = 2" "length (vec8 b) = 1 + length b" "length (vec16 b) = 2 + length b"
  by (simp_all add: enc16_def vec8_def vec16_def)

lemma parser_vec_enc:
  "length b < 256 \<Longrightarrow> parser_vec 1 (vec8 b @ c) = Some (b, c)"
  "length b < 65536 \<Longrightarrow> parser_vec 2 (vec16 b @ c) = Some (b, c)"
  using Uint16_enc16 [of "length b" "b @ c"] by (simp_all add: parser_vec_def vec8_def vec16_def)

lemma parser_u16_enc: "n < 65536 \<Longrightarrow> parser_u16 (enc16 n @ b) = Some (n, b)"
  by (simp add: parser_u16_def Uint16_enc16)

lemma enc_names_simps [simp]:
  "enc_names [] = []" "enc_names ((t, n) # ns) = char_of t # vec16 n @ enc_names ns"
  by (simp_all add: enc_names_def)

lemma name_list_enc:
  "length (enc_names ns) < 65536 \<Longrightarrow> list_all (\<lambda>(t, n). t < 256) ns \<Longrightarrow>
   name_list (enc_names ns) =
     (case map_of ns 0 of
        None \<Rightarrow> Inl ErrNoServerName
      | Some n \<Rightarrow> if n = [] then Inl (ErrMalformed []) else Inr n)"
proof (induction ns)
  case Nil
  show ?case by (simp add: name_list.simps)
next
  case (Cons tn ns)
  obtain t n where tn: "tn = (t, n)" by (cases tn)
  with Cons.prems have "parser_vec 2 (vec16 n @ enc_names ns) = Some (n, enc_names ns)" "t < 256"
    by (simp_all add: parser_vec_enc)
  with Cons tn show ?case by (subst name_list.simps) simp
qed

lemma ext_loop_enc:
  "length (concat (map enc_extension es)) < 65536 \<Longrightarrow> list_all wf_extension es \<Longrightarrow>
   ext_loop (concat (map enc_extension es)) = host_of es"
proof (induction es rule: host_of.induct)
  case 1
  show ?case by (simp add: ext_loop.simps)
next
  case (2 ns es)
  let ?r = "concat (map enc_extension es)"
  from 2 have "length (enc_names ns) < 65536" "list_all (\<lambda>(t, n). t < 256) ns" by simp_all
  moreover from 2 have "parser_u16 (enc16 0 @ vec16 (vec16 (enc_names ns)) @ ?r) = Some (0, vec16 (vec16 (enc_names ns)) @ ?r)"
    "parser_vec 2 (vec16 (vec16 (enc_names ns)) @ ?r) = Some (vec16 (enc_names ns), ?r)"
    "parser_vec 2 (vec16 (enc_names ns)) = Some (enc_names ns, [])"
    using parser_vec_enc(2) [of "enc_names ns" "[]"] by (simp_all add: parser_u16_enc parser_vec_enc)
  ultimately show ?case
    by (subst ext_loop.simps) (auto simp: name_list_enc enc16_def split: option.splits)
next
  case (3 t d es)
  let ?r = "concat (map enc_extension es)"
  from 3 have "parser_u16 (enc16 t @ vec16 d @ ?r) = Some (t, vec16 d @ ?r)" "parser_vec 2 (vec16 d @ ?r) = Some (d, ?r)"
    by (simp_all add: parser_u16_enc parser_vec_enc)
  with 3 show ?case by (subst ext_loop.simps) (simp add: enc16_def)
qed

lemma hello_body_enc:
  assumes "wf_hello h"
  shows "hello_body (enc_body h) = host_of (chExtensions h)"
proof -
  let ?e = "concat (map enc_extension (chExtensions h))"
  from assms have l: "length (chHead h) = 34" "length (chSession h) < 256" "length (chCompression h) < 256"
    "length (chSuites h) < 65536" "length ?e < 65536" "list_all wf_extension (chExtensions h)"
    by (simp_all add: wf_hello_def enc_body_def)
  then have "parser_skip (2 + 32) (enc_body h) =
      Some (vec8 (chSession h) @ vec16 (chSuites h) @ vec8 (chCompression h) @ vec16 ?e)"
    by (simp add: parser_skip_def enc_body_def)
  moreover have "vec16 ?e \<noteq> []" by (simp add: vec16_def enc16_def)
  moreover from l have "parser_vec 2 (vec16 ?e) = Some (?e, [])"
    using parser_vec_enc(2) [of ?e "[]"] by simp
  ultimately show ?thesis using l
    by (simp add: hello_body_def skipVec_def parser_vec_enc ext_loop_enc del: One_nat_def)
qed

lemma ServerName_enc:
  assumes "wf_hello h"
  shows "ServerName (enc_hello h) = host_of (chExtensions h)"
proof -
  let ?n = "length (enc_body h)"
  let ?rec = "char_of (1 :: nat) # char_of (?n div 65536) # enc16 ?n @ enc_body h"
  from assms have n: "?n + 4 \<le> 16384" by (simp add: wf_hello_def)
  then have "hello_record ?rec = hello_body (enc_body h)"
    using Uint16_enc16 [of ?n "[]"] by (simp add: hello_record_def enc16_def Uint16_def Let_def)
  moreover from n have "ServerName (enc_hello h) = hello_record ?rec"
    using Uint16_enc16 [of "length ?rec" ?rec]
    by (simp add: ServerName_def enc_hello_def vec16_def MaxHello_def Let_def)
  ultimately show ?thesis using hello_body_enc [OF assms] by simp
qed

lemma enc_hello_length:
  assumes "wf_hello h"
  shows "length (enc_hello h) = 5 + Uint16 (drop 3 (take 5 (enc_hello h @ c)))" "5 < length (enc_hello h)" "enc_hello h \<noteq> []"
proof -
  let ?n = "length (enc_body h)"
  let ?rec = "char_of (1 :: nat) # char_of (?n div 65536) # enc16 ?n @ enc_body h"
  from assms have n: "?n + 4 \<le> 16384" by (simp add: wf_hello_def)
  then show "length (enc_hello h) = 5 + Uint16 (drop 3 (take 5 (enc_hello h @ c)))"
    using Uint16_enc16 [of "length ?rec" "[]"] by (simp add: enc_hello_def vec16_def enc16_def)
  show "5 < length (enc_hello h)" "enc_hello h \<noteq> []" by (simp_all add: enc_hello_def)
qed

lemma host_of_decides: "host_of es \<noteq> Inl (ErrShort d)"
  by (induction es rule: host_of.induct) (auto split: option.splits)

section \<open>Peeking at a hello that arrives in pieces\<close>

lemma ServerName_stream: "wf_hello h \<Longrightarrow> ServerName (enc_hello h @ c) = host_of (chExtensions h)"
  by (simp add: ServerName_append ServerName_enc host_of_decides)

definition peek_answer :: "hello_error + string \<Rightarrow> peek_error + string" where
  "peek_answer r = (case r of Inl e \<Rightarrow> Inl (PeekHello e) | Inr name \<Rightarrow> Inr name)"

lemma peek_short:
  "take (min k room) s \<noteq> [] \<Longrightarrow> ServerName (take (min k room) s) = Inl (ErrShort d) \<Longrightarrow>
   peek_loop s room (Inr k # ks) =
     (if length (take (min k room) s) = 5 \<and> room = 5
      then peek_loop s (5 + Uint16 (drop 3 (take (min k room) s))) ks else peek_loop s room ks)"
  by (simp only: peek_loop.simps Let_def if_False sum.case hello_error.case)

lemma peek_decided:
  assumes "take (min k room) s \<noteq> []" "ServerName (take (min k room) s) = r" "\<forall>d. r \<noteq> Inl (ErrShort d)"
  shows "peek_loop s room (Inr k # ks) = peek_answer r"
proof (cases r)
  case (Inl e)
  with assms show ?thesis
    by (cases e) (simp_all only: peek_loop.simps Let_def if_False sum.case hello_error.case peek_answer_def, blast)
next
  case (Inr name)
  with assms show ?thesis by (simp only: peek_loop.simps Let_def if_False sum.case peek_answer_def)
qed

text \<open>A peek that sees only part of the hello either waits or already knows the answer.\<close>

lemma peek_step:
  assumes "wf_hello h" "0 < k" "0 < room"
  shows "peek_loop (enc_hello h @ c) room (Inr k # ks) = peek_answer (host_of (chExtensions h)) \<or>
     min k room < length (enc_hello h) \<and>
     peek_loop (enc_hello h @ c) room (Inr k # ks) =
       peek_loop (enc_hello h @ c) (if 5 \<le> k \<and> room = 5 then length (enc_hello h) else room) ks"
proof -
  let ?s = "enc_hello h @ c"
  let ?b = "take (min k room) ?s"
  let ?T = "length (enc_hello h)"
  from assms enc_hello_length(3) [of h] have b: "?b \<noteq> []" by auto
  show ?thesis
  proof (cases "\<exists>d. ServerName ?b = Inl (ErrShort d)")
    case True
    then obtain d where d: "ServerName ?b = Inl (ErrShort d)" by blast
    have short: "min k room < ?T"
    proof (rule ccontr)
      assume "\<not> min k room < ?T"
      then have "?b = enc_hello h @ take (min k room - ?T) c" by (auto simp: not_less)
      with d ServerName_stream [OF assms(1)] host_of_decides show False by metis
    qed
    then have "length ?b = min k room" by simp
    then have grow: "length ?b = 5 \<and> room = 5 \<longleftrightarrow> 5 \<le> k \<and> room = 5" by auto
    define N where "N = 5 + Uint16 (drop 3 ?b)"
    have "5 \<le> k \<and> room = 5 \<Longrightarrow> N = ?T"
      by (simp only: N_def enc_hello_length(1) [OF assms(1), of c] min.absorb2)
    moreover have "peek_loop ?s room (Inr k # ks) =
        (if 5 \<le> k \<and> room = 5 then peek_loop ?s N ks else peek_loop ?s room ks)"
      unfolding peek_short [OF b d] grow N_def ..
    ultimately have "peek_loop ?s room (Inr k # ks) = peek_loop ?s (if 5 \<le> k \<and> room = 5 then ?T else room) ks"
      by presburger
    with short show ?thesis by blast
  next
    case False
    then have "ServerName ?b = host_of (chExtensions h)"
      using ServerName_take [of "min k room" ?s] ServerName_stream [OF assms(1), of c] by metis
    then have "peek_loop ?s room (Inr k # ks) = peek_answer (host_of (chExtensions h))"
      using peek_decided [OF b] host_of_decides by blast
    then show ?thesis ..
  qed
qed

lemma peek_whole:
  assumes "wf_hello h" "0 \<notin> set ks" "length (enc_hello h) \<le> b"
  shows "peek_loop (enc_hello h @ c) (length (enc_hello h)) (map Inr (ks @ [b])) =
     peek_answer (host_of (chExtensions h))"
  using assms
proof (induction ks)
  case Nil
  then show ?case
    using peek_step [of h b "length (enc_hello h)" c "[]"] enc_hello_length(2,3) [of h] by (auto simp del: peek_loop.simps)
next
  case (Cons k ks)
  then show ?case
    using peek_step [of h k "length (enc_hello h)" c "map Inr (ks @ [b])"] enc_hello_length(2,3) [of h]
    by (auto simp del: peek_loop.simps)
qed

lemma peek_from_header:
  assumes "wf_hello h" "0 \<notin> set ks" "length (enc_hello h) \<le> a" "length (enc_hello h) \<le> b"
  shows "peek_loop (enc_hello h @ c) 5 (map Inr (ks @ [a, b])) = peek_answer (host_of (chExtensions h))"
  using assms
proof (induction ks)
  case Nil
  then show ?case
    using peek_step [of h a 5 c "[Inr b]"] peek_whole [of h "[]" b c] enc_hello_length(2,3) [of h]
    by (auto simp del: peek_loop.simps)
next
  case (Cons k ks)
  then show ?case
    using peek_step [of h k 5 c "map Inr (ks @ [a, b])"] peek_whole [of h "ks @ [a]" b c] enc_hello_length(2,3) [of h]
    by (auto simp del: peek_loop.simps split: if_splits)
qed

text \<open>
  C7. Reading a caller's server name off its socket. Take a ClientHello that fits one record, whatever its
  fields and extensions, followed by any bytes. However the bytes arrive, as long as the whole hello is
  there at two peeks before the deadline and the peer does not close first, \<open>peekServerName\<close> answers
  exactly the hello's host name: the first one of its first server name list. It reports that there is
  none, or that it is empty, and never anything else.
\<close>

theorem peek_reads_hello:
  assumes "wf_hello h" "0 \<notin> set ks" "length (enc_hello h) \<le> a" "length (enc_hello h) \<le> b"
  shows "peekServerName (enc_hello h @ c) (map Inr (ks @ [a, b])) =
     (case host_of (chExtensions h) of Inl e \<Rightarrow> Inl (PeekHello e) | Inr name \<Rightarrow> Inr name)"
  using peek_from_header [OF assms] by (simp add: peekServerName_def peek_answer_def)

definition demo_hello :: client_hello where
  "demo_hello = \<lparr>chMinor = CHR 0x01, chHead = replicate 34 CHR ''r'', chSession = ''s'', chSuites = ''cc'',
     chCompression = [CHR 0x00], chExtensions = [Ext 10 ''x'', SNI [(3, ''other''), (0, ''key.fiberd'')]]\<rparr>"

theorem peek_reads_hello_witness:
  "peekServerName (enc_hello demo_hello @ ''rest'') (map Inr ([2, 5, 30] @ [200, 200])) = Inr ''key.fiberd''"
proof -
  have "wf_hello demo_hello" "length (enc_hello demo_hello) \<le> 200"
    by (simp_all add: wf_hello_def enc_hello_def enc_body_def demo_hello_def)
  moreover have "host_of (chExtensions demo_hello) = Inr ''key.fiberd''" by (simp add: demo_hello_def)
  ultimately show ?thesis
    using peek_reads_hello [of demo_hello "[2, 5, 30]" 200 200 "''rest''"] by simp
qed

end
