(* ===== verification/Go_Strings.thy ===== *)
theory Go_Strings
  imports Go_Prelude
begin

text \<open>
  The functions of packages \<open>strings\<close> and \<open>strconv\<close> that the components outside the core use on texts
  they parse: \<open>Split\<close> and \<open>Cut\<close> on a one-byte separator, \<open>Fields\<close>, \<open>CutSuffix\<close>, and \<open>ParseUint\<close> with a
  bit size. \<open>strings.HasPrefix\<close> is \<open>prefix\<close>.
\<close>

section \<open>Split and Cut\<close>

fun Split :: "string \<Rightarrow> char \<Rightarrow> string list" where
  "Split [] c = [[]]"
| "Split (x # xs) c =
     (if x = c then [] # Split xs c
      else case Split xs c of [] \<Rightarrow> [[x]] | h # t \<Rightarrow> (x # h) # t)"

fun Cut :: "string \<Rightarrow> char \<Rightarrow> (string \<times> string) option" where
  "Cut [] c = None"
| "Cut (x # xs) c = (if x = c then Some ([], xs) else map_option (\<lambda>(a, b). (x # a, b)) (Cut xs c))"

definition CutSuffix :: "string \<Rightarrow> string \<Rightarrow> string option" where
  "CutSuffix s t = (if suffix t s then Some (take (length s - length t) s) else None)"

lemma Split_nonempty [simp]: "Split s c \<noteq> []"
  by (induction s) (auto split: list.split)

lemma Split_no_sep: "\<forall>x \<in> set (Split s c). c \<notin> set x"
proof (induction s)
  case (Cons a s)
  then show ?case by (cases "Split s c") auto
qed simp

lemma Split_append: "c \<notin> set a \<Longrightarrow> Split (a @ c # b) c = a # Split b c"
  by (induction a) auto

lemma Split_single: "c \<notin> set a \<Longrightarrow> Split a c = [a]"
  by (induction a) auto

lemma Cut_Some: "Cut s c = Some (a, b) \<longleftrightarrow> s = a @ c # b \<and> c \<notin> set a"
proof (induction s arbitrary: a)
  case (Cons x xs)
  then show ?case by (cases a) auto
qed simp

lemma CutSuffix_Some: "CutSuffix s t = Some r \<longleftrightarrow> s = r @ t"
  by (auto simp: CutSuffix_def suffix_def)

section \<open>Fields\<close>

text \<open>The first byte of \<open>s\<close> starts a white space rune.\<close>

definition space_here :: "string \<Rightarrow> bool" where
  "space_here s \<longleftrightarrow> list_ex (\<lambda>p. prefix p s) space_encodings"

fun field_span :: "string \<Rightarrow> string \<times> string" where
  "field_span [] = ([], [])"
| "field_span (x # xs) =
     (if space_here (x # xs) then ([], x # xs) else (let (a, b) = field_span xs in (x # a, b)))"

lemma field_span_split: "field_span s = (a, b) \<Longrightarrow> s = a @ b"
  by (induction s arbitrary: a) (auto split: if_splits prod.splits)

lemma trim_prefixes_shorter: "length (trim_prefixes ps s) \<le> length s"
proof (induction ps s rule: trim_prefixes.induct)
  case (1 ps s)
  show ?case
    by (subst trim_prefixes.simps) (use 1 in \<open>auto split: option.splits intro: le_trans\<close>)
qed

function Fields :: "string \<Rightarrow> string list" where
  "Fields s =
     (let t = trim_prefixes space_encodings s; (a, b) = field_span t in
      if a = [] then [] else a # Fields b)"
  by pat_completeness auto
termination
proof (relation "measure length")
  fix s t ab a b
  assume t: "t = trim_prefixes space_encodings s" and ab: "ab = field_span t" "(a, b) = ab" and a: "a \<noteq> []"
  then have "t = a @ b" by (simp add: field_span_split)
  moreover have "length t \<le> length s" unfolding t by (rule trim_prefixes_shorter)
  ultimately show "(b, s) \<in> measure length" using a by (cases a) auto
qed simp

declare Fields.simps [simp del]

section \<open>ParseUint with a bit size\<close>

fun parse_bits_loop :: "nat \<Rightarrow> nat \<Rightarrow> string \<Rightarrow> num_error + nat" where
  "parse_bits_loop maxVal n [] = Inr n"
| "parse_bits_loop maxVal n (c # cs) =
     (if \<not> is_digit c then Inl ErrSyntax
      else if n \<ge> parse_cutoff then Inl ErrRange
      else if n * 10 + digit_val c > maxVal then Inl ErrRange
      else parse_bits_loop maxVal (n * 10 + digit_val c) cs)"

definition ParseBits :: "nat \<Rightarrow> string \<Rightarrow> num_error + nat" where
  "ParseBits bits s = (if s = [] then Inl ErrSyntax else parse_bits_loop (2 ^ bits - 1) 0 s)"

lemma parse_bits_loop_le: "parse_bits_loop m n s = Inr v \<Longrightarrow> n \<le> m \<Longrightarrow> v \<le> m"
  by (induction m n s rule: parse_bits_loop.induct) (auto split: if_splits)

lemma ParseBits_bound:
  assumes "ParseBits bits s = Inr v"
  shows "v < 2 ^ bits"
proof -
  from assms have "v \<le> 2 ^ bits - 1"
    by (auto simp: ParseBits_def split: if_splits dest: parse_bits_loop_le)
  moreover have "(0 :: nat) < 2 ^ bits" by simp
  ultimately show ?thesis by linarith
qed

lemma parse_bits_uint: "m \<le> max_uint64 \<Longrightarrow> parse_uint_loop n s = Inr v \<Longrightarrow> v \<le> m \<Longrightarrow> parse_bits_loop m n s = Inr v"
proof (induction m n s rule: parse_bits_loop.induct)
  case (2 m n c cs)
  have mono: "parse_uint_loop k t = Inr v \<Longrightarrow> k \<le> v" for k t
    by (induction k t rule: parse_uint_loop.induct) (auto split: if_splits)
  from 2 mono [of "n * 10 + digit_val c" cs] show ?case by (auto split: if_splits)
qed simp

lemma ParseBits_format_nat: "bits \<le> 64 \<Longrightarrow> n < 2 ^ bits \<Longrightarrow> ParseBits bits (format_nat n) = Inr n"
proof -
  assume b: "bits \<le> 64" and n: "n < 2 ^ bits"
  then have "(2 :: nat) ^ bits \<le> 2 ^ 64" by (intro power_increasing) simp_all
  with n have "2 ^ bits - 1 \<le> max_uint64" "n \<le> 2 ^ bits - 1" "n \<le> max_uint64"
    by (simp_all add: max_uint64_def)
  then show ?thesis
    using parse_bits_uint [of "2 ^ bits - 1" 0 "format_nat n" n] by (simp add: ParseBits_def parse_format_nat)
qed

end
