(* ===== verification/Device_Guard.thy ===== *)
theory Device_Guard
  imports Go_Strings
begin

text \<open>
  \<open>pkg/sys/cgroup/devprog_linux.go\<close>: which character majors the NVIDIA driver holds, read from a
  \<open>/proc/devices\<close> listing, and the eBPF program that refuses them to a grant's cgroup.

  The machine that runs the program is the kernel's. It is the parameter \<open>step\<close> below, and \<open>bpf_isa\<close>
  states what RFC 9669 (the BPF instruction set) documents of the six instructions the program uses.
  \<open>bpf_step\<close> is one such machine.
\<close>

section \<open>The majors of a listing\<close>

definition nvidiaMajor :: nat where
  "nvidiaMajor = 195"

fun named_loop :: "bool \<Rightarrow> string list \<Rightarrow> bool" where
  "named_loop chars [] = False"
| "named_loop chars (l # ls) =
     (let line = TrimSpace l in
      if line = ''Character devices:'' then named_loop True ls
      else if line = ''Block devices:'' then named_loop False ls
      else
        let fields = Fields line in
        if chars \<and> length fields = 2 \<and> prefix ''nvidia'' (fields ! 1) then True
        else named_loop chars ls)"

definition nvidiaNamed :: "string \<Rightarrow> bool" where
  "nvidiaNamed text = named_loop False (Split text (CHR 0x0A))"

fun majors_loop :: "bool \<Rightarrow> nat list \<Rightarrow> string list \<Rightarrow> nat list" where
  "majors_loop chars majors [] = majors"
| "majors_loop chars majors (l # ls) =
     (let line = TrimSpace l in
      if line = ''Character devices:'' then majors_loop True majors ls
      else if line = ''Block devices:'' then majors_loop False majors ls
      else if \<not> chars then majors_loop chars majors ls
      else
        let fields = Fields line in
        if length fields \<noteq> 2 \<or> \<not> prefix ''nvidia'' (fields ! 1) then majors_loop chars majors ls
        else
          case ParseBits 12 (fields ! 0) of
            Inl e \<Rightarrow> majors_loop chars majors ls
          | Inr n \<Rightarrow>
              if n = nvidiaMajor then majors_loop chars majors ls
              else if n \<in> set majors then majors_loop chars majors ls
              else majors_loop chars (majors @ [n]) ls)"

definition nvidiaMajorsOf :: "string \<Rightarrow> nat list" where
  "nvidiaMajorsOf text = majors_loop False [nvidiaMajor] (Split text (CHR 0x0A))"

text \<open>\<open>/proc/devices\<close> is the argument: None when it cannot be read.\<close>

definition nvidiaMajors :: "string option \<Rightarrow> nat list" where
  "nvidiaMajors devices = (case devices of None \<Rightarrow> [nvidiaMajor] | Some text \<Rightarrow> nvidiaMajorsOf text)"

definition NVIDIAPresent :: "string option \<Rightarrow> bool" where
  "NVIDIAPresent devices = (case devices of None \<Rightarrow> False | Some text \<Rightarrow> nvidiaNamed text)"

section \<open>The program\<close>

record insn =
  inCode :: "8 word"
  inRegs :: "8 word"
  inOff :: "16 word"
  inImm :: "32 word"

text \<open>The opcodes of \<open>linux/bpf_common.h\<close> and \<open>linux/bpf.h\<close>, or'ed together as the source does.\<close>

definition LDX_MEM_W :: "8 word" where "LDX_MEM_W = or 0x01 (or 0x60 0x00)"

definition ALU64_AND_K :: "8 word" where "ALU64_AND_K = or 0x07 (or 0x50 0x00)"

definition ALU64_MOV_K :: "8 word" where "ALU64_MOV_K = or 0x07 (or 0xb0 0x00)"

definition JMP_JNE_K :: "8 word" where "JMP_JNE_K = or 0x05 (or 0x50 0x00)"

definition JMP_JEQ_K :: "8 word" where "JMP_JEQ_K = or 0x05 (or 0x10 0x00)"

definition JMP_EXIT :: "8 word" where "JMP_EXIT = or 0x05 0x90"

definition ctxAccessType :: "16 word" where "ctxAccessType = 0"

definition ctxMajor :: "16 word" where "ctxMajor = 4"

definition devcgDevChar :: "32 word" where "devcgDevChar = 2"

fun jeqs :: "16 word \<Rightarrow> nat \<Rightarrow> 32 word list \<Rightarrow> insn list" where
  "jeqs n i [] = []"
| "jeqs n i (m # ms) =
     \<lparr>inCode = JMP_JEQ_K, inRegs = 2, inOff = n + 1 - of_nat i, inImm = m\<rparr> # jeqs n (Suc i) ms"

definition deviceProgram :: "32 word list \<Rightarrow> insn list" where
  "deviceProgram majors =
     (let n = (of_nat (length majors) :: 16 word) in
      [\<lparr>inCode = LDX_MEM_W, inRegs = or 2 (push_bit 4 1), inOff = ctxAccessType, inImm = 0\<rparr>,
       \<lparr>inCode = ALU64_AND_K, inRegs = 2, inOff = 0, inImm = 0xffff\<rparr>,
       \<lparr>inCode = JMP_JNE_K, inRegs = 2, inOff = n + 1, inImm = devcgDevChar\<rparr>,
       \<lparr>inCode = LDX_MEM_W, inRegs = or 2 (push_bit 4 1), inOff = ctxMajor, inImm = 0\<rparr>] @
      jeqs n 0 majors @
      [\<lparr>inCode = ALU64_MOV_K, inRegs = 0, inOff = 0, inImm = 1\<rparr>,
       \<lparr>inCode = JMP_EXIT, inRegs = 0, inOff = 0, inImm = 0\<rparr>,
       \<lparr>inCode = ALU64_MOV_K, inRegs = 0, inOff = 0, inImm = 0\<rparr>,
       \<lparr>inCode = JMP_EXIT, inRegs = 0, inOff = 0, inImm = 0\<rparr>])"

section \<open>The machine\<close>

text \<open>
  A machine has eleven registers, here a function, and a program counter. The context of a device program
  is three 32-bit fields at the offsets 0, 4 and 8 from r1. A step goes on, or exits with r0.
\<close>

type_synonym regs = "nat \<Rightarrow> u64"
type_synonym dev_ctx = "16 word \<Rightarrow> 32 word"
type_synonym bpf_machine = "dev_ctx \<Rightarrow> insn \<Rightarrow> regs \<Rightarrow> int \<Rightarrow> (regs \<times> int) + u64"

definition dst :: "insn \<Rightarrow> nat" where
  "dst i = unat (and (inRegs i) 15)"

definition src :: "insn \<Rightarrow> nat" where
  "src i = unat (drop_bit 4 (inRegs i))"

text \<open>An immediate operand is sign-extended to 64 bits.\<close>

definition imm64 :: "insn \<Rightarrow> u64" where
  "imm64 i = scast (inImm i)"

definition bpf_isa :: "bpf_machine \<Rightarrow> bool" where
  "bpf_isa step \<longleftrightarrow>
     (\<forall>c i r pc. inCode i = LDX_MEM_W \<longrightarrow> src i = 1 \<longrightarrow> step c i r pc = Inl (r(dst i := ucast (c (inOff i))), pc + 1)) \<and>
     (\<forall>c i r pc. inCode i = ALU64_AND_K \<longrightarrow> step c i r pc = Inl (r(dst i := and (r (dst i)) (imm64 i)), pc + 1)) \<and>
     (\<forall>c i r pc. inCode i = ALU64_MOV_K \<longrightarrow> step c i r pc = Inl (r(dst i := imm64 i), pc + 1)) \<and>
     (\<forall>c i r pc. inCode i = JMP_JNE_K \<longrightarrow>
        step c i r pc = Inl (r, if r (dst i) \<noteq> imm64 i then pc + 1 + sint (inOff i) else pc + 1)) \<and>
     (\<forall>c i r pc. inCode i = JMP_JEQ_K \<longrightarrow>
        step c i r pc = Inl (r, if r (dst i) = imm64 i then pc + 1 + sint (inOff i) else pc + 1)) \<and>
     (\<forall>c i r pc. inCode i = JMP_EXIT \<longrightarrow> step c i r pc = Inr (r 0))"

text \<open>Running a program: None when the counter leaves it, or when it has not ended within \<open>fuel\<close> steps.\<close>

fun bpf_run :: "bpf_machine \<Rightarrow> insn list \<Rightarrow> dev_ctx \<Rightarrow> nat \<Rightarrow> regs \<Rightarrow> int \<Rightarrow> u64 option" where
  "bpf_run step p c 0 r pc = None"
| "bpf_run step p c (Suc fuel) r pc =
     (if pc < 0 \<or> int (length p) \<le> pc then None
      else case step c (p ! nat pc) r pc of
             Inl (r', pc') \<Rightarrow> bpf_run step p c fuel r' pc'
           | Inr v \<Rightarrow> Some v)"

definition bpf_step :: bpf_machine where
  "bpf_step c i r pc =
     (if inCode i = LDX_MEM_W then Inl (r(dst i := ucast (c (inOff i))), pc + 1)
      else if inCode i = ALU64_AND_K then Inl (r(dst i := and (r (dst i)) (imm64 i)), pc + 1)
      else if inCode i = ALU64_MOV_K then Inl (r(dst i := imm64 i), pc + 1)
      else if inCode i = JMP_JNE_K then Inl (r, if r (dst i) \<noteq> imm64 i then pc + 1 + sint (inOff i) else pc + 1)
      else if inCode i = JMP_JEQ_K then Inl (r, if r (dst i) = imm64 i then pc + 1 + sint (inOff i) else pc + 1)
      else Inr (r 0))"

lemmas opcodes = LDX_MEM_W_def ALU64_AND_K_def ALU64_MOV_K_def JMP_JNE_K_def JMP_JEQ_K_def JMP_EXIT_def

lemma bpf_step_isa: "bpf_isa bpf_step"
  by (simp add: bpf_isa_def bpf_step_def opcodes)

section \<open>What the listing names\<close>

text \<open>The trimmed lines of the listing's character sections, and the majors a driver line gives.\<close>

fun char_lines :: "bool \<Rightarrow> string list \<Rightarrow> string list" where
  "char_lines chars [] = []"
| "char_lines chars (l # ls) =
     (if TrimSpace l = ''Character devices:'' then char_lines True ls
      else if TrimSpace l = ''Block devices:'' then char_lines False ls
      else if chars then TrimSpace l # char_lines chars ls
      else char_lines chars ls)"

definition driver_line :: "string \<Rightarrow> bool" where
  "driver_line l \<longleftrightarrow> length (Fields l) = 2 \<and> prefix ''nvidia'' (Fields l ! 1)"

definition driver_majors :: "string list \<Rightarrow> nat set" where
  "driver_majors ls = {n. \<exists>l \<in> set ls. driver_line l \<and> ParseBits 12 (Fields l ! 0) = Inr n}"

lemma driver_majors_simps [simp]:
  "driver_majors [] = {}"
  "driver_majors (l # ls) =
     (if driver_line l then {n. ParseBits 12 (Fields l ! 0) = Inr n} else {}) \<union> driver_majors ls"
  by (auto simp: driver_majors_def)

lemma named_loop_iff: "named_loop chars ls \<longleftrightarrow> list_ex driver_line (char_lines chars ls)"
  by (induction ls arbitrary: chars) (auto simp: Let_def driver_line_def)

lemma majors_loop_set:
  "nvidiaMajor \<in> set majors \<Longrightarrow> set (majors_loop chars majors ls) = set majors \<union> driver_majors (char_lines chars ls)"
proof (induction ls arbitrary: chars majors)
  case (Cons l ls)
  show ?case
    by (cases "ParseBits 12 (Fields (TrimSpace l) ! 0)") (use Cons in \<open>auto simp: Let_def driver_line_def\<close>)
qed simp

lemma majors_loop_distinct: "distinct majors \<Longrightarrow> distinct (majors_loop chars majors ls)"
proof (induction ls arbitrary: chars majors)
  case (Cons l ls)
  then show ?case by (simp add: Let_def split: sum.split)
qed simp

lemma nvidiaMajors_set:
  "set (nvidiaMajors devices) =
     insert nvidiaMajor (case devices of None \<Rightarrow> {} | Some text \<Rightarrow> driver_majors (char_lines False (Split text (CHR 0x0A))))"
  by (simp add: nvidiaMajors_def nvidiaMajorsOf_def majors_loop_set split: option.split)

lemma nvidiaMajors_bound: "m \<in> set (nvidiaMajors devices) \<Longrightarrow> m < 4096"
  using ParseBits_bound [of 12]
  by (auto simp: nvidiaMajors_set nvidiaMajor_def driver_majors_def split: option.splits)

lemma nvidiaMajors_length: "length (nvidiaMajors devices) \<le> 4096"
proof -
  have "distinct (nvidiaMajors devices)"
    by (simp add: nvidiaMajors_def nvidiaMajorsOf_def majors_loop_distinct split: option.split)
  then have "length (nvidiaMajors devices) = card (set (nvidiaMajors devices))" by (simp add: distinct_card)
  also have "\<dots> \<le> card {..<4096 :: nat}"
    by (rule card_mono) (auto dest: nvidiaMajors_bound)
  finally show ?thesis by simp
qed

section \<open>What the program decides\<close>

lemma jeqs_length [simp]: "length (jeqs n i ms) = length ms"
  by (induction n i ms rule: jeqs.induct) simp_all

lemma jeqs_nth:
  "j < length ms \<Longrightarrow>
   jeqs n i ms ! j = \<lparr>inCode = JMP_JEQ_K, inRegs = 2, inOff = n + 1 - of_nat (i + j), inImm = ms ! j\<rparr>"
proof (induction n i ms arbitrary: j rule: jeqs.induct)
  case (2 n i m ms)
  then show ?case by (cases j) (simp_all add: algebra_simps)
qed simp

lemma program_length [simp]: "length (deviceProgram ms) = 8 + length ms"
  by (simp add: deviceProgram_def Let_def)

lemma program_at:
  "deviceProgram ms ! 0 = \<lparr>inCode = LDX_MEM_W, inRegs = or 2 (push_bit 4 1), inOff = ctxAccessType, inImm = 0\<rparr>"
  "deviceProgram ms ! 1 = \<lparr>inCode = ALU64_AND_K, inRegs = 2, inOff = 0, inImm = 0xffff\<rparr>"
  "deviceProgram ms ! 2 = \<lparr>inCode = JMP_JNE_K, inRegs = 2, inOff = of_nat (length ms) + 1, inImm = devcgDevChar\<rparr>"
  "deviceProgram ms ! 3 = \<lparr>inCode = LDX_MEM_W, inRegs = or 2 (push_bit 4 1), inOff = ctxMajor, inImm = 0\<rparr>"
  "i < length ms \<Longrightarrow> deviceProgram ms ! (4 + i) =
     \<lparr>inCode = JMP_JEQ_K, inRegs = 2, inOff = of_nat (length ms) + 1 - of_nat i, inImm = ms ! i\<rparr>"
  "deviceProgram ms ! (4 + length ms) = \<lparr>inCode = ALU64_MOV_K, inRegs = 0, inOff = 0, inImm = 1\<rparr>"
  "deviceProgram ms ! (5 + length ms) = \<lparr>inCode = JMP_EXIT, inRegs = 0, inOff = 0, inImm = 0\<rparr>"
  "deviceProgram ms ! (6 + length ms) = \<lparr>inCode = ALU64_MOV_K, inRegs = 0, inOff = 0, inImm = 0\<rparr>"
  "deviceProgram ms ! (7 + length ms) = \<lparr>inCode = JMP_EXIT, inRegs = 0, inOff = 0, inImm = 0\<rparr>"
  by (simp_all add: deviceProgram_def Let_def nth_append nth_Cons' jeqs_nth numeral_eq_Suc)

lemma sint_small: "k < 2 ^ 15 \<Longrightarrow> sint (of_nat k :: 16 word) = int k"
  by (simp add: signed_of_nat signed_take_bit_int_eq_self)

text \<open>The sign extension of an immediate is harmless for a major below 2^31.\<close>

lemma unat_wide: "k < 2 ^ 32 \<Longrightarrow> unat (of_nat k :: u64) = k"
  by (simp add: unat_of_nat take_bit_nat_eq_self)

lemma ucast_wide: "unat (ucast (x :: 32 word) :: u64) = unat x"
  using unat_wide [of "unat x"] unsigned_less [of x, where ?'a = nat] by simp

lemma imm_major: "m < 2 ^ 31 \<Longrightarrow> (ucast (x :: 32 word) :: u64) = scast (of_nat m :: 32 word) \<longleftrightarrow> unat x = m"
proof -
  assume m: "m < 2 ^ 31"
  then have "sint (of_nat m :: 32 word) = int m" by (simp add: signed_of_nat signed_take_bit_int_eq_self)
  then have s: "(scast (of_nat m :: 32 word) :: u64) = of_nat m"
    by (subst of_int_sint [symmetric]) (simp only: of_int_of_nat_eq)
  show ?thesis unfolding s word_unat_eq_iff ucast_wide using m unat_wide [of m] by simp
qed

lemma imm_type: "and (ucast (x :: 32 word) :: u64) (scast (0xffff :: 32 word)) = scast (2 :: 32 word) \<longleftrightarrow> and x 0xffff = 2"
proof -
  have "and (ucast x :: u64) (scast (0xffff :: 32 word)) = ucast (and x 0xffff)"
    by (simp add: unsigned_and_eq)
  moreover have "(scast (2 :: 32 word) :: u64) = ucast (2 :: 32 word)" by simp
  ultimately show ?thesis by (simp only: word_unat_eq_iff ucast_wide)
qed

subsection \<open>Running it\<close>

lemma isa:
  assumes "bpf_isa step"
  shows "inCode i = LDX_MEM_W \<Longrightarrow> src i = 1 \<Longrightarrow> step c i r pc = Inl (r(dst i := ucast (c (inOff i))), pc + 1)"
    "inCode i = ALU64_AND_K \<Longrightarrow> step c i r pc = Inl (r(dst i := and (r (dst i)) (imm64 i)), pc + 1)"
    "inCode i = ALU64_MOV_K \<Longrightarrow> step c i r pc = Inl (r(dst i := imm64 i), pc + 1)"
    "inCode i = JMP_JNE_K \<Longrightarrow> step c i r pc = Inl (r, if r (dst i) \<noteq> imm64 i then pc + 1 + sint (inOff i) else pc + 1)"
    "inCode i = JMP_JEQ_K \<Longrightarrow> step c i r pc = Inl (r, if r (dst i) = imm64 i then pc + 1 + sint (inOff i) else pc + 1)"
    "inCode i = JMP_EXIT \<Longrightarrow> step c i r pc = Inr (r 0)"
  using assms by (simp_all add: bpf_isa_def)

lemma run_on:
  "k < length p \<Longrightarrow> bpf_run step p c (Suc fuel) r (int k) =
     (case step c (p ! k) r (int k) of Inl (r', pc') \<Rightarrow> bpf_run step p c fuel r' pc' | Inr v \<Rightarrow> Some v)"
  by simp

lemma run_ends:
  assumes "bpf_isa step"
  shows "bpf_run step (deviceProgram ms) c (Suc (Suc f)) r (int (4 + length ms)) = Some 1"
    "bpf_run step (deviceProgram ms) c (Suc (Suc f)) r (int (6 + length ms)) = Some 0"
proof -
  have next1: "int (4 + length ms) + 1 = int (5 + length ms)" "int (6 + length ms) + 1 = int (7 + length ms)" by simp_all
  show "bpf_run step (deviceProgram ms) c (Suc (Suc f)) r (int (4 + length ms)) = Some 1"
    by (simp add: run_on program_at isa [OF assms] next1 imm64_def dst_def del: bpf_run.simps of_nat_add)
  show "bpf_run step (deviceProgram ms) c (Suc (Suc f)) r (int (6 + length ms)) = Some 0"
    by (simp add: run_on program_at isa [OF assms] next1 imm64_def dst_def del: bpf_run.simps of_nat_add)
qed

text \<open>From the comparison of the \<open>i\<close>-th major on.\<close>

lemma run_jeqs:
  assumes "bpf_isa step" "length ms \<le> 4096" "i \<le> length ms"
  shows "bpf_run step (deviceProgram ms) c (Suc (Suc (length ms - i + f))) r (int (4 + i)) =
     Some (if r 2 \<in> scast ` set (drop i ms) then 0 else 1)"
  using assms(3)
proof (induction "length ms - i" arbitrary: i)
  case 0
  then show ?case using run_ends(1) [OF assms(1), of ms c f r] by simp
next
  case (Suc k)
  then have i: "i < length ms" and k: "k = length ms - Suc i" by simp_all
  let ?off = "of_nat (length ms) + 1 - of_nat i :: 16 word"
  have "?off = of_nat (length ms + 1 - i)" using i by simp
  moreover have "length ms + 1 - i < 2 ^ 15" using assms(2) by simp
  ultimately have off: "sint ?off = int (length ms + 1 - i)" by (metis sint_small)
  have pc: "int (4 + i) + 1 + int (length ms + 1 - i) = int (6 + length ms)" "int (4 + i) + 1 = int (4 + Suc i)"
    using i by simp_all
  let ?run = "bpf_run step (deviceProgram ms) c (Suc (Suc (length ms - Suc i + f))) r"
  have "bpf_run step (deviceProgram ms) c (Suc (Suc (Suc (length ms - Suc i + f)))) r (int (4 + i)) =
      (if r 2 = scast (ms ! i) then ?run (int (6 + length ms)) else ?run (int (4 + Suc i)))"
    using i unfolding pc [symmetric] off [symmetric]
    by (subst run_on) (simp_all add: program_at isa(5) [OF assms(1)] imm64_def dst_def del: bpf_run.simps of_nat_add)
  also have "\<dots> = Some (if r 2 = scast (ms ! i) then 0 else if r 2 \<in> scast ` set (drop (Suc i) ms) then 0 else 1)"
    using Suc.hyps(1) [OF k] run_ends(2) [OF assms(1)] i by (simp del: bpf_run.simps of_nat_add)
  finally show ?case using i by (simp add: Suc_diff_Suc flip: Cons_nth_drop_Suc del: bpf_run.simps of_nat_add)
qed

lemma run_program:
  assumes "bpf_isa step" "length ms \<le> 4096"
  shows "bpf_run step (deviceProgram ms) c (length ms + 6 + f) r 0 =
     Some (if and (c ctxAccessType) 0xffff = 2 \<and> (ucast (c ctxMajor) :: u64) \<in> scast ` set ms then 0 else (1 :: u64))"
proof -
  let ?r1 = "r(2 := ucast (c ctxAccessType))"
  let ?r2 = "?r1(2 := and (ucast (c ctxAccessType)) (scast (0xffff :: 32 word)))"
  let ?r3 = "?r2(2 := ucast (c ctxMajor))"
  let ?run = "bpf_run step (deviceProgram ms) c"
  have off: "sint (of_nat (length ms) + 1 :: 16 word) = int (length ms + 1)"
    using sint_small [of "length ms + 1"] assms(2) by (simp add: add.commute)
  have at: "int 0 + 1 = int 1" "int 1 + 1 = int 2" "int 2 + 1 = int 3" "int 3 + 1 = int (4 + 0)"
    "int 2 + 1 + int (length ms + 1) = int (4 + length ms)" by simp_all
  have "?run (Suc (Suc (Suc (Suc (Suc (Suc (length ms + f))))))) r (int 0) = ?run (Suc (Suc (Suc (Suc (Suc (length ms + f)))))) ?r1 (int 1)"
    unfolding at(1) [symmetric]
    by (subst run_on) (simp_all add: program_at isa(1) [OF assms(1)] dst_def src_def del: bpf_run.simps of_nat_add)
  also have "\<dots> = ?run (Suc (Suc (Suc (Suc (length ms + f))))) ?r2 (int 2)"
    unfolding at(2) [symmetric]
    by (subst run_on) (simp_all add: program_at(2) [simplified] isa(2) [OF assms(1)] imm64_def dst_def del: bpf_run.simps of_nat_add)
  also have "\<dots> = (if and (c ctxAccessType) 0xffff \<noteq> 2 then ?run (Suc (Suc (Suc (length ms + f)))) ?r2 (int (4 + length ms))
      else ?run (Suc (Suc (Suc (length ms + f)))) ?r2 (int 3))"
    unfolding at(3,5) [symmetric] off [symmetric] imm_type [symmetric]
    by (subst run_on) (simp_all add: program_at isa(4) [OF assms(1)] imm64_def dst_def devcgDevChar_def del: bpf_run.simps of_nat_add)
  also have "?run (Suc (Suc (Suc (length ms + f)))) ?r2 (int 3) = ?run (Suc (Suc (length ms + f))) ?r3 (int (4 + 0))"
    unfolding at(4) [symmetric]
    by (subst run_on) (simp_all add: program_at isa(1) [OF assms(1)] dst_def src_def del: bpf_run.simps of_nat_add)
  also have "\<dots> = Some (if (ucast (c ctxMajor) :: u64) \<in> scast ` set ms then 0 else 1)"
    using run_jeqs [OF assms, of 0 c f ?r3] by (simp del: bpf_run.simps of_nat_add)
  also note run_ends(1) [OF assms(1)]
  moreover have "length ms + 6 + f = Suc (Suc (Suc (Suc (Suc (Suc (length ms + f))))))" by simp
  ultimately show ?thesis by (simp only: of_nat_0) simp
qed

text \<open>What the guard is for: an access to a character device of the driver.\<close>

definition driver_access :: "string option \<Rightarrow> dev_ctx \<Rightarrow> bool" where
  "driver_access devices c \<longleftrightarrow>
     and (c ctxAccessType) 0xffff = devcgDevChar \<and>
     (unat (c ctxMajor) = nvidiaMajor \<or>
      (case devices of None \<Rightarrow> False
       | Some text \<Rightarrow> unat (c ctxMajor) \<in> driver_majors (char_lines False (Split text (CHR 0x0A)))))"

lemma driver_access_iff:
  "driver_access devices c \<longleftrightarrow> and (c ctxAccessType) 0xffff = devcgDevChar \<and> unat (c ctxMajor) \<in> set (nvidiaMajors devices)"
  by (simp add: driver_access_def nvidiaMajors_set split: option.split)

lemma major_immediates:
  fixes c :: dev_ctx
  shows "ucast (c ctxMajor) \<in> (scast ` set (map of_nat (nvidiaMajors devices) :: 32 word list) :: u64 set) \<longleftrightarrow>
   unat (c ctxMajor) \<in> set (nvidiaMajors devices)"
proof -
  have "m \<in> set (nvidiaMajors devices) \<Longrightarrow> m < 2 ^ 31" for m
    using nvidiaMajors_bound [of m devices] by simp
  then show ?thesis using imm_major [of _ "c ctxMajor"] by (auto simp: image_iff)
qed

text \<open>
  C8. The GPU guard. On every machine that follows the BPF instruction set, and whatever \<open>/proc/devices\<close>
  holds, the program \<open>AttachGPUGuard\<close> loads ends after at most 6 instructions plus one per major, with a
  verdict for every device access: it refuses exactly the character devices whose major is 195 or one that
  the listing's character sections give to the driver, and allows every other. The jumps stay inside the
  program although offsets are 16-bit and immediates sign-extended, since majors are 12-bit and distinct:
  it has at most 4104 instructions.
\<close>

theorem guard_refuses_driver_majors:
  assumes "bpf_isa step"
  shows "bpf_run step (deviceProgram (map of_nat (nvidiaMajors devices))) c (length (nvidiaMajors devices) + 6) r 0 =
       Some (if driver_access devices c then 0 else 1) \<and>
     length (deviceProgram (map of_nat (nvidiaMajors devices))) \<le> 4104"
  using run_program [OF assms, of "map of_nat (nvidiaMajors devices)" c 0 r] nvidiaMajors_length [of devices]
  unfolding major_immediates by (simp add: driver_access_iff devcgDevChar_def)

definition demo_devices :: string where
  "demo_devices = ''Character devices:'' @ [CHR 0x0A] @ '' 81 video4linux'' @ [CHR 0x0A] @ ''234 nvidia-uvm'' @ [CHR 0x0A] @
     ''Block devices:'' @ [CHR 0x0A] @ ''235 nvidia-blk''"

lemma demo_devices_majors: "nvidiaMajors (Some demo_devices) = [195, 234]"
proof -
  have "Split demo_devices (CHR 0x0A) =
      [''Character devices:'', '' 81 video4linux'', ''234 nvidia-uvm'', ''Block devices:'', ''235 nvidia-blk'']"
    by code_simp
  moreover have "TrimSpace ''Character devices:'' = ''Character devices:''" "TrimSpace '' 81 video4linux'' = ''81 video4linux''"
    "TrimSpace ''234 nvidia-uvm'' = ''234 nvidia-uvm''" "TrimSpace ''Block devices:'' = ''Block devices:''"
    "TrimSpace ''235 nvidia-blk'' = ''235 nvidia-blk''" by code_simp+
  moreover have "Fields ''81 video4linux'' = [''81'', ''video4linux'']" "Fields ''234 nvidia-uvm'' = [''234'', ''nvidia-uvm'']"
    by code_simp+
  moreover have "ParseBits 12 ''234'' = Inr 234"
    by (simp add: ParseBits_def parse_cutoff_def max_uint64_def is_digit_def digit_val_def)
  ultimately show ?thesis by (simp add: nvidiaMajors_def nvidiaMajorsOf_def nvidiaMajor_def)
qed

theorem guard_refuses_driver_majors_witness:
  "bpf_run bpf_step (deviceProgram (map of_nat (nvidiaMajors (Some demo_devices))))
     (\<lambda>off. if off = ctxMajor then 234 else 0x20002) (length (nvidiaMajors (Some demo_devices)) + 6) (\<lambda>_. 0) 0 = Some 0 \<and>
   bpf_run bpf_step (deviceProgram (map of_nat (nvidiaMajors (Some demo_devices))))
     (\<lambda>off. if off = ctxMajor then 235 else 0x20002) (length (nvidiaMajors (Some demo_devices)) + 6) (\<lambda>_. 0) 0 = Some 1"
proof -
  have "driver_access (Some demo_devices) (\<lambda>off. if off = ctxMajor then 234 else 0x20002)"
    "\<not> driver_access (Some demo_devices) (\<lambda>off. if off = ctxMajor then 235 else 0x20002)"
    by (simp_all add: driver_access_iff demo_devices_majors devcgDevChar_def ctxMajor_def ctxAccessType_def)
  then show ?thesis
    by (simp only: guard_refuses_driver_majors [OF bpf_step_isa, THEN conjunct1] if_True if_False simp_thms)
qed

end
