(* ===== verification/Id_Ranges.thy ===== *)
theory Id_Ranges
  imports Go_Strings
begin

text \<open>
  \<open>pkg/backend/runc/idrange.go\<close>: the host ids that the user namespaces of grants map. A pool is cut into
  slots of 65536 ids, a range key hashes to one of them, and a home's table of claims gives a slot to one
  range key at a time, counting who still uses it.

  Errors keep what their messages are built from. The files \<open>CheckSubIDs\<close> reads are arguments, as the
  lines a \<open>bufio.Scanner\<close> gives and the error it ends with.
\<close>

section \<open>Pools\<close>

record IDPool =
  poStart :: "32 word"
  poSlots :: "32 word"

record IDRange =
  rgStart :: "32 word"
  rgCount :: "32 word"

definition SlotIDs :: nat where
  "SlotIDs = 65536"

text \<open>\<open>end\<close>, in 64 bits.\<close>

definition pool_end :: "IDPool \<Rightarrow> u64" where
  "pool_end p = ucast (poStart p) + ucast (poSlots p) * of_nat SlotIDs"

datatype pool_error =
    NoSlots
  | StartTooLow "32 word" nat
  | PastIDSpace "32 word" "32 word" u64

definition Validate_pool :: "IDPool \<Rightarrow> pool_error option" where
  "Validate_pool p =
     (if poSlots p = 0 then Some NoSlots
      else if poStart p < of_nat SlotIDs then Some (StartTooLow (poStart p) SlotIDs)
      else if pool_end p > 2 ^ 32 - 2 then Some (PastIDSpace (poSlots p) (poStart p) (pool_end p - 1))
      else None)"

datatype parse_pool_error =
    WantStartSlots string
  | BadStart string num_error
  | BadSlots string num_error
  | BadPool string pool_error

definition ParsePool :: "string \<Rightarrow> parse_pool_error + IDPool" where
  "ParsePool s =
     (case Cut (TrimSpace s) (CHR '':'') of
        None \<Rightarrow> Inl (WantStartSlots s)
      | Some (a, b) \<Rightarrow>
          (case ParseBits 32 a of
             Inl e \<Rightarrow> Inl (BadStart s e)
           | Inr start \<Rightarrow>
               (case ParseBits 32 b of
                  Inl e \<Rightarrow> Inl (BadSlots s e)
                | Inr slots \<Rightarrow>
                    let p = \<lparr>poStart = of_nat start, poSlots = of_nat slots\<rparr> in
                    (case Validate_pool p of Some e \<Rightarrow> Inl (BadPool s e) | None \<Rightarrow> Inr p))))"

section \<open>The host's own ranges\<close>

datatype subid_error =
    BadLine string nat string
  | Overlap IDPool string string nat nat
  | ReadFailed string string
  | OpenFailed string

fun subid_lines :: "IDPool \<Rightarrow> string \<Rightarrow> nat \<Rightarrow> string list \<Rightarrow> subid_error option" where
  "subid_lines p path n [] = None"
| "subid_lines p path n (t # ts) =
     (let line = TrimSpace t in
      if line = [] \<or> prefix ''#'' line then subid_lines p path (n + 1) ts
      else
        let fields = Split line (CHR '':'') in
        if length fields \<noteq> 3 then Some (BadLine path n line)
        else
          case (ParseBits 32 (fields ! 1), ParseBits 32 (fields ! 2)) of
            (Inr start, Inr count) \<Rightarrow>
              if (of_nat start :: u64) < pool_end p \<and> (of_nat start + of_nat count :: u64) > ucast (poStart p)
              then Some (Overlap p path line start count)
              else subid_lines p path (n + 1) ts
          | _ \<Rightarrow> Some (BadLine path n line))"

definition checkSubIDFile :: "IDPool \<Rightarrow> string \<Rightarrow> string list \<Rightarrow> string option \<Rightarrow> subid_error option" where
  "checkSubIDFile p path ls err =
     (case subid_lines p path 1 ls of
        Some e \<Rightarrow> Some e
      | None \<Rightarrow> map_option (ReadFailed path) err)"

datatype opened = Missing | CannotOpen string | Lines "string list" "string option"

fun CheckSubIDs :: "IDPool \<Rightarrow> (string \<times> opened) list \<Rightarrow> subid_error option" where
  "CheckSubIDs p [] = None"
| "CheckSubIDs p ((path, Missing) # fs) = CheckSubIDs p fs"
| "CheckSubIDs p ((path, CannotOpen e) # fs) = Some (OpenFailed e)"
| "CheckSubIDs p ((path, Lines ls err) # fs) =
     (case checkSubIDFile p path ls err of Some e \<Rightarrow> Some e | None \<Rightarrow> CheckSubIDs p fs)"

section \<open>Slots\<close>

text \<open>\<open>hash/fnv\<close>, the 64-bit FNV-1a.\<close>

definition fnv64a :: "string \<Rightarrow> u64" where
  "fnv64a s = foldl (\<lambda>h c. xor h (of_nat (of_char c)) * 1099511628211) 14695981039346656037 s"

definition slot :: "IDPool \<Rightarrow> string \<Rightarrow> 32 word" where
  "slot p key = ucast (fnv64a key mod ucast (poSlots p))"

definition Range_of :: "IDPool \<Rightarrow> string \<Rightarrow> IDRange" where
  "Range_of p key = \<lparr>rgStart = poStart p + slot p key * of_nat SlotIDs, rgCount = of_nat SlotIDs\<rparr>"

section \<open>Claims\<close>

record holder =
  hWarm :: bool
  hFibers :: nat

definition busy :: "holder \<Rightarrow> bool" where
  "busy h \<longleftrightarrow> hWarm h \<or> hFibers h > 0"

record claim =
  clKey :: string
  clGrants :: "(string, holder) gomap"

record claims =
  csPool :: IDPool
  csHeld :: "(32 word, claim) gomap"

datatype collision = ErrRangeCollision string string "32 word" "32 word" "32 word"

definition newClaims :: "IDPool \<Rightarrow> claims" where
  "newClaims p = \<lparr>csPool = p, csHeld = []\<rparr>"

definition claims_find :: "claims \<Rightarrow> string \<Rightarrow> collision + claim option" where
  "claims_find c key =
     (let s = slot (csPool c) key in
      case map_of (csHeld c) s of
        None \<Rightarrow> Inr None
      | Some cl \<Rightarrow>
          if clKey cl \<noteq> key
          then Inl (ErrRangeCollision key (clKey cl) s (poSlots (csPool c)) (rgStart (Range_of (csPool c) key)))
          else Inr (Some cl))"

definition claims_check :: "claims \<Rightarrow> string \<Rightarrow> collision option" where
  "claims_check c key = (case claims_find c key of Inl e \<Rightarrow> Some e | Inr _ \<Rightarrow> None)"

definition claims_acquire :: "claims \<Rightarrow> string \<Rightarrow> string \<Rightarrow> bool \<Rightarrow> claims \<times> collision option" where
  "claims_acquire c key grantUID warm =
     (case claims_find c key of
        Inl e \<Rightarrow> (c, Some e)
      | Inr found \<Rightarrow>
          let cl = (case found of Some cl \<Rightarrow> cl | None \<Rightarrow> \<lparr>clKey = key, clGrants = []\<rparr>);
              h = (case map_of (clGrants cl) grantUID of Some h \<Rightarrow> h | None \<Rightarrow> \<lparr>hWarm = False, hFibers = 0\<rparr>);
              h' = (if warm then h\<lparr>hWarm := True\<rparr> else h\<lparr>hFibers := hFibers h + 1\<rparr>);
              cl' = cl\<lparr>clGrants := AList.update grantUID h' (clGrants cl)\<rparr>
          in (c\<lparr>csHeld := AList.update (slot (csPool c) key) cl' (csHeld c)\<rparr>, None))"

definition claims_release :: "claims \<Rightarrow> string \<Rightarrow> string \<Rightarrow> bool \<Rightarrow> claims \<times> bool" where
  "claims_release c key grantUID warm =
     (let s = slot (csPool c) key in
      case map_of (csHeld c) s of
        None \<Rightarrow> (c, False)
      | Some cl \<Rightarrow>
          if clKey cl \<noteq> key then (c, False)
          else
            case map_of (clGrants cl) grantUID of
              None \<Rightarrow> (c, False)
            | Some h \<Rightarrow>
                let h' = (if warm then h\<lparr>hWarm := False\<rparr>
                          else if hFibers h > 0 then h\<lparr>hFibers := hFibers h - 1\<rparr> else h) in
                if busy h'
                then (c\<lparr>csHeld := AList.update s (cl\<lparr>clGrants := AList.update grantUID h' (clGrants cl)\<rparr>) (csHeld c)\<rparr>, False)
                else
                  let cl' = cl\<lparr>clGrants := AList.delete grantUID (clGrants cl)\<rparr> in
                  if clGrants cl' = [] then (c\<lparr>csHeld := AList.delete s (csHeld c)\<rparr>, True)
                  else (c\<lparr>csHeld := AList.update s cl' (csHeld c)\<rparr>, True))"

section \<open>What a table of claims promises\<close>

text \<open>
  The users of a range key are counted per grant: the warm zygote, at most one, and the restored fibers. A key's
  slot is taken when another key that hashes to it has a user.
\<close>

type_synonym usage = "string \<Rightarrow> string \<Rightarrow> bool \<Rightarrow> nat"

datatype claim_op = AcquireSlot string string bool | ReleaseSlot string string bool

definition taken :: "(string \<Rightarrow> 'slot) \<Rightarrow> usage \<Rightarrow> string \<Rightarrow> bool" where
  "taken place u key \<longleftrightarrow> (\<exists>k g w. 0 < u k g w \<and> place k = place key \<and> k \<noteq> key)"

definition grow :: "usage \<Rightarrow> string \<Rightarrow> string \<Rightarrow> bool \<Rightarrow> usage" where
  "grow u key g w = (\<lambda>k' g' w'. if k' = key \<and> g' = g \<and> w' = w then (if w then 1 else u key g w + 1) else u k' g' w')"

definition shrink :: "usage \<Rightarrow> string \<Rightarrow> string \<Rightarrow> bool \<Rightarrow> usage" where
  "shrink u key g w = (\<lambda>k' g' w'. if k' = key \<and> g' = g \<and> w' = w then u key g w - 1 else u k' g' w')"

definition uses :: "usage \<Rightarrow> string \<Rightarrow> string \<Rightarrow> bool" where
  "uses u key g \<longleftrightarrow> 0 < u key g True \<or> 0 < u key g False"

fun usage_step :: "(string \<Rightarrow> 'slot) \<Rightarrow> claim_op \<Rightarrow> usage \<Rightarrow> usage" where
  "usage_step place (AcquireSlot key g w) u = (if taken place u key then u else grow u key g w)"
| "usage_step place (ReleaseSlot key g w) u = shrink u key g w"

text \<open>A table that keeps this count, and what follows for every sequence of calls.\<close>

locale counted =
  fixes users :: "'s \<Rightarrow> usage"
    and ok :: "'s \<Rightarrow> bool"
    and place :: "'s \<Rightarrow> string \<Rightarrow> 'slot"
    and op :: "claim_op \<Rightarrow> 's \<Rightarrow> 's"
  assumes op_ok: "ok s \<Longrightarrow> ok (op a s)"
    and op_place: "place (op a s) = place s"
    and op_users: "ok s \<Longrightarrow> users (op a s) = usage_step (place s) a (users s)"
    and one_key: "ok s \<Longrightarrow> 0 < users s k g w \<Longrightarrow> 0 < users s k' g' w' \<Longrightarrow> place s k = place s k' \<Longrightarrow> k = k'"
begin

lemma runs:
  "ok s \<Longrightarrow> ok (fold op as s) \<and> place (fold op as s) = place s \<and>
   users (fold op as s) = fold (usage_step (place s)) as (users s)"
  by (induction as arbitrary: s) (simp_all add: op_ok op_place op_users)

lemma runs_apart:
  assumes "ok s" "0 < users (fold op as s) k g w" "0 < users (fold op as s) k' g' w'" "k \<noteq> k'"
  shows "place s k \<noteq> place s k'"
  using one_key [of "fold op as s" k g w k' g' w'] runs [OF assms(1), of as] assms(2-4) by auto

end

section \<open>The table keeps the count\<close>

definition users_of :: "claims \<Rightarrow> usage" where
  "users_of c key g w =
     (case map_of (csHeld c) (slot (csPool c) key) of
        None \<Rightarrow> 0
      | Some cl \<Rightarrow>
          if clKey cl \<noteq> key then 0
          else case map_of (clGrants cl) g of
                 None \<Rightarrow> 0
               | Some h \<Rightarrow> if w then of_bool (hWarm h) else hFibers h)"

fun claims_op :: "claim_op \<Rightarrow> claims \<Rightarrow> claims" where
  "claims_op (AcquireSlot key g w) c = fst (claims_acquire c key g w)"
| "claims_op (ReleaseSlot key g w) c = fst (claims_release c key g w)"

definition claim_ok :: "claim \<Rightarrow> bool" where
  "claim_ok cl \<longleftrightarrow> clGrants cl \<noteq> [] \<and> (\<forall>g h. map_of (clGrants cl) g = Some h \<longrightarrow> busy h)"

definition claims_ok :: "claims \<Rightarrow> bool" where
  "claims_ok c \<longleftrightarrow>
     (\<forall>s cl. map_of (csHeld c) s = Some cl \<longrightarrow> slot (csPool c) (clKey cl) = s \<and> claim_ok cl)"

lemma claims_ok_held:
  "claims_ok c \<Longrightarrow> map_of (csHeld c) s = Some cl \<Longrightarrow> slot (csPool c) (clKey cl) = s \<and> claim_ok cl"
  by (simp add: claims_ok_def)

text \<open>A slot that is held has a user.\<close>

lemma claim_ok_user:
  assumes "claim_ok cl"
  obtains g h where "map_of (clGrants cl) g = Some h" "busy h"
  using assms by (cases "clGrants cl") (force simp: claim_ok_def)+

lemma held_user:
  assumes "claims_ok c" "map_of (csHeld c) s = Some cl"
  obtains g w where "0 < users_of c (clKey cl) g w"
proof -
  from claims_ok_held [OF assms] have s: "slot (csPool c) (clKey cl) = s" and cl: "claim_ok cl" by simp_all
  from cl obtain g h where h: "map_of (clGrants cl) g = Some h" "busy h" by (rule claim_ok_user)
  with assms(2) s have "0 < users_of c (clKey cl) g True \<or> 0 < users_of c (clKey cl) g False"
    by (auto simp: users_of_def busy_def)
  with that show ?thesis by blast
qed

lemma user_held:
  "0 < users_of c key g w \<Longrightarrow>
   \<exists>cl h. map_of (csHeld c) (slot (csPool c) key) = Some cl \<and> clKey cl = key \<and> map_of (clGrants cl) g = Some h"
  by (auto simp: users_of_def split: option.splits if_splits)

lemma find_fails_iff:
  assumes "claims_ok c"
  shows "(\<exists>e. claims_find c key = Inl e) \<longleftrightarrow> taken (slot (csPool c)) (users_of c) key"
proof
  assume "\<exists>e. claims_find c key = Inl e"
  then obtain cl where cl: "map_of (csHeld c) (slot (csPool c) key) = Some cl" "clKey cl \<noteq> key"
    by (auto simp: claims_find_def Let_def split: option.splits if_splits)
  from held_user [OF assms cl(1)] obtain g w where "0 < users_of c (clKey cl) g w" .
  with claims_ok_held [OF assms cl(1)] cl(2) show "taken (slot (csPool c)) (users_of c) key"
    unfolding taken_def by blast
next
  assume "taken (slot (csPool c)) (users_of c) key"
  then obtain k g w where "0 < users_of c k g w" "slot (csPool c) k = slot (csPool c) key" "k \<noteq> key"
    unfolding taken_def by blast
  with user_held [of c k g w] show "\<exists>e. claims_find c key = Inl e"
    by (auto simp: claims_find_def)
qed

subsection \<open>Changing one slot\<close>

definition grant_users :: "(string, holder) gomap \<Rightarrow> string \<Rightarrow> bool \<Rightarrow> nat" where
  "grant_users gs g w =
     (case map_of gs g of None \<Rightarrow> 0 | Some h \<Rightarrow> if w then of_bool (hWarm h) else hFibers h)"

definition free_for :: "claims \<Rightarrow> string \<Rightarrow> bool" where
  "free_for c key \<longleftrightarrow> (\<forall>cl. map_of (csHeld c) (slot (csPool c) key) = Some cl \<longrightarrow> clKey cl = key)"

definition put_claim :: "claims \<Rightarrow> string \<Rightarrow> claim \<Rightarrow> claims" where
  "put_claim c key cl = c\<lparr>csHeld := AList.update (slot (csPool c) key) cl (csHeld c)\<rparr>"

definition del_claim :: "claims \<Rightarrow> string \<Rightarrow> claims" where
  "del_claim c key = c\<lparr>csHeld := AList.delete (slot (csPool c) key) (csHeld c)\<rparr>"

lemma users_put:
  "free_for c key \<Longrightarrow> clKey cl = key \<Longrightarrow>
   users_of (put_claim c key cl) = (\<lambda>k. if k = key then grant_users (clGrants cl) else users_of c k)"
  by (auto simp: fun_eq_iff users_of_def put_claim_def grant_users_def free_for_def gomap split: option.split)

lemma users_del:
  "free_for c key \<Longrightarrow> users_of (del_claim c key) = (\<lambda>k. if k = key then (\<lambda>g w. 0) else users_of c k)"
  by (auto simp: fun_eq_iff users_of_def del_claim_def free_for_def gomap split: option.split)

lemma ok_put: "claims_ok c \<Longrightarrow> clKey cl = key \<Longrightarrow> claim_ok cl \<Longrightarrow> claims_ok (put_claim c key cl)"
  by (simp add: claims_ok_def put_claim_def gomap)

lemma ok_del: "claims_ok c \<Longrightarrow> claims_ok (del_claim c key)"
  by (simp add: claims_ok_def del_claim_def gomap)

lemma pool_put [simp]: "csPool (put_claim c key cl) = csPool c" "csPool (del_claim c key) = csPool c"
  by (simp_all add: put_claim_def del_claim_def)

subsection \<open>acquire and release\<close>

definition found_grants :: "claims \<Rightarrow> string \<Rightarrow> (string, holder) gomap" where
  "found_grants c key = (case map_of (csHeld c) (slot (csPool c) key) of None \<Rightarrow> [] | Some cl \<Rightarrow> clGrants cl)"

lemma found_users: "free_for c key \<Longrightarrow> users_of c key = grant_users (found_grants c key)"
  by (auto simp: fun_eq_iff users_of_def grant_users_def free_for_def found_grants_def split: option.split)

lemma found_busy: "claims_ok c \<Longrightarrow> map_of (found_grants c key) g = Some h \<Longrightarrow> busy h"
  by (auto simp: found_grants_def claim_ok_def dest: claims_ok_held split: option.splits)

definition one_more :: "holder option \<Rightarrow> bool \<Rightarrow> holder" where
  "one_more oh warm =
     (let h = (case oh of Some h \<Rightarrow> h | None \<Rightarrow> \<lparr>hWarm = False, hFibers = 0\<rparr>)
      in if warm then h\<lparr>hWarm := True\<rparr> else h\<lparr>hFibers := hFibers h + 1\<rparr>)"

definition one_less :: "holder \<Rightarrow> bool \<Rightarrow> holder" where
  "one_less h warm =
     (if warm then h\<lparr>hWarm := False\<rparr> else if hFibers h > 0 then h\<lparr>hFibers := hFibers h - 1\<rparr> else h)"

lemma claim_with: "cl\<lparr>clGrants := gs\<rparr> = \<lparr>clKey = clKey cl, clGrants = gs\<rparr>"
  by (cases cl) simp

lemma acquire_cases:
  "claims_acquire c key g w =
     (case claims_find c key of
        Inl e \<Rightarrow> (c, Some e)
      | Inr _ \<Rightarrow>
          (put_claim c key \<lparr>clKey = key, clGrants =
             AList.update g (one_more (map_of (found_grants c key) g) w) (found_grants c key)\<rparr>, None))"
  by (auto simp: claims_acquire_def claims_find_def found_grants_def one_more_def put_claim_def claim_with Let_def
      split: option.splits sum.splits if_splits)

lemma find_free: "claims_find c key = Inr x \<Longrightarrow> free_for c key"
  by (auto simp: claims_find_def free_for_def Let_def split: option.splits if_splits)

lemma free_find: "free_for c key \<Longrightarrow> \<exists>x. claims_find c key = Inr x"
  by (auto simp: claims_find_def free_for_def Let_def split: option.splits if_splits)

lemma one_more_busy: "busy (one_more oh w)"
  by (simp add: busy_def one_more_def Let_def)

lemma acquire_ok:
  assumes "claims_ok c"
  shows "claims_ok (fst (claims_acquire c key g w))"
proof (cases "claims_find c key")
  case (Inr x)
  have "AList.update g h m \<noteq> []" for h and m :: "(string, holder) gomap"
    by (induction m) auto
  with found_busy [OF assms, of key] have "claim_ok \<lparr>clKey = key, clGrants =
      AList.update g (one_more (map_of (found_grants c key) g) w) (found_grants c key)\<rparr>"
    by (auto simp: claim_ok_def gomap one_more_busy)
  with Inr show ?thesis by (simp add: acquire_cases ok_put [OF assms])
qed (simp add: acquire_cases assms)

lemma acquire_users:
  assumes "claims_ok c"
  shows "users_of (fst (claims_acquire c key g w)) =
     (if taken (slot (csPool c)) (users_of c) key then users_of c else grow (users_of c) key g w)"
proof (cases "claims_find c key")
  case (Inl e)
  then show ?thesis using find_fails_iff [OF assms, of key] by (simp add: acquire_cases)
next
  case (Inr x)
  from Inr have free: "free_for c key" by (rule find_free)
  have "\<not> taken (slot (csPool c)) (users_of c) key" using find_fails_iff [OF assms, of key] Inr by simp
  then show ?thesis
    using Inr found_users [OF free]
    by (auto simp: acquire_cases users_put [OF free] grow_def grant_users_def one_more_def gomap fun_eq_iff Let_def
        split: option.split)
qed

lemma release_cases:
  "claims_release c key g w =
     (case map_of (found_grants c key) g of
        Some h \<Rightarrow>
          if \<not> free_for c key then (c, False)
          else if busy (one_less h w)
          then (put_claim c key \<lparr>clKey = key, clGrants = AList.update g (one_less h w) (found_grants c key)\<rparr>, False)
          else if AList.delete g (found_grants c key) = [] then (del_claim c key, True)
          else (put_claim c key \<lparr>clKey = key, clGrants = AList.delete g (found_grants c key)\<rparr>, True)
      | None \<Rightarrow> (c, False))"
  by (auto simp: claims_release_def found_grants_def free_for_def one_less_def put_claim_def del_claim_def claim_with Let_def
      split: option.splits)

lemma update_nonempty: "AList.update k v m \<noteq> []"
  by (induction m) auto

lemma release_ok:
  assumes "claims_ok c"
  shows "claims_ok (fst (claims_release c key g w))"
proof (cases "map_of (found_grants c key) g")
  case (Some h)
  have "busy (one_less h w) \<Longrightarrow>
      claim_ok \<lparr>clKey = key, clGrants = AList.update g (one_less h w) (found_grants c key)\<rparr>"
    using found_busy [OF assms, of key] by (auto simp: claim_ok_def update_nonempty gomap)
  moreover have "AList.delete g (found_grants c key) \<noteq> [] \<Longrightarrow>
      claim_ok \<lparr>clKey = key, clGrants = AList.delete g (found_grants c key)\<rparr>"
    using found_busy [OF assms, of key] by (auto simp: claim_ok_def gomap)
  ultimately show ?thesis using Some assms by (simp add: release_cases ok_put ok_del)
qed (simp add: release_cases assms)

lemma one_less_users:
  "(if w then of_bool (hWarm (one_less h w0)) else hFibers (one_less h w0)) =
   (if w = w0 then (if w then of_bool (hWarm h) else hFibers h) - 1 else (if w then of_bool (hWarm h) else hFibers h))"
  by (simp add: one_less_def)

lemma idle_users: "\<not> busy h \<Longrightarrow> (if w then of_bool (hWarm h) else hFibers h) = 0"
  by (simp add: busy_def)

lemma unheld_users: "\<not> free_for c key \<Longrightarrow> users_of c key g w = 0"
  by (auto simp: free_for_def users_of_def)

lemma no_user:
  "\<not> (free_for c key \<and> map_of (found_grants c key) g \<noteq> None) \<Longrightarrow> users_of c key g w = 0"
  by (cases "free_for c key") (simp_all add: unheld_users found_users grant_users_def)

lemma grant_users_put:
  "grant_users (AList.update g h gs) = (grant_users gs)(g := \<lambda>w. if w then of_bool (hWarm h) else hFibers h)"
  by (auto simp: grant_users_def gomap fun_eq_iff)

lemma grant_users_del: "grant_users (AList.delete g gs) = (grant_users gs)(g := \<lambda>w. 0)"
  by (auto simp: grant_users_def gomap fun_eq_iff)

lemma shrink_same: "u key g w = 0 \<Longrightarrow> shrink u key g w = u"
  by (auto simp: shrink_def fun_eq_iff)

lemma shrink_at: "shrink u key g w = u(key := (u key)(g := (u key g)(w := u key g w - 1)))"
  by (auto simp: shrink_def fun_eq_iff)

lemma release_users: "users_of (fst (claims_release c key g w)) = shrink (users_of c) key g w"
proof (cases "free_for c key \<and> map_of (found_grants c key) g \<noteq> None")
  case True
  then obtain h where free: "free_for c key" and h: "map_of (found_grants c key) g = Some h" by auto
  have gu: "grant_users (found_grants c key) g = (\<lambda>w. if w then of_bool (hWarm h) else hFibers h)"
    using h by (simp add: grant_users_def fun_eq_iff)
  have less: "(\<lambda>w'. if w' then of_bool (hWarm (one_less h w)) else hFibers (one_less h w)) =
      (grant_users (found_grants c key) g)(w := grant_users (found_grants c key) g w - 1)"
    unfolding gu by (rule ext) (simp add: one_less_def)
  have empty: "grant_users (found_grants c key) x w' = 0"
    if "AList.delete g (found_grants c key) = []" "x \<noteq> g" for x w'
  proof -
    from that(2) have "grant_users (found_grants c key) x w' = grant_users (AList.delete g (found_grants c key)) x w'"
      by (simp add: grant_users_del)
    with that(1) show ?thesis by (simp add: grant_users_def)
  qed
  have idle: "\<not> busy (one_less h w) \<Longrightarrow> (\<lambda>w'. 0) = (grant_users (found_grants c key) g)(w := grant_users (found_grants c key) g w - 1)"
    unfolding less [symmetric] by (rule ext) (simp add: busy_def)
  show ?thesis
    unfolding shrink_at found_users [OF free]
    using h free less empty idle
    by (auto simp: release_cases users_put users_del grant_users_put grant_users_del fun_eq_iff)
next
  case False
  then have "users_of c key g w = 0" by (rule no_user)
  with False show ?thesis by (auto simp: release_cases shrink_same split: option.split)
qed

lemma release_free:
  assumes "claims_ok c"
  shows "snd (claims_release c key g w) \<longleftrightarrow>
     uses (users_of c) key g \<and> \<not> uses (shrink (users_of c) key g w) key g"
proof (cases "free_for c key \<and> map_of (found_grants c key) g \<noteq> None")
  case True
  then obtain h where free: "free_for c key" and h: "map_of (found_grants c key) g = Some h" by auto
  have "uses (users_of c) key g"
    using found_busy [OF assms h] h by (auto simp: uses_def found_users [OF free] grant_users_def busy_def)
  moreover have "uses (shrink (users_of c) key g w) key g \<longleftrightarrow> busy (one_less h w)"
    using h by (auto simp: uses_def shrink_def found_users [OF free] grant_users_def busy_def one_less_def)
  ultimately show ?thesis using free h by (simp add: release_cases)
next
  case False
  then have "\<not> uses (users_of c) key g"
    unfolding uses_def by (simp add: no_user)
  with False show ?thesis by (auto simp: release_cases split: option.split)
qed

lemma claims_pool [simp]:
  "csPool (fst (claims_acquire c key g w)) = csPool c" "csPool (fst (claims_release c key g w)) = csPool c"
  by (simp_all add: acquire_cases release_cases split: sum.split option.split)

interpretation ranges: counted users_of claims_ok "\<lambda>c. slot (csPool c)" claims_op
proof unfold_locales
  fix c a
  assume "claims_ok c"
  then show "claims_ok (claims_op a c)" by (cases a) (simp_all add: acquire_ok release_ok)
next
  fix c a
  show "slot (csPool (claims_op a c)) = slot (csPool c)" by (cases a) simp_all
next
  fix c a
  assume "claims_ok c"
  then show "users_of (claims_op a c) = usage_step (slot (csPool c)) a (users_of c)"
    by (cases a) (simp_all add: acquire_users release_users)
next
  fix c k g w k' g' w'
  assume u: "0 < users_of c k g w" "0 < users_of c k' g' w'" and eq: "slot (csPool c) k = slot (csPool c) k'"
  from user_held [OF u(1)] user_held [OF u(2)] obtain cl cl' where
    "map_of (csHeld c) (slot (csPool c) k) = Some cl" "clKey cl = k"
    "map_of (csHeld c) (slot (csPool c) k') = Some cl'" "clKey cl' = k'" by blast
  then show "k = k'" unfolding eq by simp
qed

definition claims_run :: "IDPool \<Rightarrow> claim_op list \<Rightarrow> claims" where
  "claims_run p as = fold claims_op as (newClaims p)"

lemma newClaims_ok: "claims_ok (newClaims p)"
  by (simp add: claims_ok_def newClaims_def)

lemma newClaims_users: "users_of (newClaims p) = (\<lambda>k g w. 0)"
  by (simp add: users_of_def newClaims_def fun_eq_iff)

lemma claims_run_facts:
  "claims_ok (claims_run p as)" "slot (csPool (claims_run p as)) = slot p"
  "users_of (claims_run p as) = fold (usage_step (slot p)) as (\<lambda>k g w. 0)"
  using ranges.runs [OF newClaims_ok [of p], of as]
  by (simp_all add: claims_run_def newClaims_users) (simp_all add: newClaims_def)

text \<open>
  C10. The claims of id slots. After any sequence of acquires and releases, the table's users are exactly those of
  the counting specification: a warm zygote counts once, each restored fiber counts, grants of one range key
  share its slot. A further acquire is refused exactly when another key that hashes to the slot still has a
  user. A release reports that the grant is done exactly when the grant had a user and has none left, so a
  release that nobody owed changes nothing and reports nothing.
\<close>

theorem claims_count_users:
  "users_of (claims_run p as) = fold (usage_step (slot p)) as (\<lambda>k g w. 0) \<and>
   (snd (claims_acquire (claims_run p as) key g w) \<noteq> None \<longleftrightarrow>
      taken (slot p) (fold (usage_step (slot p)) as (\<lambda>k g w. 0)) key) \<and>
   (snd (claims_release (claims_run p as) key g w) \<longleftrightarrow>
      uses (fold (usage_step (slot p)) as (\<lambda>k g w. 0)) key g \<and>
      \<not> uses (shrink (fold (usage_step (slot p)) as (\<lambda>k g w. 0)) key g w) key g)"
  using release_free [OF claims_run_facts(1), of p as key g w] find_fails_iff [OF claims_run_facts(1), of p as key]
  by (auto simp: claims_run_facts acquire_cases split: sum.split)

section \<open>Ranges do not overlap\<close>

definition range_ids :: "IDRange \<Rightarrow> nat set" where
  "range_ids r = {unat (rgStart r) ..< unat (rgStart r) + unat (rgCount r)}"

lemma unat_small: "n < 2 ^ LENGTH('a) \<Longrightarrow> unat (of_nat n :: 'a :: len word) = n"
  by (simp add: unat_of_nat take_bit_nat_eq_self)

lemma pool_end_unat: "unat (pool_end p) = unat (poStart p) + unat (poSlots p) * 65536"
proof -
  have e: "pool_end p = of_nat (unat (poStart p) + unat (poSlots p) * 65536)"
    by (simp add: pool_end_def SlotIDs_def)
  have "unat (poStart p) + unat (poSlots p) * 65536 < 2 ^ 64"
    using unsigned_less [of "poStart p", where ?'a = nat] unsigned_less [of "poSlots p", where ?'a = nat] by simp
  then show ?thesis unfolding e by (intro unat_small) simp
qed

lemma slot_less:
  assumes "poSlots p \<noteq> 0"
  shows "unat (slot p key) < unat (poSlots p)"
proof -
  from assms have pos: "0 < unat (poSlots p)" by (simp add: unat_gt_0)
  have "unat (ucast (poSlots p) :: u64) = unat (poSlots p)"
    using unat_small [of "unat (poSlots p)", where ?'a = 64] unsigned_less [of "poSlots p", where ?'a = nat] by simp
  then have m: "unat (fnv64a key mod ucast (poSlots p)) = unat (fnv64a key) mod unat (poSlots p)"
    by (simp add: unat_mod)
  have "unat (slot p key) \<le> unat (fnv64a key mod ucast (poSlots p))"
    by (simp add: slot_def unsigned_ucast_eq take_bit_nat_less_eq_self)
  also have "\<dots> < unat (poSlots p)" unfolding m using pos by simp
  finally show ?thesis .
qed

lemma Validate_facts:
  assumes "Validate_pool p = None"
  shows "poSlots p \<noteq> 0" "65536 \<le> unat (poStart p)" "unat (poStart p) + unat (poSlots p) * 65536 \<le> 2 ^ 32 - 2"
proof -
  from assms show "poSlots p \<noteq> 0" by (auto simp: Validate_pool_def)
  from assms have "\<not> poStart p < of_nat SlotIDs" "\<not> pool_end p > 2 ^ 32 - 2"
    by (auto simp: Validate_pool_def split: if_splits)
  then show "65536 \<le> unat (poStart p)" "unat (poStart p) + unat (poSlots p) * 65536 \<le> 2 ^ 32 - 2"
    by (simp_all add: SlotIDs_def word_less_nat_alt pool_end_unat not_less)
qed

lemma range_start:
  assumes "Validate_pool p = None"
  shows "unat (rgStart (Range_of p key)) = unat (poStart p) + unat (slot p key) * 65536"
    "unat (rgCount (Range_of p key)) = 65536"
proof -
  have e: "rgStart (Range_of p key) = of_nat (unat (poStart p) + unat (slot p key) * 65536)"
    by (simp add: Range_of_def SlotIDs_def)
  have "unat (poStart p) + unat (slot p key) * 65536 < 2 ^ 32"
    using Validate_facts [OF assms] slot_less [of p key] by simp
  then show "unat (rgStart (Range_of p key)) = unat (poStart p) + unat (slot p key) * 65536"
    unfolding e by (intro unat_small) simp
  show "unat (rgCount (Range_of p key)) = 65536" by (simp add: Range_of_def SlotIDs_def)
qed

lemma range_inside:
  assumes "Validate_pool p = None"
  shows "range_ids (Range_of p key) \<subseteq> {65536 ..< 2 ^ 32 - 2}"
  using Validate_facts [OF assms] slot_less [of p key] by (auto simp: range_ids_def range_start [OF assms])

lemma ranges_disjoint:
  assumes "Validate_pool p = None" "slot p k \<noteq> slot p k'"
  shows "range_ids (Range_of p k) \<inter> range_ids (Range_of p k') = {}"
proof -
  from assms(2) have "unat (slot p k) < unat (slot p k') \<or> unat (slot p k') < unat (slot p k)"
    by (metis linorder_neqE_nat unsigned_word_eqI)
  then show ?thesis by (auto simp: range_ids_def range_start [OF assms(1)])
qed

text \<open>
  C9. Two grants of different range keys never share a host id. Whatever calls a home's table of claims has
  answered, if both keys have a user, then the id ranges their namespaces map are disjoint, and both lie inside
  the pool: above the host's own ids and below the overflow id, with no 32-bit wrap-around.
\<close>

theorem ranges_apart:
  assumes "ParsePool s = Inr p" "0 < users_of (claims_run p as) k g w" "0 < users_of (claims_run p as) k' g' w'" "k \<noteq> k'"
  shows "range_ids (Range_of p k) \<inter> range_ids (Range_of p k') = {} \<and>
     range_ids (Range_of p k) \<union> range_ids (Range_of p k') \<subseteq> {65536 ..< 2 ^ 32 - 2}"
proof -
  from assms(1) have "Validate_pool p = None"
    by (auto simp: ParsePool_def Let_def split: option.splits sum.splits prod.splits)
  moreover from ranges.runs_apart [OF newClaims_ok [of p], of as k g w k' g' w'] assms(2-4)
  have "slot p k \<noteq> slot p k'" by (simp add: claims_run_def newClaims_def)
  ultimately show ?thesis using ranges_disjoint range_inside by blast
qed

definition demo_pool :: IDPool where
  "demo_pool = \<lparr>poStart = 65536, poSlots = 2\<rparr>"

lemma demo_pool_parsed: "ParsePool ''65536:2'' = Inr demo_pool"
proof -
  have "Cut (TrimSpace ''65536:2'') (CHR '':'') = Some (''65536'', ''2'')" by code_simp
  moreover have "ParseBits 32 ''65536'' = Inr 65536" "ParseBits 32 ''2'' = Inr 2"
    by (simp_all add: ParseBits_def parse_cutoff_def max_uint64_def is_digit_def digit_val_def)
  ultimately show ?thesis
    by (simp add: ParsePool_def demo_pool_def Validate_pool_def SlotIDs_def pool_end_def)
qed

lemma demo_slots: "slot demo_pool ''a'' = 0" "slot demo_pool ''b'' = 1"
  by (simp_all add: slot_def demo_pool_def fnv64a_def)

lemma demo_users:
  defines "c \<equiv> claims_run demo_pool [AcquireSlot ''a'' ''g1'' True, AcquireSlot ''b'' ''g2'' False]"
  shows "0 < users_of c ''a'' ''g1'' True" "0 < users_of c ''b'' ''g2'' False"
  unfolding c_def claims_run_facts by (auto simp: taken_def grow_def demo_slots split: if_splits)

theorem ranges_apart_witness:
  "range_ids (Range_of demo_pool ''a'') \<inter> range_ids (Range_of demo_pool ''b'') = {} \<and>
   range_ids (Range_of demo_pool ''a'') \<union> range_ids (Range_of demo_pool ''b'') \<subseteq> {65536 ..< 2 ^ 32 - 2}"
  by (rule ranges_apart [OF demo_pool_parsed demo_users]) simp

end
