(* ===== verification/Spec2Isabelle.thy ===== *)
theory Spec2Isabelle
  imports Group_Commit Core_Outcomes Epoch_Fencing Yield_Ends Server_Name Device_Guard Id_Ranges
begin

text \<open>
  The node core of fiberd (\<open>src/pkg/core\<close>).

  A home runs fibers for grants. The ledger (\<open>ledger.go\<close>) records grants, sessions and running
  fibers and mints each fiber's fence.
\<close>

section \<open>The core refines the ledger's specification\<close>


definition demo_calls :: "stub_world core_call list" where
  "demo_calls =
     [CallAdmit demo_ctx sample_grant, CallClone demo_ctx (demo_clone ''s''), CallPark ''g-1/7/1'' True,
      CallClone demo_ctx (demo_clone ''s'')]"


end
